(* ===== verification/LFT_Prelude.thy ===== *)
theory LFT_Prelude
  imports Main "HOL-Library.Word"
begin

text \<open>
  Shared vocabulary of the development. Bytes of the C++ program (\<open>std::string\<close>,
  \<open>std::string_view\<close>, the buffers of QUIC events) are Isabelle \<open>string\<close>s, that is,
  lists of 8-bit characters. \<open>uint64_t\<close>, \<open>uint32_t\<close> and \<open>uint16_t\<close> are words of
  that width. The theory also holds the collections of simplification rules the
  components fill, and lemmas on lists that several components use.
\<close>

section \<open>Types\<close>

type_synonym bytes = string
type_synonym path = string
type_synonym u64 = "64 word"
type_synonym u32 = "32 word"
type_synonym u16 = "16 word"
type_synonym handle = nat \<comment> \<open>an \<open>HQUIC\<close>; a null handle is \<open>None\<close>\<close>

abbreviation NL :: char where "NL \<equiv> CHR 0x0A"

section \<open>Collections of rules\<close>

named_theorems handler_defs \<open>definitions of the operations of a component\<close>
named_theorems frame_simps \<open>fields an operation leaves alone\<close>

section \<open>Lists\<close>

lemma take_while_append_stop:
  "\<forall>c \<in> set xs. P c \<Longrightarrow> \<not> P y \<Longrightarrow> takeWhile P (xs @ y # ys) = xs"
  by (induction xs) auto

lemma drop_while_append_stop:
  "\<forall>c \<in> set xs. P c \<Longrightarrow> \<not> P y \<Longrightarrow> dropWhile P (xs @ y # ys) = y # ys"
  by (induction xs) auto

lemma take_while_all: "\<forall>c \<in> set xs. P c \<Longrightarrow> takeWhile P xs = xs"
  by (induction xs) auto

lemma dropWhile_hd: "dropWhile P xs \<noteq> [] \<Longrightarrow> \<not> P (hd (dropWhile P xs))"
  by (induction xs) auto

lemma dropWhile_fix: "xs = [] \<or> \<not> P (hd xs) \<Longrightarrow> dropWhile P xs = xs"
  by (cases xs) auto

lemma split_at_first:
  "c \<in> set s \<Longrightarrow>
     s = takeWhile (\<lambda>x. x \<noteq> c) s @ c # tl (dropWhile (\<lambda>x. x \<noteq> c) s)"
  by (induction s) auto

lemma hd_map_nonempty: "xs \<noteq> [] \<Longrightarrow> hd (map f xs) = f (hd xs)"
  by (cases xs) auto

lemma last_map_nonempty: "xs \<noteq> [] \<Longrightarrow> last (map f xs) = f (last xs)"
  by (induction xs) auto

lemma map_id_on: "\<forall>x \<in> set xs. f x = x \<Longrightarrow> map f xs = xs"
  by (induction xs) auto

lemma append_eq_append_take: "n \<le> length xs \<Longrightarrow> take n (xs @ ys) = take n xs"
  by simp

section \<open>Words\<close>

lemma unat_u64_bound: "unat (w :: u64) < 18446744073709551616"
proof -
  have "unat w < 2 ^ LENGTH(64)" by (rule unsigned_less)
  then show ?thesis by simp
qed

lemma unat_of_nat_u64: "n < 18446744073709551616 \<Longrightarrow> unat (of_nat n :: u64) = n"
  by (simp add: unat_of_nat take_bit_nat_eq_self)

end
