(* ===== verification/Cxx_Text.thy ===== *)
theory Cxx_Text
  imports LFT_Prelude
begin

text \<open>
  The parts of the C and C++ standard library on text that the program uses, in the
  \<open>"C"\<close> locale: character classes of \<open>cctype\<close>, \<open>find\<close>, \<open>substr\<close> and
  \<open>starts_with\<close> on strings, decimal output of an unsigned integer, \<open>std::from_chars\<close>
  for \<open>uint64_t\<close>, and the \<open>filename\<close> and \<open>operator/\<close> of \<open>std::filesystem::path\<close>
  on a POSIX system. The lemmas are the laws the wire protocol needs: a search finds the
  first match, more text behind the match does not move it, and the decimal form of a
  number parses back.
\<close>

section \<open>Character classes\<close>

definition is_space :: "char \<Rightarrow> bool" where
  "is_space c \<longleftrightarrow> c \<in> {CHR '' '', CHR 0x09, CHR 0x0A, CHR 0x0B, CHR 0x0C, CHR 0x0D}"

definition is_digit :: "char \<Rightarrow> bool" where
  "is_digit c \<longleftrightarrow> 48 \<le> (of_char c :: nat) \<and> (of_char c :: nat) \<le> 57"

definition is_xdigit :: "char \<Rightarrow> bool" where
  "is_xdigit c \<longleftrightarrow> is_digit c
     \<or> (65 \<le> (of_char c :: nat) \<and> (of_char c :: nat) \<le> 70)
     \<or> (97 \<le> (of_char c :: nat) \<and> (of_char c :: nat) \<le> 102)"

definition is_cntrl_byte :: "char \<Rightarrow> bool" where
  "is_cntrl_byte c \<longleftrightarrow> (of_char c :: nat) < 32"

definition to_lower :: "char \<Rightarrow> char" where
  "to_lower c = (if 65 \<le> (of_char c :: nat) \<and> (of_char c :: nat) \<le> 90
                 then char_of (of_char c + 32 :: nat) else c)"

lemma of_char_inject_nat: "(of_char c :: nat) = of_char d \<longleftrightarrow> c = d"
  by (metis char_of_char)

lemma of_char_bound: "(of_char c :: nat) < 256"
  by (cases c) (simp add: of_char_def)

lemma of_char_to_lower:
  "(of_char (to_lower c) :: nat) =
     (if 65 \<le> (of_char c :: nat) \<and> (of_char c :: nat) \<le> 90 then of_char c + 32 else of_char c)"
  using of_char_bound [of c] by (simp add: to_lower_def)

lemma to_lower_idem [simp]: "to_lower (to_lower c) = to_lower c"
  by (simp add: of_char_inject_nat [symmetric] of_char_to_lower)

lemma is_xdigit_to_lower [simp]: "is_xdigit (to_lower c) \<longleftrightarrow> is_xdigit c"
  by (auto simp: is_xdigit_def is_digit_def of_char_to_lower)

lemma map_to_lower_idem [simp]: "map to_lower (map to_lower xs) = map to_lower xs"
  by simp

lemma is_digit_NL [simp]: "\<not> is_digit NL"
  by (simp add: is_digit_def)

lemma is_xdigit_NL [simp]: "\<not> is_xdigit NL"
  by (simp add: is_xdigit_def is_digit_def)

section \<open>Searching\<close>

text \<open>\<open>find\<close>: the index of the first occurrence, \<open>None\<close> for \<open>npos\<close>.\<close>

fun str_find :: "bytes \<Rightarrow> bytes \<Rightarrow> nat option" where
  "str_find pat [] = (if pat = [] then Some 0 else None)"
| "str_find pat (c # cs) =
     (if take (length pat) (c # cs) = pat then Some 0
      else map_option Suc (str_find pat cs))"

text \<open>\<open>find(pat, pos)\<close> and \<open>substr(pos, n)\<close>.\<close>

definition str_find_from :: "bytes \<Rightarrow> bytes \<Rightarrow> nat \<Rightarrow> nat option" where
  "str_find_from pat s pos = map_option (\<lambda>i. i + pos) (str_find pat (drop pos s))"

definition substr :: "bytes \<Rightarrow> nat \<Rightarrow> nat \<Rightarrow> bytes" where
  "substr s pos n = take n (drop pos s)"

definition starts_with :: "bytes \<Rightarrow> bytes \<Rightarrow> bool" where
  "starts_with s pre \<longleftrightarrow> take (length pre) s = pre"

lemma str_find_Some:
  "str_find pat s = Some i \<Longrightarrow>
     i + length pat \<le> length s \<and> take (length pat) (drop i s) = pat"
proof (induction s arbitrary: i)
  case Nil
  then show ?case by (simp split: if_splits)
next
  case (Cons c cs)
  show ?case
  proof (cases "take (length pat) (c # cs) = pat")
    case True
    then have "length pat \<le> length (c # cs)"
      by (metis length_take min.cobounded1)
    with True Cons.prems show ?thesis by simp
  next
    case False
    with Cons.prems obtain j where "str_find pat cs = Some j" "i = Suc j" by auto
    with Cons.IH show ?thesis by simp
  qed
qed

lemma str_find_split:
  "str_find pat s = Some i \<Longrightarrow> s = take i s @ pat @ drop (i + length pat) s"
  using str_find_Some [of pat s i]
  by (metis add.commute append_take_drop_id drop_drop)

text \<open>The first match: no match starts earlier.\<close>

lemma str_find_first:
  "str_find pat s = Some i \<Longrightarrow> j < i \<Longrightarrow> take (length pat) (drop j s) \<noteq> pat"
proof (induction s arbitrary: i j)
  case Nil
  then show ?case by (simp split: if_splits)
next
  case (Cons c cs)
  then obtain i' where i': "take (length pat) (c # cs) \<noteq> pat" "str_find pat cs = Some i'"
      "i = Suc i'"
    by (auto split: if_splits)
  with Cons show ?case by (cases j) auto
qed

lemma str_find_None:
  "str_find pat s = None \<Longrightarrow> j \<le> length s \<Longrightarrow> take (length pat) (drop j s) \<noteq> pat"
proof (induction s arbitrary: j)
  case Nil
  then show ?case by (simp split: if_splits)
next
  case (Cons c cs)
  then show ?case by (cases j) (auto split: if_splits)
qed

text \<open>Text behind a match does not change the search.\<close>

lemma str_find_append:
  "str_find pat s = Some i \<Longrightarrow> str_find pat (s @ t) = Some i"
proof (induction s arbitrary: i)
  case Nil
  then show ?case by (cases t) (simp_all split: if_splits)
next
  case (Cons c cs)
  show ?case
  proof (cases "take (length pat) (c # cs) = pat")
    case True
    then have "length pat \<le> length (c # cs)"
      by (metis length_take min.cobounded1)
    then have "take (length pat) ((c # cs) @ t) = take (length pat) (c # cs)"
      by (simp only: take_append) simp
    with True Cons.prems show ?thesis by simp
  next
    case False
    with Cons.prems obtain j where j: "str_find pat cs = Some j" "i = Suc j" by auto
    have "length pat \<le> length (c # cs)"
      using str_find_Some [OF j(1)] by simp
    then have "take (length pat) ((c # cs) @ t) = take (length pat) (c # cs)"
      by (simp only: take_append) simp
    with False j Cons.IH [OF j(1)] show ?thesis by simp
  qed
qed

text \<open>Searching for one character is \<open>takeWhile\<close>.\<close>

lemma str_find_char:
  "str_find [c] s = (if c \<in> set s then Some (length (takeWhile (\<lambda>x. x \<noteq> c) s)) else None)"
  by (induction s) auto

lemma str_find_char_append:
  "c \<notin> set s \<Longrightarrow> str_find [c] (s @ c # t) = Some (length s)"
  by (induction s) auto

section \<open>Decimal numbers\<close>

text \<open>\<open>operator<<\<close> and \<open>std::to_string\<close> on an unsigned integer.\<close>

fun nat_to_dec :: "nat \<Rightarrow> bytes" where
  "nat_to_dec n = (if n < 10 then [char_of (48 + n)]
                   else nat_to_dec (n div 10) @ [char_of (48 + n mod 10)])"

declare nat_to_dec.simps [simp del]

definition digit_value :: "char \<Rightarrow> nat" where
  "digit_value c = of_char c - 48"

definition dec_value :: "bytes \<Rightarrow> nat" where
  "dec_value ds = foldl (\<lambda>acc c. acc * 10 + digit_value c) 0 ds"

text \<open>
  \<open>std::from_chars\<close> on \<open>uint64_t\<close>: the longest run of digits, no sign and no
  whitespace; the result is the error code, the number of characters consumed, and the
  value, which is left as it was on an error.
\<close>

datatype errc = Errc_ok | Errc_invalid_argument | Errc_result_out_of_range

definition from_chars_u64 :: "bytes \<Rightarrow> u64 \<Rightarrow> errc \<times> nat \<times> u64" where
  "from_chars_u64 text out =
     (let ds = takeWhile is_digit text; v = dec_value ds
      in if ds = [] then (Errc_invalid_argument, 0, out)
         else if v \<ge> 18446744073709551616 then (Errc_result_out_of_range, length ds, out)
         else (Errc_ok, length ds, of_nat v))"

lemma digit_char [simp]:
  "d < 10 \<Longrightarrow> is_digit (char_of (48 + d))" "d < 10 \<Longrightarrow> digit_value (char_of (48 + d)) = d"
  by (simp_all add: is_digit_def digit_value_def)

lemma nat_to_dec_digits: "\<forall>c \<in> set (nat_to_dec n). is_digit c"
proof (induction n rule: nat_to_dec.induct)
  case (1 n)
  then show ?case by (auto simp: nat_to_dec.simps [of n])
qed

lemma nat_to_dec_nonempty [simp]: "nat_to_dec n \<noteq> []"
  by (subst nat_to_dec.simps) simp

lemma dec_value_snoc [simp]: "dec_value (ds @ [c]) = dec_value ds * 10 + digit_value c"
  by (simp add: dec_value_def)

lemma dec_value_nat_to_dec: "dec_value (nat_to_dec n) = n"
proof (induction n rule: nat_to_dec.induct)
  case (1 n)
  show ?case
  proof (cases "n < 10")
    case True
    then have "nat_to_dec n = [] @ [char_of (48 + n)]" by (simp add: nat_to_dec.simps [of n])
    then show ?thesis using True by (simp only: dec_value_snoc) (simp add: dec_value_def)
  next
    case False
    then have "nat_to_dec n = nat_to_dec (n div 10) @ [char_of (48 + n mod 10)]"
      by (simp add: nat_to_dec.simps [of n])
    with False "1" show ?thesis by simp
  qed
qed

lemma from_chars_u64_to_dec:
  "from_chars_u64 (nat_to_dec (unat n)) out = (Errc_ok, length (nat_to_dec (unat n)), n)"
  using unat_u64_bound [of n] nat_to_dec_digits [of "unat n"]
  by (simp add: from_chars_u64_def take_while_all dec_value_nat_to_dec Let_def)

section \<open>Paths\<close>

text \<open>\<open>filename()\<close>: the text behind the last separator; \<open>operator/\<close>; \<open>parent_path()\<close>
  is not needed beyond its use for creating directories.\<close>

definition path_filename :: "path \<Rightarrow> bytes" where
  "path_filename p = rev (takeWhile (\<lambda>c. c \<noteq> CHR ''/'') (rev p))"

definition path_append :: "path \<Rightarrow> path \<Rightarrow> path" where
  "path_append dir name =
     (if name \<noteq> [] \<and> hd name = CHR ''/'' then name
      else if dir = [] \<or> last dir = CHR ''/'' then dir @ name
      else dir @ ''/'' @ name)"

lemma path_filename_no_sep: "CHR ''/'' \<notin> set (path_filename p)"
  by (auto simp: path_filename_def dest: set_takeWhileD)

lemma path_filename_suffix: "\<exists>d. p = d @ path_filename p"
proof -
  have "p = rev (dropWhile (\<lambda>c. c \<noteq> CHR ''/'') (rev p)) @ path_filename p"
    by (metis path_filename_def rev_append rev_rev_ident takeWhile_dropWhile_id)
  then show ?thesis by blast
qed

lemma path_filename_id: "CHR ''/'' \<notin> set p \<Longrightarrow> path_filename p = p"
  by (subst path_filename_def, subst take_while_all) auto

lemma path_filename_after_sep:
  "CHR ''/'' \<notin> set name \<Longrightarrow> path_filename (dir @ CHR ''/'' # name) = name"
  by (simp add: path_filename_def, subst take_while_append_stop) auto

end
