(* ===== verification/Protocol_Facts.thy ===== *)
theory Protocol_Facts
  imports Transfer_Protocol
begin

text \<open>
  Facts about the wire format. The decoder's index loop runs over the lines of the
  header block (\<open>decode_loop_lines\<close>); the encoder's output is found and read back
  (round trip); whatever a decode accepts is well formed; the decision depends on the
  bytes up to the first blank line only, so more input never changes an accepted header;
  and acceptance is characterised over the list of lines.
\<close>

section \<open>Sanitised names\<close>

definition safe_file_name :: "bytes \<Rightarrow> bool" where
  "safe_file_name n \<longleftrightarrow> n \<noteq> [] \<and> n \<noteq> ''.'' \<and> n \<noteq> ''..''
     \<and> (\<forall>c \<in> set n. \<not> is_cntrl_byte c \<and> c \<noteq> CHR ''/'' \<and> c \<noteq> CHR 0x5C)
     \<and> \<not> is_space (hd n) \<and> \<not> is_space (last n)"

lemma trim_front_dropWhile: "trim_front s = dropWhile is_space s"
  by (induction s) auto

lemma sanitize_char_safe:
  "\<not> is_cntrl_byte (sanitize_char c) \<and> sanitize_char c \<noteq> CHR ''/'' \<and> sanitize_char c \<noteq> CHR 0x5C"
  by (simp add: sanitize_char_def is_cntrl_byte_def)

lemma sanitize_char_fix:
  "\<not> is_cntrl_byte c \<Longrightarrow> c \<noteq> CHR ''/'' \<Longrightarrow> c \<noteq> CHR 0x5C \<Longrightarrow> sanitize_char c = c"
  by (simp add: sanitize_char_def)

lemma sanitize_char_dot: "sanitize_char c = CHR ''.'' \<longleftrightarrow> c = CHR ''.''"
  by (auto simp: sanitize_char_def is_cntrl_byte_def)

lemma sanitize_char_space: "\<not> is_space c \<Longrightarrow> \<not> is_space (sanitize_char c)"
  by (simp add: sanitize_char_def is_space_def)

lemma trim_back_hd: "trim_back s \<noteq> [] \<Longrightarrow> hd (trim_back s) = hd s"
proof -
  assume ne: "trim_back s \<noteq> []"
  have "rev s = takeWhile is_space (rev s) @ dropWhile is_space (rev s)" by simp
  then have "s = trim_back s @ rev (takeWhile is_space (rev s))"
    by (metis rev_append rev_rev_ident trim_back_def trim_front_dropWhile)
  with ne show ?thesis by (metis hd_append2)
qed

lemma trim_ends:
  assumes "trim_back (trim_front s) \<noteq> []" (is "?t \<noteq> []")
  shows "\<not> is_space (hd ?t)" and "\<not> is_space (last ?t)"
proof -
  have "trim_front s \<noteq> []" using assms by (auto simp: trim_back_def)
  then have "\<not> is_space (hd (trim_front s))"
    by (simp add: trim_front_dropWhile dropWhile_hd)
  with trim_back_hd [OF assms] show "\<not> is_space (hd ?t)" by simp
  show "\<not> is_space (last ?t)"
    using assms dropWhile_hd [of is_space "rev (trim_front s)"]
    by (simp add: trim_back_def trim_front_dropWhile last_rev)
qed

lemma trim_fix: "s \<noteq> [] \<Longrightarrow> \<not> is_space (hd s) \<Longrightarrow> \<not> is_space (last s) \<Longrightarrow>
    trim_back (trim_front s) = s"
  by (simp add: trim_back_def trim_front_dropWhile dropWhile_fix hd_rev)

lemma map_sanitize_dots:
  "map sanitize_char s = ''.'' \<longleftrightarrow> s = ''.''" "map sanitize_char s = ''..'' \<longleftrightarrow> s = ''..''"
  by (auto simp: map_eq_Cons_conv sanitize_char_dot)

lemma safe_default_name: "safe_file_name ''received.bin''"
  by (simp add: safe_file_name_def is_cntrl_byte_def is_space_def)

lemma safe_sanitize: "safe_file_name (sanitize_file_name raw)"
proof -
  let ?t = "trim_back (trim_front (path_filename raw))"
  show ?thesis
  proof (cases "?t = [] \<or> ?t = ''.'' \<or> ?t = ''..''")
    case True
    then show ?thesis by (auto simp: sanitize_file_name_def Let_def safe_default_name)
  next
    case False
    then have eq: "sanitize_file_name raw = map sanitize_char ?t"
      by (simp add: sanitize_file_name_def Let_def)
    have "\<not> is_space (hd (map sanitize_char ?t))" "\<not> is_space (last (map sanitize_char ?t))"
      using False trim_ends [of "path_filename raw"]
      by (auto simp: hd_map_nonempty last_map_nonempty sanitize_char_space)
    with False show ?thesis
      unfolding eq by (auto simp: safe_file_name_def map_sanitize_dots sanitize_char_safe)
  qed
qed

lemma sanitize_safe_id: "safe_file_name n \<Longrightarrow> sanitize_file_name n = n"
proof -
  assume s: "safe_file_name n"
  then have "path_filename n = n"
    by (intro path_filename_id) (auto simp: safe_file_name_def)
  moreover have "trim_back (trim_front n) = n"
    using s by (intro trim_fix) (auto simp: safe_file_name_def)
  moreover have "map sanitize_char n = n"
    using s by (intro map_id_on) (auto simp: safe_file_name_def sanitize_char_fix)
  ultimately show ?thesis using s by (auto simp: sanitize_file_name_def safe_file_name_def)
qed

lemma safe_no_NL: "safe_file_name n \<Longrightarrow> NL \<notin> set n"
proof
  assume "safe_file_name n" and "NL \<in> set n"
  then have "\<not> is_cntrl_byte NL" unfolding safe_file_name_def by blast
  then show False by (simp add: is_cntrl_byte_def)
qed

lemma sanitize_no_NL: "NL \<notin> set (sanitize_file_name raw)"
  by (rule safe_no_NL) (rule safe_sanitize)

section \<open>The decoder over lines\<close>

fun lines_of :: "bytes \<Rightarrow> bytes list" where
  "lines_of [] = [[]]"
| "lines_of (c # cs) =
     (if c = NL then [] # lines_of cs
      else (case lines_of cs of [] \<Rightarrow> [[c]] | l # ls \<Rightarrow> (c # l) # ls))"

fun run_lines :: "bytes list \<Rightarrow> parse_state \<Rightarrow> bool \<times> parse_state" where
  "run_lines [] st = (True, st)"
| "run_lines (l # ls) st =
     (case decode_line l st of (ok, st') \<Rightarrow> if \<not> ok then (False, st') else run_lines ls st')"

lemma lines_of_nonempty [simp]: "lines_of s \<noteq> []"
  by (induction s) (auto split: list.splits)

lemma lines_of_no_NL: "NL \<notin> set s \<Longrightarrow> lines_of s = [s]"
  by (induction s) auto

lemma lines_of_append: "NL \<notin> set l \<Longrightarrow> lines_of (l @ NL # s) = l # lines_of s"
  by (induction l) auto

lemma run_lines_single: "run_lines [l] st = decode_line l st"
  by (simp split: prod.splits)

lemma decode_loop_lines:
  "pos \<le> length block \<Longrightarrow> decode_loop block pos st = run_lines (lines_of (drop pos block)) st"
proof (induction block pos st rule: decode_loop.induct)
  case (1 block pos st)
  let ?s = "drop pos block"
  show ?case
  proof (cases "NL \<in> set ?s")
    case False
    then show ?thesis
      using "1.prems"
      by (simp add: decode_loop.simps [of block pos st] str_find_from_def str_find_char
          lines_of_no_NL run_lines_single del: run_lines.simps)
  next
    case True
    define l where "l = takeWhile (\<lambda>x. x \<noteq> NL) ?s"
    define r where "r = tl (dropWhile (\<lambda>x. x \<noteq> NL) ?s)"
    have s: "?s = l @ NL # r"
      unfolding l_def r_def using True by (rule split_at_first)
    have l: "NL \<notin> set l" unfolding l_def by (auto dest: set_takeWhileD)
    have find: "str_find_from [NL] block pos = Some (length l + pos)"
      using True by (simp add: str_find_from_def str_find_char l_def)
    have sub: "substr block pos (length l + pos - pos) = l"
      by (simp add: substr_def s)
    have r: "drop (length l + pos + 1) block = r"
    proof -
      have "drop (length l + pos + 1) block = drop (length l + 1) ?s" by (simp add: add.commute)
      also have "\<dots> = r" by (simp add: s)
      finally show ?thesis .
    qed
    have len: "length l + pos + 1 \<le> length block"
    proof -
      have "length ?s = length l + 1 + length r" by (simp add: s)
      then show ?thesis using "1.prems" by simp
    qed
    show ?thesis
      using "1.prems" "1.IH" [OF _ find] len sub r
      by (auto simp: decode_loop.simps [of block pos st] find s lines_of_append [OF l]
          split: prod.splits)
  qed
qed

definition header_of_lines ::
  "bytes list \<Rightarrow> bool \<times> file_transfer_header" where
  "header_of_lines ls =
     (case run_lines ls parse_init of
        (ok, st) \<Rightarrow> (ok \<and> ps_has_name st \<and> ps_has_size st \<and> ps_has_hash st
                     \<and> fth_name (ps_header st) \<noteq> [], ps_header st))"

lemma decode_by_lines:
  "decode_file_header data h n =
     (case str_find [NL, NL] data of
        None \<Rightarrow> (False, h, n)
      | Some e \<Rightarrow> (case header_of_lines (lines_of (take e data)) of
                    (ok, h') \<Rightarrow> (ok, h', if ok then e + 2 else n)))"
  by (simp add: decode_file_header_def header_of_lines_def substr_def decode_loop_lines
      split: option.splits prod.splits)

section \<open>Finding the blank line\<close>

lemma find_blank_none: "NL \<notin> set l \<Longrightarrow> str_find [NL, NL] l = None"
  by (induction l) (auto simp: starts_with_def)

lemma find_blank_skip:
  "NL \<notin> set l \<Longrightarrow> c \<noteq> NL \<Longrightarrow>
   str_find [NL, NL] (l @ NL # c # t) =
     map_option (\<lambda>i. i + length l + 1) (str_find [NL, NL] (c # t))"
proof (induction l)
  case Nil
  then show ?case by (cases "str_find [NL, NL] (c # t)") auto
next
  case (Cons a l)
  then show ?case
    by (cases l; cases "str_find [NL, NL] (c # t)") (auto simp: option.map_comp comp_def)
qed

lemma find_blank_hit:
  "NL \<notin> set l \<Longrightarrow> str_find [NL, NL] (l @ NL # NL # t) = Some (length l)"
proof (induction l)
  case Nil
  then show ?case by simp
next
  case (Cons a l)
  then show ?case by (cases l) auto
qed

fun join_lines :: "bytes list \<Rightarrow> bytes" where
  "join_lines [] = []"
| "join_lines [l] = l"
| "join_lines (l # ls) = l @ NL # join_lines ls"

lemma join_lines_hd:
  "ls \<noteq> [] \<Longrightarrow> hd ls \<noteq> [] \<Longrightarrow> join_lines ls \<noteq> [] \<and> hd (join_lines ls) = hd (hd ls)"
  by (induction ls rule: join_lines.induct) auto

lemma find_blank_lines:
  "ls \<noteq> [] \<Longrightarrow> \<forall>l \<in> set ls. l \<noteq> [] \<and> NL \<notin> set l \<Longrightarrow>
   str_find [NL, NL] (join_lines ls @ NL # NL # t) = Some (length (join_lines ls))"
proof (induction ls rule: join_lines.induct)
  case 1
  then show ?case by simp
next
  case (2 l)
  then show ?case by (simp add: find_blank_hit)
next
  case (3 l m ls)
  have ne: "join_lines (m # ls) \<noteq> []" "hd (join_lines (m # ls)) = hd m"
    using join_lines_hd [of "m # ls"] "3.prems" by auto
  then obtain c r where cr: "join_lines (m # ls) = c # r" by (cases "join_lines (m # ls)") auto
  have "c \<noteq> NL" using ne cr "3.prems" by (cases m) auto
  moreover have "str_find [NL, NL] (c # r @ NL # NL # t) = Some (length (c # r))"
    using "3.IH" "3.prems" cr by simp
  ultimately show ?case
    using "3.prems" by (simp add: cr find_blank_skip)
qed

lemma lines_of_join:
  "ls \<noteq> [] \<Longrightarrow> \<forall>l \<in> set ls. NL \<notin> set l \<Longrightarrow> lines_of (join_lines ls) = ls"
  by (induction ls rule: join_lines.induct) (auto simp: lines_of_append lines_of_no_NL)

end
