(* ===== verification/Header_Framing.thy ===== *)
theory Header_Framing
  imports Protocol_Facts
begin

text \<open>
  The interface between the wire format and the two QUIC endpoints: a framing of a header
  in front of a body. The receiver only relies on the laws of the locale \<open>framing\<close>: a
  well-formed header reads back with any body behind it, an accepted header does not
  change when more bytes arrive, and no more bytes are consumed than were given. From
  these follows, once, that feeding the stream in arbitrary pieces finds the same header
  and leaves the same body. The interpretation discharges the laws for the encoder and
  decoder of \<open>Transfer_Protocol\<close>.
\<close>

section \<open>The interface\<close>

text \<open>Feeding a decoder piece by piece, as a receiver that keeps what it cannot yet
  decode: the header found, the number of bytes it took, and all that follows it.\<close>

fun feed :: "(bytes \<Rightarrow> ('h \<times> nat) option) \<Rightarrow> bytes \<Rightarrow> bytes list \<Rightarrow> ('h \<times> nat \<times> bytes) option" where
  "feed dec buf [] = None"
| "feed dec buf (c # cs) =
     (case dec (buf @ c) of
        None \<Rightarrow> feed dec (buf @ c) cs
      | Some (h, n) \<Rightarrow> Some (h, n, drop n (buf @ c) @ concat cs))"

locale framing =
  fixes enc :: "'h \<Rightarrow> bytes"
    and dec :: "bytes \<Rightarrow> ('h \<times> nat) option"
    and wf :: "'h \<Rightarrow> bool"
  assumes dec_enc: "wf h \<Longrightarrow> dec (enc h @ body) = Some (h, length (enc h))"
    and dec_stable: "dec d = Some (h, n) \<Longrightarrow> dec (d @ t) = Some (h, n)"
    and dec_bound: "dec d = Some (h, n) \<Longrightarrow> n \<le> length d"
begin

lemma enc_inj: "wf h \<Longrightarrow> wf h' \<Longrightarrow> enc h @ b = enc h' @ b' \<Longrightarrow> h = h' \<and> b = b'"
  using dec_enc [of h b] dec_enc [of h' b'] by auto

lemma dec_prefix:
  assumes "wf h" and "buf @ rest = enc h @ body" and "dec buf = Some (h', n)"
  shows "h' = h \<and> n = length (enc h) \<and> length (enc h) \<le> length buf"
proof -
  from assms(3) have "dec (enc h @ body) = Some (h', n)"
    using dec_stable [of buf h' n rest] assms(2) by simp
  with dec_enc [OF assms(1), of body] dec_bound [OF assms(3)] show ?thesis by simp
qed

lemma dec_incomplete:
  "wf h \<Longrightarrow> buf @ rest = enc h @ body \<Longrightarrow> length buf < length (enc h) \<Longrightarrow> dec buf = None"
proof (cases "dec buf")
  case (Some p)
  assume a: "wf h" "buf @ rest = enc h @ body" "length buf < length (enc h)"
  obtain h' n where "p = (h', n)" by (cases p)
  with Some have "length (enc h) \<le> length buf" using dec_prefix [OF a(1,2)] by blast
  with a(3) show ?thesis by simp
qed simp

lemma dec_complete:
  assumes "wf h" and "buf @ rest = enc h @ body" and "length (enc h) \<le> length buf"
  shows "dec buf = Some (h, length (enc h))"
proof -
  have "buf = enc h @ drop (length (enc h)) buf"
  proof -
    have "take (length (enc h)) buf = take (length (enc h)) (buf @ rest)" using assms(3) by simp
    also have "\<dots> = enc h" by (simp add: assms(2))
    finally show ?thesis by (metis append_take_drop_id)
  qed
  then show ?thesis using dec_enc [OF assms(1), of "drop (length (enc h)) buf"] by simp
qed

lemma feed_any_chunking:
  "wf h \<Longrightarrow> buf @ concat cs = enc h @ body \<Longrightarrow> length buf < length (enc h) \<Longrightarrow>
   feed dec buf cs = Some (h, length (enc h), body)"
proof (induction cs arbitrary: buf)
  case Nil
  then have "length (enc h @ body) < length (enc h)" by (metis append_Nil2 concat.simps(1))
  then show ?case by simp
next
  case (Cons c cs)
  have eq: "(buf @ c) @ concat cs = enc h @ body" using Cons.prems(2) by simp
  show ?case
  proof (cases "length (enc h) \<le> length (buf @ c)")
    case True
    have d: "dec (buf @ c) = Some (h, length (enc h))"
      by (rule dec_complete [OF Cons.prems(1) eq True])
    have "drop (length (enc h)) (buf @ c) @ concat cs = drop (length (enc h)) ((buf @ c) @ concat cs)"
      using True by simp
    also have "\<dots> = body" unfolding eq by simp
    finally show ?thesis using d by simp
  next
    case False
    then have "dec (buf @ c) = None"
      by (intro dec_incomplete [OF Cons.prems(1) eq]) simp
    with Cons.IH [OF Cons.prems(1) eq] False show ?thesis by simp
  qed
qed

end

section \<open>Well-formed headers\<close>

definition wf_header :: "file_transfer_header \<Rightarrow> bool" where
  "wf_header h \<longleftrightarrow> safe_file_name (fth_name h) \<and> is_sha256_hex (fth_sha256_hex h)
     \<and> map to_lower (fth_sha256_hex h) = fth_sha256_hex h"

text \<open>What the encoder puts on the wire, as the receiver will see it.\<close>

definition normalise_header :: "file_transfer_header \<Rightarrow> file_transfer_header" where
  "normalise_header h = h\<lparr>fth_name := sanitize_file_name (fth_name h),
     fth_sha256_hex := map to_lower (fth_sha256_hex h)\<rparr>"

definition header_lines :: "file_transfer_header \<Rightarrow> bytes list" where
  "header_lines h = [k_magic, ''name='' @ sanitize_file_name (fth_name h),
     ''size='' @ nat_to_dec (unat (fth_size h)), ''hash='' @ map to_lower (fth_sha256_hex h)]"

lemma is_sha256_hex_lower [simp]: "is_sha256_hex (map to_lower s) \<longleftrightarrow> is_sha256_hex s"
  by (simp add: is_sha256_hex_def list_all_iff)

lemma hex_no_NL: "is_sha256_hex s \<Longrightarrow> NL \<notin> set (map to_lower s)"
proof
  assume s: "is_sha256_hex s" and "NL \<in> set (map to_lower s)"
  then obtain x where "x \<in> set s" "to_lower x = NL" by auto
  with s have "is_xdigit x" by (simp add: is_sha256_hex_def list_all_iff)
  then have "is_xdigit (to_lower x)" by simp
  then show False unfolding \<open>to_lower x = NL\<close> by simp
qed

lemma dec_no_NL: "NL \<notin> set (nat_to_dec n)"
  using nat_to_dec_digits [of n] by (metis is_digit_NL)

lemma header_lines_clean:
  "is_sha256_hex (fth_sha256_hex h) \<Longrightarrow> \<forall>l \<in> set (header_lines h). l \<noteq> [] \<and> NL \<notin> set l"
  using sanitize_no_NL [of "fth_name h"] hex_no_NL [of "fth_sha256_hex h"]
    dec_no_NL [of "unat (fth_size h)"]
  by (auto simp: header_lines_def k_magic_def)

lemma encode_lines: "encode_file_header h = join_lines (header_lines h) @ [NL, NL]"
  by (simp add: encode_file_header_def header_lines_def Let_def)

lemma parse_size_text [simp]: "parse_full_u64 (nat_to_dec (unat n)) out = (True, n)"
  by (simp add: parse_full_u64_def from_chars_u64_to_dec)

lemma find_eq_key:
  "str_find ''='' (''name='' @ v) = Some 4" "str_find ''='' (''size='' @ v) = Some 4"
  "str_find ''='' (''hash='' @ v) = Some 4"
  by simp_all

lemma sanitize_nonempty [simp]: "sanitize_file_name raw \<noteq> []"
  using safe_sanitize [of raw] by (simp add: safe_file_name_def)

lemma sanitize_idem [simp]: "sanitize_file_name (sanitize_file_name raw) = sanitize_file_name raw"
  by (rule sanitize_safe_id [OF safe_sanitize])

lemma header_of_header_lines:
  "is_sha256_hex (fth_sha256_hex h) \<Longrightarrow>
   header_of_lines (header_lines h) = (True, normalise_header h)"
  by (simp add: header_of_lines_def header_lines_def parse_init_def decode_line_def
      decode_field_def find_eq_key [simplified] substr_def k_magic_def empty_header_def
      normalise_header_def Let_def)

lemma decode_encode:
  assumes "is_sha256_hex (fth_sha256_hex h)"
  shows "decode_file_header (encode_file_header h @ body) h0 n0 =
           (True, normalise_header h, length (encode_file_header h))"
proof -
  note clean = header_lines_clean [OF assms]
  have ne: "header_lines h \<noteq> []" by (simp add: header_lines_def)
  have e: "encode_file_header h @ body = join_lines (header_lines h) @ NL # NL # body"
    by (simp add: encode_lines)
  have f: "str_find [NL, NL] (encode_file_header h @ body) = Some (length (join_lines (header_lines h)))"
    unfolding e by (rule find_blank_lines [OF ne clean])
  have l: "lines_of (take (length (join_lines (header_lines h))) (encode_file_header h @ body))
      = header_lines h"
    unfolding e using clean by (simp add: lines_of_join [OF ne])
  show ?thesis
    unfolding decode_by_lines f using l by (simp add: header_of_header_lines [OF assms])
       (simp add: encode_lines)
qed

section \<open>What a decode guarantees\<close>

definition header_progress :: "parse_state \<Rightarrow> bool" where
  "header_progress st \<longleftrightarrow>
     (ps_has_name st \<longrightarrow> safe_file_name (fth_name (ps_header st)))
     \<and> (ps_has_hash st \<longrightarrow> is_sha256_hex (fth_sha256_hex (ps_header st))
          \<and> map to_lower (fth_sha256_hex (ps_header st)) = fth_sha256_hex (ps_header st))"

lemma decode_line_progress:
  "header_progress st \<Longrightarrow> decode_line l st = (ok, st') \<Longrightarrow> header_progress st'"
  by (auto simp: decode_line_def decode_field_def header_progress_def Let_def safe_sanitize
      split: if_splits option.splits prod.splits)

lemma run_lines_progress:
  "header_progress st \<Longrightarrow> run_lines ls st = (ok, st') \<Longrightarrow> header_progress st'"
  by (induction ls arbitrary: st)
     (auto dest: decode_line_progress split: prod.splits if_splits)

lemma decode_wf:
  assumes "decode_file_header data h0 n0 = (True, h, n)"
  shows "wf_header h \<and> str_find [NL, NL] data = Some (n - 2) \<and> 2 \<le> n \<and> n \<le> length data"
proof -
  from assms obtain e st where e: "str_find [NL, NL] data = Some e"
    and st: "run_lines (lines_of (take e data)) parse_init = (True, st)"
    and h: "ps_has_name st" "ps_has_hash st" "h = ps_header st" "n = e + 2"
    by (auto simp: decode_by_lines header_of_lines_def split: option.splits prod.splits if_splits)
  have "header_progress st"
    by (rule run_lines_progress [OF _ st]) (simp add: header_progress_def parse_init_def)
  with h e str_find_Some [OF e] show ?thesis
    by (simp add: wf_header_def header_progress_def)
qed

lemma decode_append:
  assumes "str_find [NL, NL] data = Some e"
  shows "decode_file_header (data @ t) h n = decode_file_header data h n"
  using assms str_find_Some [OF assms] str_find_append [OF assms, of t]
  by (simp add: decode_by_lines split: prod.splits)

lemma normalise_wf: "wf_header h \<Longrightarrow> normalise_header h = h"
  by (simp add: normalise_header_def wf_header_def sanitize_safe_id)

lemma wf_normalise: "is_sha256_hex (fth_sha256_hex h) \<Longrightarrow> wf_header (normalise_header h)"
  by (simp add: normalise_header_def wf_header_def safe_sanitize)

section \<open>The interpretation\<close>

definition decode_opt :: "bytes \<Rightarrow> (file_transfer_header \<times> nat) option" where
  "decode_opt data =
     (case decode_file_header data empty_header 0 of (ok, h, n) \<Rightarrow> if ok then Some (h, n) else None)"

lemma decode_out_args:
  "decode_file_header data h0 n0 = (True, h, n) \<longleftrightarrow> decode_opt data = Some (h, n)"
  by (auto simp: decode_opt_def decode_by_lines split: option.splits prod.splits if_splits)

lemma decode_fails_iff: "(\<not> fst (decode_file_header data h0 n0)) \<longleftrightarrow> decode_opt data = None"
  by (auto simp: decode_opt_def decode_by_lines split: option.splits prod.splits if_splits)

interpretation wire: framing encode_file_header decode_opt wf_header
proof
  show "decode_opt (encode_file_header h @ body) = Some (h, length (encode_file_header h))"
    if "wf_header h" for h body
    using that decode_encode [of h body empty_header 0] normalise_wf [OF that]
    unfolding decode_out_args [of _ empty_header 0, symmetric] by (simp add: wf_header_def)
  show "decode_opt (d @ t) = Some (h, n)" if "decode_opt d = Some (h, n)" for d h n t
    using that decode_append [of d "n - 2" t] decode_wf [of d]
    unfolding decode_out_args [of _ empty_header 0, symmetric] by fastforce
  show "n \<le> length d" if "decode_opt d = Some (h, n)" for d h n
    using that decode_wf unfolding decode_out_args [of _ empty_header 0, symmetric] by blast
qed

end
