(* ===== verification/Protocol_Properties.thy ===== *)
theory Protocol_Properties
  imports Header_Framing
begin

text \<open>
  The properties of the wire format that the rest of the program, and a reader of the
  protocol, rely on. The first part characterises the decoder by a specification over the
  lines of the header block; the second states the properties.
\<close>

section \<open>The decoder's specification\<close>

definition field_key :: "bytes \<Rightarrow> bytes" where
  "field_key l = takeWhile (\<lambda>c. c \<noteq> CHR ''='') l"

definition field_val :: "bytes \<Rightarrow> bytes" where
  "field_val l = tl (dropWhile (\<lambda>c. c \<noteq> CHR ''='') l)"

definition size_text :: "bytes \<Rightarrow> bool" where
  "size_text t \<longleftrightarrow> t \<noteq> [] \<and> list_all is_digit t \<and> dec_value t < 18446744073709551616"

definition line_ok :: "bytes \<Rightarrow> bool" where
  "line_ok l \<longleftrightarrow> l = [] \<or> (CHR ''='' \<in> set l
     \<and> (field_key l = ''size'' \<longrightarrow> size_text (field_val l))
     \<and> (field_key l = ''hash'' \<longrightarrow> is_sha256_hex (field_val l)))"

text \<open>The value of the last line with a given key.\<close>

fun last_field :: "bytes \<Rightarrow> bytes list \<Rightarrow> bytes option" where
  "last_field k [] = None"
| "last_field k (l # ls) =
     (case last_field k ls of
        Some v \<Rightarrow> Some v
      | None \<Rightarrow> if CHR ''='' \<in> set l \<and> field_key l = k then Some (field_val l) else None)"

text \<open>A header block: the magic line, then fields, each acceptable, the three keys present.\<close>

definition header_spec :: "bytes list \<Rightarrow> file_transfer_header option" where
  "header_spec ls =
     (case ls of
        [] \<Rightarrow> None
      | m # fl \<Rightarrow>
          if m = k_magic \<and> list_all line_ok fl then
            (case (last_field ''name'' fl, last_field ''size'' fl, last_field ''hash'' fl) of
               (Some n, Some s, Some x) \<Rightarrow>
                 Some \<lparr>fth_name = sanitize_file_name n, fth_size = of_nat (dec_value s),
                       fth_sha256_hex = map to_lower x\<rparr>
             | _ \<Rightarrow> None)
          else None)"

lemma parse_full_u64_ok: "size_text t \<Longrightarrow> parse_full_u64 t out = (True, of_nat (dec_value t))"
  by (simp add: size_text_def parse_full_u64_def from_chars_u64_def take_while_all list_all_iff Let_def)

lemma parse_full_u64_fail: "\<not> size_text t \<Longrightarrow> \<not> fst (parse_full_u64 t out)"
proof -
  assume bad: "\<not> size_text t"
  show ?thesis
  proof (cases "list_all is_digit t")
    case True
    with bad show ?thesis
      by (auto simp: size_text_def parse_full_u64_def from_chars_u64_def take_while_all list_all_iff Let_def)
  next
    case False
    then have "takeWhile is_digit t \<noteq> t" by (simp add: list_all_iff takeWhile_eq_all_conv)
    then have "length (takeWhile is_digit t) \<noteq> length t"
      by (metis takeWhile_eq_take take_all order_refl)
    then show ?thesis by (simp add: parse_full_u64_def from_chars_u64_def Let_def)
  qed
qed

lemma decode_line_field:
  assumes "\<not> ps_first_line st" and "CHR ''='' \<in> set l"
  shows "decode_line l st = decode_field (field_key l) (field_val l) st"
proof -
  have "l \<noteq> []" using assms(2) by auto
  with assms show ?thesis
    by (simp add: decode_line_def str_find_char substr_def field_key_def field_val_def
        takeWhile_eq_take [symmetric] dropWhile_eq_drop tl_drop drop_Suc)
qed

definition fields_state :: "bytes list \<Rightarrow> parse_state \<Rightarrow> parse_state" where
  "fields_state ls st = st\<lparr>
     ps_header := \<lparr>
       fth_name = (case last_field ''name'' ls of None \<Rightarrow> fth_name (ps_header st)
                                             | Some v \<Rightarrow> sanitize_file_name v),
       fth_size = (case last_field ''size'' ls of None \<Rightarrow> fth_size (ps_header st)
                                             | Some v \<Rightarrow> of_nat (dec_value v)),
       fth_sha256_hex = (case last_field ''hash'' ls of None \<Rightarrow> fth_sha256_hex (ps_header st)
                                             | Some v \<Rightarrow> map to_lower v)\<rparr>,
     ps_has_name := (ps_has_name st \<or> last_field ''name'' ls \<noteq> None),
     ps_has_size := (ps_has_size st \<or> last_field ''size'' ls \<noteq> None),
     ps_has_hash := (ps_has_hash st \<or> last_field ''hash'' ls \<noteq> None)\<rparr>"

lemma decode_line_ok:
  assumes "\<not> ps_first_line st" and "line_ok l"
  shows "decode_line l st = (True, fields_state [l] st)"
proof (cases "CHR ''='' \<in> set l")
  case True
  with assms show ?thesis
    by (auto simp: decode_line_field decode_field_def fields_state_def line_ok_def
        parse_full_u64_ok Let_def)
next
  case False
  with assms show ?thesis by (auto simp: line_ok_def decode_line_def fields_state_def)
qed

lemma decode_line_bad:
  assumes "\<not> ps_first_line st" and "\<not> line_ok l"
  shows "\<not> fst (decode_line l st)"
proof (cases "CHR ''='' \<in> set l")
  case True
  have "\<not> ok" if "parse_full_u64 (field_val l) out = (ok, n)" "\<not> size_text (field_val l)"
    for ok n out
    using parse_full_u64_fail [OF that(2), of out] that(1) by simp
  with assms True show ?thesis
    by (auto simp: decode_line_field decode_field_def line_ok_def Let_def split: prod.splits)
next
  case False
  with assms show ?thesis by (auto simp: line_ok_def decode_line_def str_find_char)
qed

lemma fields_state_Cons: "fields_state ls (fields_state [l] st) = fields_state (l # ls) st"
  by (auto simp: fields_state_def split: option.splits)

lemma fields_state_first [simp]: "ps_first_line (fields_state ls st) = ps_first_line st"
  by (simp add: fields_state_def)

lemma run_fields:
  "\<not> ps_first_line st \<Longrightarrow> list_all line_ok ls \<Longrightarrow> run_lines ls st = (True, fields_state ls st)"
proof (induction ls arbitrary: st)
  case Nil
  then show ?case by (simp add: fields_state_def)
next
  case (Cons l ls)
  then show ?case by (simp add: decode_line_ok fields_state_Cons)
qed

lemma run_fields_bad:
  "\<not> ps_first_line st \<Longrightarrow> \<not> list_all line_ok ls \<Longrightarrow> \<not> fst (run_lines ls st)"
proof (induction ls arbitrary: st)
  case Nil
  then show ?case by simp
next
  case (Cons l ls)
  show ?case
  proof (cases "line_ok l")
    case True
    with Cons show ?thesis by (simp add: decode_line_ok)
  next
    case False
    with decode_line_bad [OF Cons.prems(1) False] show ?thesis by (auto split: prod.splits)
  qed
qed

lemma header_of_lines_spec:
  assumes "ls \<noteq> []"
  shows "header_of_lines ls = (True, h) \<longleftrightarrow> header_spec ls = Some h"
proof -
  obtain m fs where ls: "ls = m # fs" using assms by (cases ls) auto
  let ?st = "parse_init\<lparr>ps_first_line := False\<rparr>"
  show ?thesis
  proof (cases "m = k_magic \<and> list_all line_ok fs")
    case True
    then have "run_lines ls parse_init = (True, fields_state fs ?st)"
      using run_fields [of ?st fs] by (simp add: ls decode_line_def parse_init_def)
    with True show ?thesis
      by (auto simp: header_of_lines_def header_spec_def ls fields_state_def parse_init_def
          split: option.splits)
  next
    case False
    then have "\<not> fst (run_lines ls parse_init)"
      using run_fields_bad [of ?st fs] by (auto simp: ls decode_line_def parse_init_def)
    with False show ?thesis
      by (auto simp: header_of_lines_def header_spec_def ls split: prod.splits)
  qed
qed

section \<open>Properties\<close>

text \<open>
  C13: Round trip of the wire header. Whatever header the sender encodes (any name, any
  64-bit size, a 64-digit hexadecimal hash in either case) and whatever body bytes follow
  it, the receiver decodes the header with the sanitised name, the same size and the hash
  in lower case, and takes exactly the bytes of the header.
\<close>

theorem header_round_trip:
  assumes "is_sha256_hex (fth_sha256_hex h)"
  shows "decode_file_header (encode_file_header h @ body) h0 n0 =
           (True,
            \<lparr>fth_name = sanitize_file_name (fth_name h), fth_size = fth_size h,
             fth_sha256_hex = map to_lower (fth_sha256_hex h)\<rparr>,
            length (encode_file_header h))"
  using decode_encode [OF assms] by (simp add: normalise_header_def)

definition demo_header :: file_transfer_header where
  "demo_header = \<lparr>fth_name = ''../a.txt'', fth_size = 3, fth_sha256_hex = replicate 64 CHR ''A''\<rparr>"

lemma demo_hash: "is_sha256_hex (fth_sha256_hex demo_header)"
  by (simp add: demo_header_def is_sha256_hex_def is_xdigit_def is_digit_def list_all_iff)

theorem header_round_trip_witness:
  "is_sha256_hex (fth_sha256_hex demo_header) \<and>
   decode_file_header (encode_file_header demo_header @ ''xyz'') empty_header 0 =
     (True, \<lparr>fth_name = ''a.txt'', fth_size = 3, fth_sha256_hex = replicate 64 CHR ''a''\<rparr>,
      length (encode_file_header demo_header))"
proof -
  have n: "sanitize_file_name ''../a.txt'' = ''a.txt''" by code_simp
  have l: "to_lower CHR ''A'' = CHR ''a''" by code_simp
  show ?thesis
    using header_round_trip [OF demo_hash, of "''xyz''" empty_header 0] demo_hash
    by (simp add: demo_header_def n l)
qed

text \<open>
  C14: The decoder meets its specification exactly. Decoding succeeds with header
  \<open>h'\<close> and count \<open>m\<close> precisely when the input has a blank line, the first line is the
  magic, every other line is a key and a value with an admissible size or hash, and the
  three keys occur; then \<open>h'\<close> has the values of the last line of each key (the name
  sanitised, the hash in lower case) and \<open>m\<close> ends just behind the blank line.
\<close>

theorem decode_meets_spec:
  "decode_file_header data h n = (True, h', m) \<longleftrightarrow>
     (\<exists>e. str_find [NL, NL] data = Some e \<and> header_spec (lines_of (take e data)) = Some h'
          \<and> m = e + 2)"
proof (cases "str_find [NL, NL] data")
  case None
  then show ?thesis by (simp add: decode_by_lines)
next
  case (Some e)
  obtain ok h1 where r: "header_of_lines (lines_of (take e data)) = (ok, h1)"
    by (cases "header_of_lines (lines_of (take e data))")
  then show ?thesis
    using Some header_of_lines_spec [OF lines_of_nonempty, of "take e data"]
    by (auto simp: decode_by_lines)
qed

text \<open>
  C15: An accepted header is well formed whatever the peer sent: its name is a plain file
  name, its hash is 64 lower-case hexadecimal digits, and the header is the text up to the
  first blank line, which lies within the bytes received.
\<close>

theorem decoded_header_wf:
  assumes "decode_file_header data h0 n0 = (True, h, n)"
  shows "safe_file_name (fth_name h) \<and> is_sha256_hex (fth_sha256_hex h)
    \<and> map to_lower (fth_sha256_hex h) = fth_sha256_hex h
    \<and> str_find [NL, NL] data = Some (n - 2) \<and> 2 \<le> n \<and> n \<le> length data"
  using decode_wf [OF assms] by (simp add: wf_header_def)

theorem decoded_header_wf_witness:
  "decode_file_header (encode_file_header demo_header) empty_header 0
     = (True, normalise_header demo_header, length (encode_file_header demo_header))
   \<and> safe_file_name (fth_name (normalise_header demo_header))"
proof -
  have d: "decode_file_header (encode_file_header demo_header) empty_header 0
     = (True, normalise_header demo_header, length (encode_file_header demo_header))"
    using decode_encode [OF demo_hash, of "[]"] by simp
  show ?thesis using d decoded_header_wf [OF d] by blast
qed

text \<open>
  The result of sanitising any name is a plain file name: not empty, not a dot name,
  without separators, backslashes or control characters, without blanks at its ends; and
  sanitising it again changes nothing, so the sender's and the receiver's pass agree.
\<close>

theorem sanitize_file_name_safe:
  "safe_file_name (sanitize_file_name raw)
   \<and> sanitize_file_name (sanitize_file_name raw) = sanitize_file_name raw"
  by (simp add: safe_sanitize)

text \<open>
  How the network splits the stream does not matter for the header: a receiver that
  decodes its buffer after each piece finds the sender's header, with all of the body and
  nothing else behind it, for every way to cut the encoded header and the body into pieces.
\<close>

theorem header_found_in_any_chunking:
  assumes "wf_header h" and "concat chunks = encode_file_header h @ body"
  shows "feed decode_opt [] chunks = Some (h, length (encode_file_header h), body)"
proof (rule wire.feed_any_chunking [OF assms(1)])
  show "[] @ concat chunks = encode_file_header h @ body" using assms(2) by simp
  show "length ([] :: bytes) < length (encode_file_header h)"
    by (simp add: encode_file_header_def Let_def k_magic_def)
qed

theorem header_found_in_any_chunking_witness:
  "feed decode_opt [] [take 7 (encode_file_header (normalise_header demo_header)),
      drop 7 (encode_file_header (normalise_header demo_header)) @ ''x'', ''yz'']
   = Some (normalise_header demo_header,
       length (encode_file_header (normalise_header demo_header)), ''xyz'')"
  by (rule header_found_in_any_chunking [OF wf_normalise [OF demo_hash]]) simp

text \<open>
  Re-encoding an accepted header is stable: the header the receiver decoded, encoded
  again in front of any bytes, decodes to itself.
\<close>

theorem decoded_header_reencodes:
  assumes "decode_file_header data h0 n0 = (True, h, n)"
  shows "decode_file_header (encode_file_header h @ body) h1 n1
           = (True, h, length (encode_file_header h))"
proof -
  have wf: "wf_header h" using decode_wf [OF assms] by simp
  then have "is_sha256_hex (fth_sha256_hex h)" by (simp add: wf_header_def)
  from decode_encode [OF this] show ?thesis by (simp add: normalise_wf [OF wf])
qed

theorem decoded_header_reencodes_witness:
  "decode_file_header (encode_file_header demo_header) empty_header 0
     = (True, normalise_header demo_header, length (encode_file_header demo_header))
   \<and> decode_file_header (encode_file_header (normalise_header demo_header) @ ''b'') empty_header 0
     = (True, normalise_header demo_header,
        length (encode_file_header (normalise_header demo_header)))"
proof -
  have d: "decode_file_header (encode_file_header demo_header) empty_header 0
     = (True, normalise_header demo_header, length (encode_file_header demo_header))"
    using decode_encode [OF demo_hash, of "[]"] by simp
  show ?thesis using d decoded_header_reencodes [OF d] by blast
qed

text \<open>
  The size field is read strictly: it is accepted exactly when it is a non-empty text
  of decimal digits whose value fits 64 bits, and then it is that value.
\<close>

theorem parse_full_u64_strict:
  "parse_full_u64 text out = (True, v) \<longleftrightarrow>
     text \<noteq> [] \<and> list_all is_digit text \<and> dec_value text < 2 ^ 64 \<and> unat v = dec_value text"
proof (cases "size_text text")
  case True
  then have b: "dec_value text < 18446744073709551616" by (simp add: size_text_def)
  have "v = of_nat (dec_value text) \<longleftrightarrow> unat v = dec_value text"
    using unat_of_nat_u64 [OF b] by (metis word_unat_eq_iff)
  with True show ?thesis by (auto simp: parse_full_u64_ok size_text_def)
next
  case False
  with parse_full_u64_fail [OF False, of out] show ?thesis by (auto simp: size_text_def)
qed

end
