(* ===== verification/File_Store.thy ===== *)
theory File_Store
  imports LFT_Prelude
begin

text \<open>
  Files as the program sees them through \<open>std::ifstream\<close> and \<open>std::ofstream\<close>: a map
  from paths to contents. Opening for output truncates, writing appends at the end; whether
  an open or a write succeeds is decided by the environment. Output is visible in the map
  as soon as it is written (the program reads a file back only after closing it). The
  locale \<open>output_store\<close> is the interface a writer relies on; its lemma says that a file
  written piece by piece holds the pieces in order.
\<close>

section \<open>The interface\<close>

locale output_store =
  fixes truncate :: "path \<Rightarrow> 'fs \<Rightarrow> 'fs"
    and extend :: "path \<Rightarrow> bytes \<Rightarrow> 'fs \<Rightarrow> 'fs"
    and contents :: "'fs \<Rightarrow> path \<Rightarrow> bytes option"
  assumes contents_truncate: "contents (truncate p fs) p = Some []"
    and contents_extend: "contents fs p = Some b \<Longrightarrow> contents (extend p d fs) p = Some (b @ d)"
    and truncate_other: "q \<noteq> p \<Longrightarrow> contents (truncate p fs) q = contents fs q"
    and extend_other: "q \<noteq> p \<Longrightarrow> contents (extend p d fs) q = contents fs q"
begin

lemma contents_pieces:
  "contents fs p = Some b \<Longrightarrow> contents (fold (extend p) ds fs) p = Some (b @ concat ds)"
  by (induction ds arbitrary: fs b) (simp_all add: contents_extend)

lemma contents_fresh_pieces:
  "contents (fold (extend p) ds (truncate p fs)) p = Some (concat ds)"
  using contents_pieces [OF contents_truncate] by simp

lemma pieces_other:
  "q \<noteq> p \<Longrightarrow> contents (fold (extend p) ds (truncate p fs)) q = contents fs q"
proof -
  assume q: "q \<noteq> p"
  have "contents (fold (extend p) ds fs') q = contents fs' q" for fs'
    by (induction ds arbitrary: fs') (simp_all add: extend_other [OF q])
  then show ?thesis by (simp add: truncate_other [OF q])
qed

end

section \<open>Files as a map\<close>

type_synonym files = "path \<rightharpoonup> bytes"

definition file_truncate :: "path \<Rightarrow> files \<Rightarrow> files" where
  "file_truncate p fs = fs(p \<mapsto> [])"

definition file_extend :: "path \<Rightarrow> bytes \<Rightarrow> files \<Rightarrow> files" where
  "file_extend p d fs = fs(p \<mapsto> (case fs p of None \<Rightarrow> d | Some b \<Rightarrow> b @ d))"

definition file_contents :: "files \<Rightarrow> path \<Rightarrow> bytes option" where
  "file_contents fs p = fs p"

interpretation store: output_store file_truncate file_extend file_contents
  by unfold_locales (auto simp: file_truncate_def file_extend_def file_contents_def)

lemmas file_store_simps =
  store.contents_truncate store.contents_extend store.truncate_other store.extend_other

text \<open>An output stream: the file it was opened on and whether it is open.\<close>

record ofstream =
  os_path :: path
  os_is_open :: bool

definition os_close :: "ofstream \<Rightarrow> ofstream" where
  "os_close os = os\<lparr>os_is_open := False\<rparr>"

end
