(* ===== verification/Sha256.thy ===== *)
theory Sha256
  imports Protocol_Facts File_Store
begin

text \<open>
  \<open>src/transfer/sha256.cpp\<close>: the hexadecimal digest of bytes in memory and of a file
  read in pieces of 64 KiB. OpenSSL's EVP functions are a parameter (\<open>evp_api\<close>): each
  may fail, and the digest itself is not modelled. \<open>evp_streaming\<close> is the documented
  behaviour of \<open>EVP_DigestUpdate\<close>: it can be called several times to hash additional
  data. The integer argument counts the digest contexts that are allocated and not freed.
\<close>

section \<open>OpenSSL as a parameter\<close>

record 'c evp_api =
  evp_ctx_new :: "'c option"
  evp_init :: "'c \<Rightarrow> 'c option"
  evp_update :: "'c \<Rightarrow> bytes \<Rightarrow> 'c option"
  evp_final :: "'c \<Rightarrow> bytes option"
  evp_md_size :: nat

definition evp_streaming :: "'c evp_api \<Rightarrow> bool" where
  "evp_streaming E \<longleftrightarrow> (\<forall>c. evp_update E c [] = Some c)
     \<and> (\<forall>c a b. Option.bind (evp_update E c a) (\<lambda>c'. evp_update E c' b) = evp_update E c (a @ b))"

section \<open>Hexadecimal output\<close>

definition hex_digit :: "nat \<Rightarrow> char" where
  "hex_digit d = (if d < 10 then char_of (48 + d) else char_of (87 + d))"

definition byte_hex :: "char \<Rightarrow> bytes" where
  "byte_hex c = [hex_digit (of_char c div 16), hex_digit (of_char c mod 16)]"

definition digest_to_hex :: "nat \<Rightarrow> bytes \<Rightarrow> bytes" where
  "digest_to_hex n digest = concat (map (\<lambda>i. byte_hex (digest ! i)) [0..<n])"

section \<open>Hashing\<close>

definition sha256_bytes :: "'c evp_api \<Rightarrow> bytes \<Rightarrow> bytes \<Rightarrow> int \<Rightarrow> bool \<times> bytes \<times> int" where
  "sha256_bytes E data out_hex live =
     (case evp_ctx_new E of
        None \<Rightarrow> (False, out_hex, live)
      | Some ctx \<Rightarrow>
          let live' = live + 1;
              digest = Option.bind (evp_init E ctx) (\<lambda>c.
                       Option.bind (evp_update E c data) (\<lambda>c'. evp_final E c'));
              live'' = live' - 1
          in case digest of
               None \<Rightarrow> (False, out_hex, live'')
             | Some d \<Rightarrow> (True, digest_to_hex (evp_md_size E) d, live''))"

definition read_buffer_size :: nat where
  "read_buffer_size = 64 * 1024"

text \<open>The read loop: a short read ends the stream, an empty read updates nothing.\<close>

function read_loop :: "'c evp_api \<Rightarrow> 'c \<Rightarrow> bytes \<Rightarrow> 'c option" where
  "read_loop E ctx rest =
     (let chunk = take read_buffer_size rest; n = length chunk
      in case (if n > 0 then evp_update E ctx chunk else Some ctx) of
           None \<Rightarrow> None
         | Some ctx' \<Rightarrow>
             if n < read_buffer_size then Some ctx'
             else read_loop E ctx' (drop read_buffer_size rest))"
  by pat_completeness auto
termination
  by (relation "measure (\<lambda>(E, ctx, rest). length rest)") (auto simp: read_buffer_size_def)

declare read_loop.simps [simp del]

definition sha256_file ::
  "'c evp_api \<Rightarrow> files \<Rightarrow> path \<Rightarrow> bytes \<Rightarrow> int \<Rightarrow> bool \<times> bytes \<times> int" where
  "sha256_file E fs p out_hex live =
     (case file_contents fs p of
        None \<Rightarrow> (False, out_hex, live)
      | Some content \<Rightarrow>
          (case evp_ctx_new E of
             None \<Rightarrow> (False, out_hex, live)
           | Some ctx \<Rightarrow>
               let live' = live + 1
               in case evp_init E ctx of
                    None \<Rightarrow> (False, out_hex, live' - 1)
                  | Some c \<Rightarrow>
                      (case read_loop E c content of
                         None \<Rightarrow> (False, out_hex, live' - 1)
                       | Some c' \<Rightarrow>
                           let digest = evp_final E c'; live'' = live' - 1
                           in case digest of
                                None \<Rightarrow> (False, out_hex, live'')
                              | Some d \<Rightarrow> (True, digest_to_hex (evp_md_size E) d, live''))))"

section \<open>Lemmas\<close>

lemma of_char_hex_digit:
  "d < 16 \<Longrightarrow> (of_char (hex_digit d) :: nat) = (if d < 10 then 48 + d else 87 + d)"
  by (simp add: hex_digit_def)

lemma hex_digit_xdigit: "d < 16 \<Longrightarrow> is_xdigit (hex_digit d)"
  by (simp add: is_xdigit_def is_digit_def of_char_hex_digit)

lemma hex_digit_lower: "d < 16 \<Longrightarrow> to_lower (hex_digit d) = hex_digit d"
  by (simp add: to_lower_def of_char_hex_digit)

lemma hex_digit_inj: "d < 16 \<Longrightarrow> e < 16 \<Longrightarrow> hex_digit d = hex_digit e \<longleftrightarrow> d = e"
  by (simp add: of_char_inject_nat [symmetric] of_char_hex_digit)

lemma nibble_bounds [simp]: "(of_char c :: nat) div 16 < 16" "(of_char c :: nat) mod 16 < 16"
  using of_char_bound [of c] by (simp_all add: less_mult_imp_div_less)

lemma byte_hex_inj: "byte_hex c = byte_hex d \<longleftrightarrow> c = d"
proof
  assume "byte_hex c = byte_hex d"
  then have "(of_char c :: nat) div 16 = of_char d div 16" "(of_char c :: nat) mod 16 = of_char d mod 16"
    by (simp_all add: byte_hex_def hex_digit_inj)
  then have "(of_char c :: nat) = of_char d" by (metis div_mult_mod_eq)
  then show "c = d" by (simp add: of_char_inject_nat)
qed simp

lemma digest_to_hex_map: "length d = n \<Longrightarrow> digest_to_hex n d = concat (map byte_hex d)"
proof -
  assume "length d = n"
  then have "map (\<lambda>i. byte_hex (d ! i)) [0..<n] = map byte_hex d"
    by (intro nth_equalityI) auto
  then show ?thesis by (simp add: digest_to_hex_def)
qed

lemma concat_byte_hex_inj:
  "concat (map byte_hex d) = concat (map byte_hex e) \<Longrightarrow> d = e"
proof (induction d arbitrary: e)
  case Nil
  then show ?case by (cases e) (auto simp: byte_hex_def)
next
  case (Cons a d)
  then obtain b e' where e: "e = b # e'" by (cases e) (auto simp: byte_hex_def)
  have "byte_hex a @ concat (map byte_hex d) = byte_hex b @ concat (map byte_hex e')"
    using Cons.prems by (simp add: e)
  moreover have "length (byte_hex a) = length (byte_hex b)" by (simp add: byte_hex_def)
  ultimately have "byte_hex a = byte_hex b \<and> concat (map byte_hex d) = concat (map byte_hex e')"
    by (metis append_eq_append_conv)
  with Cons.IH show ?case by (auto simp: e byte_hex_inj)
qed

lemma read_loop_update:
  "evp_streaming E \<Longrightarrow> read_loop E c rest = evp_update E c rest"
proof (induction E c rest rule: read_loop.induct)
  case (1 E c rest)
  let ?a = "take read_buffer_size rest" and ?b = "drop read_buffer_size rest"
  have nil: "evp_update E c [] = Some c" for c
    using "1.prems" by (simp add: evp_streaming_def)
  have split: "evp_update E c rest = Option.bind (evp_update E c ?a) (\<lambda>c'. evp_update E c' ?b)"
    using "1.prems" unfolding evp_streaming_def by (metis append_take_drop_id)
  show ?case
  proof (cases "length ?a < read_buffer_size")
    case True
    then have "length rest < read_buffer_size" by simp
    with nil show ?thesis
      by (subst read_loop.simps) (auto simp: Let_def split: option.splits)
  next
    case False
    then have n: "length ?a = read_buffer_size" "rest \<noteq> []" "0 < read_buffer_size"
      by (auto simp: read_buffer_size_def)
    show ?thesis
    proof (cases "evp_update E c ?a")
      case None
      with n split show ?thesis by (subst read_loop.simps) (simp add: Let_def)
    next
      case (Some c')
      have "read_loop E c' ?b = evp_update E c' ?b"
        using n Some "1.prems" by (intro "1.IH") auto
      with n Some split show ?thesis by (subst read_loop.simps) (simp add: Let_def)
    qed
  qed
qed

lemma sha256_file_bytes:
  assumes "evp_streaming E" and "file_contents fs p = Some content"
  shows "sha256_file E fs p out live = sha256_bytes E content out live"
  using assms
  by (simp add: sha256_file_def sha256_bytes_def read_loop_update Let_def split: option.splits)

lemma digest_hex_form:
  assumes "length d = 32"
  shows "is_sha256_hex (digest_to_hex 32 d)" and "map to_lower (digest_to_hex 32 d) = digest_to_hex 32 d"
proof -
  have len: "length (concat (map byte_hex xs)) = 2 * length xs" for xs
    by (induction xs) (simp_all add: byte_hex_def)
  have "list_all is_xdigit (concat (map byte_hex d))"
    by (auto simp: list_all_iff byte_hex_def hex_digit_xdigit)
  then show "is_sha256_hex (digest_to_hex 32 d)"
    using assms by (simp add: digest_to_hex_map is_sha256_hex_def len)
  have "map to_lower (concat (map byte_hex d)) = concat (map byte_hex d)"
    by (intro map_id_on) (auto simp: byte_hex_def hex_digit_lower)
  then show "map to_lower (digest_to_hex 32 d) = digest_to_hex 32 d"
    using assms by (simp add: digest_to_hex_map)
qed

text \<open>The documented size of a SHA-256 digest.\<close>

definition evp_sized :: "'c evp_api \<Rightarrow> bool" where
  "evp_sized E \<longleftrightarrow> evp_md_size E = 32 \<and> (\<forall>c d. evp_final E c = Some d \<longrightarrow> length d = 32)"

lemma sha256_bytes_form:
  assumes "evp_sized E" and "sha256_bytes E data out live = (True, hex, live')"
  shows "is_sha256_hex hex" and "map to_lower hex = hex"
  using assms digest_hex_form
  by (auto simp: sha256_bytes_def evp_sized_def Let_def split: option.splits bind_splits)

section \<open>Properties\<close>

text \<open>
  C32: Hashing a file in pieces of 64 KiB gives what hashing its contents at once gives,
  for files of every length (whole multiples of the buffer and the empty file included),
  failures of OpenSSL included.
\<close>

theorem sha256_file_is_sha256_bytes:
  assumes "evp_streaming E" and "fs p = Some content"
  shows "sha256_file E fs p out live = sha256_bytes E content out live"
  by (rule sha256_file_bytes) (simp_all add: assms file_contents_def)

text \<open>A toy digest with the documented behaviour: the context keeps all bytes, the digest
  is the byte sum, 32 times.\<close>

definition toy_evp :: "bytes evp_api" where
  "toy_evp = \<lparr>evp_ctx_new = Some [], evp_init = (\<lambda>_. Some []),
     evp_update = (\<lambda>c d. Some (c @ d)),
     evp_final = (\<lambda>c. Some (replicate 32 (char_of (sum_list (map of_char c) :: nat)))),
     evp_md_size = 32\<rparr>"

lemma toy_evp_streaming: "evp_streaming toy_evp"
  by (simp add: evp_streaming_def toy_evp_def)

theorem sha256_file_is_sha256_bytes_witness:
  "sha256_file toy_evp [''f'' \<mapsto> ''abc''] ''f'' [] 0 = sha256_bytes toy_evp ''abc'' [] 0"
  by (rule sha256_file_is_sha256_bytes [OF toy_evp_streaming]) simp

text \<open>
  On every path, also when OpenSSL fails or the file cannot be opened, the digest
  context that was allocated is freed, and a failed hash leaves the caller's string alone.
\<close>

lemma sha256_frees_its_context:
  "snd (snd (sha256_file E fs p out live)) = live
   \<and> snd (snd (sha256_bytes E data out live)) = live
   \<and> (fst (sha256_file E fs p out live) \<or> fst (snd (sha256_file E fs p out live)) = out)
   \<and> (fst (sha256_bytes E data out live) \<or> fst (snd (sha256_bytes E data out live)) = out)"
  by (auto simp: sha256_file_def sha256_bytes_def Let_def split: option.splits)

text \<open>
  The hexadecimal form of a 32-byte digest is 64 lower-case hexadecimal digits, and
  two digests have the same form only if they are equal, so comparing the strings compares
  the digests.
\<close>

theorem digest_hex_faithful:
  assumes "length d = 32" and "length e = 32"
  shows "is_sha256_hex (digest_to_hex 32 d)
    \<and> map to_lower (digest_to_hex 32 d) = digest_to_hex 32 d
    \<and> (digest_to_hex 32 d = digest_to_hex 32 e \<longleftrightarrow> d = e)"
  using assms digest_hex_form [OF assms(1)] concat_byte_hex_inj [of d e]
  by (auto simp: digest_to_hex_map)

theorem digest_hex_faithful_witness:
  "is_sha256_hex (digest_to_hex 32 (replicate 32 CHR ''a''))
   \<and> digest_to_hex 32 (replicate 32 CHR ''a'') \<noteq> digest_to_hex 32 (replicate 32 CHR ''b'')"
proof -
  have l: "length (replicate 32 CHR ''a'') = 32" "length (replicate 32 CHR ''b'') = 32" by simp_all
  have "replicate 32 CHR ''a'' \<noteq> replicate 32 CHR ''b''" by (simp add: numeral_eq_Suc)
  with digest_hex_faithful [OF l] show ?thesis by blast
qed

end
