(* ===== verification/Quic_Api.thy ===== *)
theory Quic_Api
  imports LFT_Prelude
begin

text \<open>
  What the endpoints see of msquic. The library itself is not under src/: a call is
  recorded in a log, and whether it succeeds is decided by the environment. The theory
  also models \<open>src/transfer/quic_send_buffer.h\<close>: a send copies its data into an
  allocated block, which msquic owns until it reports \<open>SEND_COMPLETE\<close> with the block as
  its context. Blocks are numbered; \<open>io_live\<close> lists the blocks allocated and not freed,
  and \<open>io_bad_frees\<close> counts frees of anything else.
\<close>

section \<open>Calls\<close>

datatype quic_call =
    MsQuicOpen2
  | MsQuicClose
  | RegistrationOpen handle
  | RegistrationClose handle
  | ConfigurationOpen handle
  | ConfigurationLoadCredential handle
  | ConfigurationClose handle
  | ListenerOpen handle
  | ListenerStart handle
  | ListenerStop handle
  | ListenerClose handle
  | ConnectionOpen handle
  | ConnectionStart handle
  | ConnectionShutdown handle
  | ConnectionClose handle
  | ConnectionSetConfiguration handle "handle option"
  | SetCallbackHandler handle
  | StreamOpen handle
  | StreamStart handle
  | StreamSend handle bytes bool nat \<comment> \<open>stream, payload, FIN, context\<close>
  | StreamShutdown handle
  | StreamClose handle

record quic_io =
  io_calls :: "quic_call list"
  io_live :: "nat list"
  io_next :: nat
  io_bad_frees :: nat

definition io_init :: quic_io where
  "io_init = \<lparr>io_calls = [], io_live = [], io_next = 0, io_bad_frees = 0\<rparr>"

definition io_call :: "quic_call \<Rightarrow> quic_io \<Rightarrow> quic_io" where
  "io_call c io = io\<lparr>io_calls := io_calls io @ [c]\<rparr>"

section \<open>Sending a copy\<close>

text \<open>The environment of a send: does \<open>malloc\<close> succeed, does \<open>StreamSend\<close>?\<close>

record send_env =
  se_malloc :: "bytes \<Rightarrow> bool"
  se_accept :: "bytes \<Rightarrow> bool"

definition good_send :: send_env where
  "good_send = \<lparr>se_malloc = (\<lambda>_. True), se_accept = (\<lambda>_. True)\<rparr>"

text \<open>\<open>static_cast<uint32_t>(length)\<close>: what a 32-bit length keeps of a buffer.\<close>

definition u32_part :: "bytes \<Rightarrow> bytes" where
  "u32_part d = take (length d mod 4294967296) d"

definition stream_send_copy ::
  "send_env \<Rightarrow> handle option \<Rightarrow> bytes \<Rightarrow> bool \<Rightarrow> quic_io \<Rightarrow> bool \<times> quic_io" where
  "stream_send_copy E stream data fin io =
     (if \<not> se_malloc E data then (False, io)
      else
        let raw = io_next io;
            io1 = io\<lparr>io_live := raw # io_live io, io_next := Suc raw\<rparr>
        in case stream of
             Some h \<Rightarrow>
               if se_accept E data
               then (True, io_call (StreamSend h (u32_part data) fin raw) io1)
               else (False, io1\<lparr>io_live := remove1 raw (io_live io1)\<rparr>)
           | None \<Rightarrow> (False, io1\<lparr>io_live := remove1 raw (io_live io1)\<rparr>))"

text \<open>\<open>std::free\<close> of a context in a \<open>SEND_COMPLETE\<close> handler.\<close>

definition free_block :: "nat \<Rightarrow> quic_io \<Rightarrow> quic_io" where
  "free_block b io =
     (if b \<in> set (io_live io) then io\<lparr>io_live := remove1 b (io_live io)\<rparr>
      else io\<lparr>io_bad_frees := Suc (io_bad_frees io)\<rparr>)"

section \<open>Who owns the blocks\<close>

text \<open>The contexts of the sends msquic accepted, in order.\<close>

fun sent_contexts :: "quic_call list \<Rightarrow> nat list" where
  "sent_contexts [] = []"
| "sent_contexts (StreamSend h d f b # cs) = b # sent_contexts cs"
| "sent_contexts (_ # cs) = sent_contexts cs"

lemma sent_contexts_append [simp]:
  "sent_contexts (xs @ ys) = sent_contexts xs @ sent_contexts ys"
  by (induction xs rule: sent_contexts.induct) auto

lemma u32_part_small: "length d < 4294967296 \<Longrightarrow> u32_part d = d"
  by (simp add: u32_part_def)

text \<open>
  The ownership invariant, for the contexts \<open>fin\<close> msquic has completed so far: the live
  blocks are the accepted and not yet completed sends, all distinct.
\<close>

definition io_owned :: "nat set \<Rightarrow> quic_io \<Rightarrow> bool" where
  "io_owned completed io \<longleftrightarrow>
     distinct (sent_contexts (io_calls io)) \<and> distinct (io_live io)
     \<and> set (io_live io) = set (sent_contexts (io_calls io)) - completed
     \<and> completed \<subseteq> set (sent_contexts (io_calls io))
     \<and> (\<forall>b \<in> set (sent_contexts (io_calls io)). b < io_next io)
     \<and> io_bad_frees io = 0"

lemma io_owned_init: "io_owned {} io_init"
  by (simp add: io_owned_def io_init_def)

lemma io_owned_call:
  "io_owned D io \<Longrightarrow> sent_contexts [c] = [] \<Longrightarrow> io_owned D (io_call c io)"
  by (simp add: io_owned_def io_call_def)

lemma io_owned_send:
  assumes "io_owned D io"
  shows "io_owned D (snd (stream_send_copy E h d f io))"
proof -
  have fresh: "io_next io \<notin> set (sent_contexts (io_calls io))" "io_next io \<notin> set (io_live io)"
    using assms by (auto simp: io_owned_def)
  with assms show ?thesis
    by (auto simp: stream_send_copy_def io_owned_def io_call_def Let_def less_Suc_eq
        split: option.splits)
qed

lemma io_owned_free:
  assumes "io_owned D io" and "b \<in> set (sent_contexts (io_calls io))" and "b \<notin> D"
  shows "io_owned (insert b D) (free_block b io)"
  using assms by (auto simp: io_owned_def free_block_def)

text \<open>A send either reaches msquic as it is, or leaves nothing allocated.\<close>

lemma stream_send_copy_cases:
  "stream_send_copy E h d f io = (ok, io') \<Longrightarrow>
     (ok \<and> (\<exists>s. h = Some s \<and> io_calls io' = io_calls io @ [StreamSend s (u32_part d) f (io_next io)]
              \<and> io_live io' = io_next io # io_live io))
     \<or> (\<not> ok \<and> io_calls io' = io_calls io \<and> io_live io' = io_live io)"
  by (auto simp: stream_send_copy_def io_call_def Let_def split: if_splits option.splits)

lemma good_send_ok [simp]:
  "stream_send_copy good_send (Some h) d f io =
     (True, io\<lparr>io_calls := io_calls io @ [StreamSend h (u32_part d) f (io_next io)],
               io_live := io_next io # io_live io, io_next := Suc (io_next io)\<rparr>)"
  by (simp add: stream_send_copy_def good_send_def io_call_def Let_def)

section \<open>The messages of the receiver\<close>

definition msg_accept :: bytes where "msg_accept = ''ACCEPT'' @ [NL]"
definition msg_reject :: bytes where "msg_reject = ''REJECT'' @ [NL]"
definition msg_ok :: bytes where "msg_ok = ''OK'' @ [NL]"
definition msg_fail :: bytes where "msg_fail = ''FAIL'' @ [NL]"

lemmas msg_defs = msg_accept_def msg_reject_def msg_ok_def msg_fail_def

lemma msg_u32 [simp]:
  "u32_part msg_accept = msg_accept" "u32_part msg_reject = msg_reject"
  "u32_part msg_ok = msg_ok" "u32_part msg_fail = msg_fail"
  by (simp_all add: msg_defs u32_part_def)

lemma msg_distinct [simp]:
  "msg_accept \<noteq> msg_reject" "msg_ok \<noteq> msg_fail" "msg_accept \<noteq> msg_ok" "msg_accept \<noteq> msg_fail"
  "msg_reject \<noteq> msg_ok" "msg_reject \<noteq> msg_fail"
  "msg_reject \<noteq> msg_accept" "msg_fail \<noteq> msg_ok" "msg_ok \<noteq> msg_accept" "msg_fail \<noteq> msg_accept"
  "msg_ok \<noteq> msg_reject" "msg_fail \<noteq> msg_reject"
  by (simp_all add: msg_defs)

end
