(* ===== verification/Waiter.thy ===== *)
theory Waiter
  imports LFT_Prelude
begin

text \<open>
  The pattern the endpoints use between an msquic callback and a blocked caller: a flag
  and an outcome under a mutex, armed by the caller, set by \<open>notify\<close>, and awaited with
  \<open>condition_variable::wait_for\<close> and a predicate. A wait with a predicate returns the
  value of the predicate when it ends, so a timeout is a wait that ends while the flag is
  not set. The locale is the contract; each notifier of the server and the client
  interprets it.
\<close>

locale waiter =
  fixes arm :: "'s \<Rightarrow> 's"
    and notify :: "'r \<Rightarrow> 's \<Rightarrow> 's"
    and fired :: "'s \<Rightarrow> bool"
    and outcome :: "'s \<Rightarrow> 'r"
  assumes arm_clears: "\<not> fired (arm s)"
    and notify_fires: "fired (notify r s)"
    and notify_outcome: "outcome (notify r s) = r"
begin

text \<open>After any notifications the wait sees the flag if there was one, and the last outcome.\<close>

lemma fired_after: "fired (fold notify rs (arm s)) \<longleftrightarrow> rs \<noteq> []"
  by (cases rs rule: rev_cases) (simp_all add: arm_clears notify_fires)

lemma outcome_after: "rs \<noteq> [] \<Longrightarrow> outcome (fold notify rs (arm s)) = last rs"
  by (cases rs rule: rev_cases) (simp_all add: notify_outcome)

end

end
