(* ===== verification/Quic_Server.thy ===== *)
theory Quic_Server
  imports Header_Framing Sha256 Quic_Api Waiter
begin

text \<open>
  The receiving side of a transfer, \<open>src/transfer/quic_server.cpp\<close>: the state of
  \<open>QuicServer\<close> and the operations its msquic callbacks run. A handler is a function from
  the state to the state; the environment of one callback says which opens, writes and
  sends succeed. A failed write may have put a prefix of its data into the file. The
  blocking thread of \<open>receive_file\<close> is in \<open>Server_Session\<close>.
\<close>

section \<open>State\<close>

record quic_server =
  qs_port :: u16
  qs_bind_host :: bytes
  qs_running :: bool
  qs_api :: bool
  qs_registration :: "handle option"
  qs_configuration :: "handle option"
  qs_listener :: "handle option"
  qs_client_connection :: "handle option"
  qs_receive_buffer :: bytes
  qs_receiving_file :: bool
  qs_file_done :: bool
  qs_file_ok :: bool
  qs_has_offer :: bool
  qs_has_progress :: bool
  qs_offer_ready :: bool
  qs_file_accepted :: bool
  qs_sending_final_ack :: bool
  qs_file_stream :: "handle option"
  qs_output_is_dir :: bool
  qs_output_dir :: path
  qs_output_path :: path
  qs_file_header :: file_transfer_header
  qs_header_parsed :: bool
  qs_io_error :: bool
  qs_overflow :: bool
  qs_bytes_written :: u64
  qs_file_out :: "ofstream option"
  qs_file_result :: file_receive_result
  qs_files :: files
  qs_progress :: "(u64 \<times> u64) list"
  qs_io :: quic_io

text \<open>A server as constructed, on a file system.\<close>

definition new_server :: "u16 \<Rightarrow> files \<Rightarrow> quic_server" where
  "new_server port fs = \<lparr>qs_port = port, qs_bind_host = [], qs_running = False, qs_api = False,
     qs_registration = None, qs_configuration = None, qs_listener = None,
     qs_client_connection = None, qs_receive_buffer = [], qs_receiving_file = False,
     qs_file_done = False, qs_file_ok = False, qs_has_offer = False, qs_has_progress = False,
     qs_offer_ready = False, qs_file_accepted = False, qs_sending_final_ack = False,
     qs_file_stream = None, qs_output_is_dir = False, qs_output_dir = [], qs_output_path = [],
     qs_file_header = empty_header, qs_header_parsed = False, qs_io_error = False,
     qs_overflow = False, qs_bytes_written = 0, qs_file_out = None,
     qs_file_result = empty_result, qs_files = fs, qs_progress = [], qs_io = io_init\<rparr>"

text \<open>The environment of one callback.\<close>

record server_env =
  env_open :: "path \<Rightarrow> bool"
  env_write :: "u64 \<Rightarrow> bool"
  env_short :: nat
  env_send :: send_env

definition good_env :: server_env where
  "good_env = \<lparr>env_open = (\<lambda>_. True), env_write = (\<lambda>_. True), env_short = 0, env_send = good_send\<rparr>"

section \<open>Events\<close>

datatype stream_event =
    Receive "bytes list"
  | PeerSendShutdown
  | SendComplete nat
  | PeerSendAborted
  | PeerReceiveAborted
  | StreamShutdownComplete bool
  | OtherStreamEvent

datatype connection_event =
    Connected
  | ConnShutdownComplete bool
  | PeerStreamStarted handle
  | OtherConnectionEvent

datatype listener_event =
    NewConnection handle
  | StopComplete
  | OtherListenerEvent

section \<open>Results\<close>

definition set_error :: "bytes \<Rightarrow> quic_server \<Rightarrow> quic_server" where
  "set_error e s = s\<lparr>qs_file_result := (qs_file_result s)\<lparr>frr_error := e\<rparr>\<rparr>"

definition notify_file_waiter :: "bool \<Rightarrow> quic_server \<Rightarrow> quic_server" where
  "notify_file_waiter success s = s\<lparr>qs_file_done := True, qs_file_ok := success,
     qs_file_result := (qs_file_result s)\<lparr>frr_success := success\<rparr>\<rparr>"

definition server_send :: "server_env \<Rightarrow> handle option \<Rightarrow> bytes \<Rightarrow> bool \<Rightarrow> quic_server \<Rightarrow> bool \<times> quic_server" where
  "server_send E stream msg fin s =
     (case stream_send_copy (env_send E) stream msg fin (qs_io s) of
        (ok, io) \<Rightarrow> (ok, s\<lparr>qs_io := io\<rparr>))"

definition api_call :: "quic_call \<Rightarrow> quic_server \<Rightarrow> quic_server" where
  "api_call c s = s\<lparr>qs_io := io_call c (qs_io s)\<rparr>"

section \<open>The output file\<close>

definition open_output_file :: "server_env \<Rightarrow> quic_server \<Rightarrow> bool \<times> quic_server" where
  "open_output_file E s =
     (if env_open E (qs_output_path s)
      then (True, s\<lparr>qs_files := file_truncate (qs_output_path s) (qs_files s),
                    qs_file_out := Some \<lparr>os_path = qs_output_path s, os_is_open = True\<rparr>\<rparr>)
      else (False, (set_error ''failed to open output file'' (s\<lparr>qs_io_error := True\<rparr>))
                     \<lparr>qs_file_out := None\<rparr>))"

definition file_out_open :: "quic_server \<Rightarrow> bool" where
  "file_out_open s = (case qs_file_out s of None \<Rightarrow> False | Some os \<Rightarrow> os_is_open os)"

definition close_file_out :: "quic_server \<Rightarrow> quic_server" where
  "close_file_out s = (if file_out_open s then s\<lparr>qs_file_out := map_option os_close (qs_file_out s)\<rparr> else s)"

text \<open>\<open>file_out_->write\<close> on an open stream, then \<open>good()\<close>.\<close>

definition write_out :: "server_env \<Rightarrow> bytes \<Rightarrow> quic_server \<Rightarrow> bool \<times> quic_server" where
  "write_out E d s =
     (case qs_file_out s of
        None \<Rightarrow> (False, s)
      | Some os \<Rightarrow>
          if env_write E (qs_bytes_written s)
          then (True, s\<lparr>qs_files := file_extend (os_path os) d (qs_files s)\<rparr>)
          else (False, s\<lparr>qs_files := file_extend (os_path os) (take (env_short E) d) (qs_files s)\<rparr>))"

section \<open>Receiving bytes\<close>

text \<open>Never more than the declared size: the bytes of \<open>n\<close> to write, and whether that
  leaves some out.\<close>

definition body_overflows :: "quic_server \<Rightarrow> nat \<Rightarrow> bool" where
  "body_overflows s n \<longleftrightarrow> (of_nat n :: u64) > fth_size (qs_file_header s) - qs_bytes_written s"

definition body_to_write :: "quic_server \<Rightarrow> nat \<Rightarrow> u64" where
  "body_to_write s n =
     (if body_overflows s n then fth_size (qs_file_header s) - qs_bytes_written s else of_nat n)"

text \<open>\<open>append_file_bytes\<close> once the header is parsed.\<close>

definition append_body_bytes :: "server_env \<Rightarrow> bytes \<Rightarrow> quic_server \<Rightarrow> quic_server" where
  "append_body_bytes E data s =
     (if \<not> qs_file_accepted s then s
      else if qs_io_error s \<or> qs_file_out s = None \<or> \<not> file_out_open s then s
      else if data = [] then s
      else
        let to_write = body_to_write s (length data);
            s1 = (if body_overflows s (length data) then s\<lparr>qs_overflow := True\<rparr> else s)
        in if to_write > 0 then
             (case write_out E (take (unat to_write) data) s1 of
                (good, s2) \<Rightarrow>
                  if \<not> good then set_error ''failed while writing output file'' (s2\<lparr>qs_io_error := True\<rparr>)
                  else
                    let s3 = s2\<lparr>qs_bytes_written := qs_bytes_written s2 + to_write\<rparr>
                    in if qs_has_progress s3
                       then s3\<lparr>qs_progress := qs_progress s3
                              @ [(qs_bytes_written s3, fth_size (qs_file_header s3))]\<rparr>
                       else s3)
           else s1)"

definition try_parse_file_header :: "server_env \<Rightarrow> quic_server \<Rightarrow> quic_server" where
  "try_parse_file_header E s =
     (if qs_header_parsed s then s
      else case decode_file_header (qs_receive_buffer s) empty_header 0 of
        (ok, header, header_bytes) \<Rightarrow>
          if \<not> ok then
            (if length (qs_receive_buffer s) > k_max_header_bytes
             then notify_file_waiter False
                    ((set_error ''header too large or malformed'' (s\<lparr>qs_io_error := True\<rparr>))
                       \<lparr>qs_header_parsed := True, qs_receive_buffer := []\<rparr>)
             else s)
          else
            let s1 = s\<lparr>qs_file_header := header, qs_header_parsed := True\<rparr>;
                s2 = (if qs_output_is_dir s1
                      then s1\<lparr>qs_output_path := path_append (qs_output_dir s1) (fth_name header)\<rparr>
                      else s1)
            in if qs_has_offer s2 then s2\<lparr>qs_offer_ready := True, qs_receive_buffer := []\<rparr>
               else
                 case open_output_file E s2 of
                   (opened, s3) \<Rightarrow>
                     if \<not> opened then s3\<lparr>qs_receive_buffer := []\<rparr>
                     else
                       let s4 = s3\<lparr>qs_file_accepted := True\<rparr>;
                           s5 = snd (server_send E (qs_file_stream s4) msg_accept False s4);
                           body = drop header_bytes (qs_receive_buffer s5);
                           s6 = (if body \<noteq> [] then append_body_bytes E (u32_part body) s5 else s5)
                       in s6\<lparr>qs_receive_buffer := []\<rparr>)"

definition append_file_bytes :: "server_env \<Rightarrow> bytes \<Rightarrow> quic_server \<Rightarrow> quic_server" where
  "append_file_bytes E data s =
     (if \<not> qs_header_parsed s
      then try_parse_file_header E (s\<lparr>qs_receive_buffer := qs_receive_buffer s @ data\<rparr>)
      else append_body_bytes E data s)"

section \<open>Finishing\<close>

definition send_file_ack :: "server_env \<Rightarrow> handle \<Rightarrow> bool \<Rightarrow> quic_server \<Rightarrow> bool \<times> quic_server" where
  "send_file_ack E stream ok s = server_send E (Some stream) (if ok then msg_ok else msg_fail) True s"

text \<open>The checks of \<open>finish_file_receive\<close>, in the code's order: the verdict and the result.\<close>

definition verify_received ::
  "'c evp_api \<Rightarrow> quic_server \<Rightarrow> bool \<times> file_receive_result" where
  "verify_received evp s =
     (let r = (qs_file_result s)\<lparr>frr_path := qs_output_path s,
                 frr_bytes_received := qs_bytes_written s,
                 frr_expected_hash := fth_sha256_hex (qs_file_header s)\<rparr>
      in if qs_io_error s then
           (False, if frr_error r = [] then r\<lparr>frr_error := ''output I/O error''\<rparr> else r)
         else if \<not> qs_header_parsed s \<or> qs_file_out s = None then
           (False, r\<lparr>frr_error := ''file header not received''\<rparr>)
         else if qs_overflow s then
           (False, r\<lparr>frr_error := ''peer sent more bytes than declared''\<rparr>)
         else if qs_bytes_written s \<noteq> fth_size (qs_file_header s) then
           (False, r\<lparr>frr_error := ''size mismatch''\<rparr>)
         else
           (case sha256_file evp (qs_files s) (qs_output_path s) (frr_computed_hash r) 0 of
              (hashed, hex, _) \<Rightarrow>
                let r' = r\<lparr>frr_computed_hash := hex\<rparr>
                in if \<not> hashed then (False, r'\<lparr>frr_error := ''failed to hash received file''\<rparr>)
                   else if hex \<noteq> fth_sha256_hex (qs_file_header s) then
                     (False, r'\<lparr>frr_error := ''hash mismatch''\<rparr>)
                   else (True, r')))"

definition finish_file_receive ::
  "'c evp_api \<Rightarrow> server_env \<Rightarrow> handle \<Rightarrow> quic_server \<Rightarrow> quic_server" where
  "finish_file_receive evp E stream s =
     (let s1 = close_file_out s
      in case verify_received evp s1 of
           (verify_ok, r) \<Rightarrow>
             let s2 = s1\<lparr>qs_file_result := r\<lparr>frr_success := verify_ok\<rparr>, qs_sending_final_ack := True\<rparr>
             in case send_file_ack E stream verify_ok s2 of
                  (sent, s3) \<Rightarrow>
                    if \<not> sent then notify_file_waiter False (s3\<lparr>qs_sending_final_ack := False\<rparr>)
                    else s3)"

section \<open>Callbacks\<close>

definition peer_aborted :: "quic_server \<Rightarrow> quic_server" where
  "peer_aborted s =
     (if qs_receiving_file s then
        let s1 = close_file_out s;
            s2 = (if frr_error (qs_file_result s1) = []
                  then set_error ''peer aborted the transfer'' s1 else s1)
        in notify_file_waiter False s2
      else s)"

definition on_stream_event ::
  "'c evp_api \<Rightarrow> server_env \<Rightarrow> handle \<Rightarrow> stream_event \<Rightarrow> quic_server \<Rightarrow> quic_server" where
  "on_stream_event evp E stream ev s =
     (case ev of
        Receive bufs \<Rightarrow>
          if qs_receiving_file s then fold (append_file_bytes E) bufs s else s
      | PeerSendShutdown \<Rightarrow>
          if qs_receiving_file s then
            (if qs_file_accepted s \<or> qs_io_error s then finish_file_receive evp E stream s else s)
          else s
      | SendComplete ctx \<Rightarrow>
          (let s1 = s\<lparr>qs_io := free_block ctx (qs_io s)\<rparr>
           in if qs_receiving_file s1 \<and> qs_sending_final_ack s1
              then notify_file_waiter (frr_success (qs_file_result s1)) s1 else s1)
      | PeerSendAborted \<Rightarrow> peer_aborted s
      | PeerReceiveAborted \<Rightarrow> peer_aborted s
      | StreamShutdownComplete app_close \<Rightarrow>
          if \<not> app_close then api_call (StreamClose stream) s else s
      | OtherStreamEvent \<Rightarrow> s)"

definition on_connection_event :: "handle \<Rightarrow> connection_event \<Rightarrow> quic_server \<Rightarrow> quic_server" where
  "on_connection_event connection ev s =
     (case ev of
        Connected \<Rightarrow> s\<lparr>qs_client_connection := Some connection\<rparr>
      | ConnShutdownComplete app_close \<Rightarrow>
          (let s1 = (if \<not> app_close then api_call (ConnectionClose connection) s else s)
           in if qs_client_connection s1 = Some connection
              then s1\<lparr>qs_client_connection := None\<rparr> else s1)
      | PeerStreamStarted stream \<Rightarrow>
          api_call (SetCallbackHandler stream)
            (s\<lparr>qs_receive_buffer := [], qs_header_parsed := False, qs_io_error := False,
               qs_overflow := False, qs_bytes_written := 0, qs_file_out := None,
               qs_file_stream := Some stream, qs_file_accepted := False,
               qs_sending_final_ack := False\<rparr>)
      | OtherConnectionEvent \<Rightarrow> s)"

text \<open>\<open>config_ok\<close> is the status of \<open>ConnectionSetConfiguration\<close>, which the handler returns.\<close>

definition on_listener_event :: "bool \<Rightarrow> listener_event \<Rightarrow> quic_server \<Rightarrow> bool \<times> quic_server" where
  "on_listener_event config_ok ev s =
     (case ev of
        NewConnection c \<Rightarrow>
          (config_ok, api_call (ConnectionSetConfiguration c (qs_configuration s))
                        (api_call (SetCallbackHandler c) s))
      | StopComplete \<Rightarrow> (True, s)
      | OtherListenerEvent \<Rightarrow> (True, s))"

end
