(* ===== verification/Server_Facts.thy ===== *)
theory Server_Facts
  imports Quic_Server
begin

text \<open>
  Facts about the receiver's handlers: which fields each leaves alone, the invariant that
  ties the count of written bytes to the declared size and to the file on disk, and what a
  well-behaved stream leaves behind however it was cut into buffers.
\<close>

lemmas server_defs =
  set_error_def notify_file_waiter_def server_send_def api_call_def open_output_file_def
  write_out_def close_file_out_def file_out_open_def os_close_def

section \<open>Frames\<close>

lemma append_body_frame [simp]:
  "qs_header_parsed (append_body_bytes E d s) = qs_header_parsed s"
  "qs_file_accepted (append_body_bytes E d s) = qs_file_accepted s"
  "qs_file_header (append_body_bytes E d s) = qs_file_header s"
  "qs_receive_buffer (append_body_bytes E d s) = qs_receive_buffer s"
  "qs_receiving_file (append_body_bytes E d s) = qs_receiving_file s"
  "qs_file_done (append_body_bytes E d s) = qs_file_done s"
  "qs_file_ok (append_body_bytes E d s) = qs_file_ok s"
  "qs_has_offer (append_body_bytes E d s) = qs_has_offer s"
  "qs_has_progress (append_body_bytes E d s) = qs_has_progress s"
  "qs_offer_ready (append_body_bytes E d s) = qs_offer_ready s"
  "qs_sending_final_ack (append_body_bytes E d s) = qs_sending_final_ack s"
  "qs_file_stream (append_body_bytes E d s) = qs_file_stream s"
  "qs_output_is_dir (append_body_bytes E d s) = qs_output_is_dir s"
  "qs_output_dir (append_body_bytes E d s) = qs_output_dir s"
  "qs_output_path (append_body_bytes E d s) = qs_output_path s"
  "qs_file_out (append_body_bytes E d s) = qs_file_out s"
  "qs_io (append_body_bytes E d s) = qs_io s"
  "qs_client_connection (append_body_bytes E d s) = qs_client_connection s"
  "frr_success (qs_file_result (append_body_bytes E d s)) = frr_success (qs_file_result s)"
  by (simp_all add: append_body_bytes_def server_defs Let_def split: option.splits)

lemma close_file_out_frame [simp]:
  "qs_header_parsed (close_file_out s) = qs_header_parsed s"
  "qs_file_accepted (close_file_out s) = qs_file_accepted s"
  "qs_file_header (close_file_out s) = qs_file_header s"
  "qs_receive_buffer (close_file_out s) = qs_receive_buffer s"
  "qs_receiving_file (close_file_out s) = qs_receiving_file s"
  "qs_file_done (close_file_out s) = qs_file_done s"
  "qs_file_ok (close_file_out s) = qs_file_ok s"
  "qs_has_offer (close_file_out s) = qs_has_offer s"
  "qs_offer_ready (close_file_out s) = qs_offer_ready s"
  "qs_sending_final_ack (close_file_out s) = qs_sending_final_ack s"
  "qs_file_stream (close_file_out s) = qs_file_stream s"
  "qs_output_is_dir (close_file_out s) = qs_output_is_dir s"
  "qs_output_dir (close_file_out s) = qs_output_dir s"
  "qs_output_path (close_file_out s) = qs_output_path s"
  "qs_io_error (close_file_out s) = qs_io_error s"
  "qs_overflow (close_file_out s) = qs_overflow s"
  "qs_bytes_written (close_file_out s) = qs_bytes_written s"
  "qs_file_result (close_file_out s) = qs_file_result s"
  "qs_files (close_file_out s) = qs_files s"
  "qs_io (close_file_out s) = qs_io s"
  "qs_client_connection (close_file_out s) = qs_client_connection s"
  "qs_file_out (close_file_out s) = map_option os_close (qs_file_out s)"
  by (auto simp: close_file_out_def file_out_open_def os_close_def split: option.splits)

lemma server_send_frame [simp]:
  "snd (server_send E h d f s) = s\<lparr>qs_io := snd (stream_send_copy (env_send E) h d f (qs_io s))\<rparr>"
  by (simp add: server_send_def split: prod.splits)

lemma server_send_cases:
  "server_send E h d f s = (ok, s') \<Longrightarrow> \<exists>io. s' = s\<lparr>qs_io := io\<rparr>"
  by (auto simp: server_send_def split: prod.splits)

section \<open>The invariant\<close>

text \<open>
  The bytes written never exceed the declared size, nothing is written before a header is
  parsed and accepted, and unless an I/O error was recorded the output file holds exactly
  as many bytes as were counted.
\<close>

definition server_inv :: "quic_server \<Rightarrow> bool" where
  "server_inv s \<longleftrightarrow>
     qs_bytes_written s \<le> fth_size (qs_file_header s)
     \<and> (qs_header_parsed s \<or> qs_bytes_written s = 0)
     \<and> (qs_file_accepted s \<or> qs_bytes_written s = 0)
     \<and> (\<forall>os. qs_file_out s = Some os \<longrightarrow> qs_io_error s \<or>
          (\<exists>b. file_contents (qs_files s) (os_path os) = Some b
               \<and> length b = unat (qs_bytes_written s)))"

lemma server_inv_new: "server_inv (new_server port fs)"
  by (simp add: server_inv_def new_server_def)

text \<open>The invariant does not look at these fields.\<close>

lemma server_inv_frame [simp]:
  "server_inv (s\<lparr>qs_io := io\<rparr>) = server_inv s"
  "server_inv (s\<lparr>qs_file_result := r\<rparr>) = server_inv s"
  "server_inv (s\<lparr>qs_receive_buffer := b\<rparr>) = server_inv s"
  "server_inv (s\<lparr>qs_sending_final_ack := x\<rparr>) = server_inv s"
  "server_inv (s\<lparr>qs_client_connection := c\<rparr>) = server_inv s"
  "server_inv (s\<lparr>qs_offer_ready := x\<rparr>) = server_inv s"
  "server_inv (s\<lparr>qs_overflow := x\<rparr>) = server_inv s"
  "server_inv (s\<lparr>qs_progress := p\<rparr>) = server_inv s"
  "server_inv (s\<lparr>qs_output_path := q\<rparr>) = server_inv s"
  "server_inv (set_error e s) = server_inv s"
  "server_inv (notify_file_waiter x s) = server_inv s"
  "server_inv (api_call k s) = server_inv s"
  by (simp_all add: server_inv_def server_defs)

lemma server_inv_close [simp]: "server_inv (close_file_out s) = server_inv s"
  by (auto simp: server_inv_def os_close_def)

lemma body_to_write_bounds:
  assumes le: "qs_bytes_written s \<le> fth_size (qs_file_header s)"
  shows "unat (body_to_write s n) \<le> n"
    and "qs_bytes_written s + body_to_write s n \<le> fth_size (qs_file_header s)"
    and "unat (qs_bytes_written s + body_to_write s n)
           = unat (qs_bytes_written s) + unat (body_to_write s n)"
proof -
  let ?w = "qs_bytes_written s" and ?size = "fth_size (qs_file_header s)"
  have small: "unat (of_nat n :: u64) \<le> n" by (simp add: unat_of_nat)
  have t: "body_to_write s n \<le> ?size - ?w"
    by (auto simp: body_to_write_def body_overflows_def not_less)
  show "unat (body_to_write s n) \<le> n"
    using small by (auto simp: body_to_write_def body_overflows_def word_less_nat_alt)
  have "unat (?size - ?w) = unat ?size - unat ?w"
    using le by (simp add: unat_sub)
  then have "unat ?w + unat (body_to_write s n) \<le> unat ?size"
    using t le by (simp add: word_le_nat_alt)
  moreover from this have "unat ?w + unat (body_to_write s n) < 2 ^ LENGTH(64)"
    using unat_u64_bound [of ?size] by simp
  then show "unat (?w + body_to_write s n) = unat ?w + unat (body_to_write s n)"
    by (rule unat_add_lem [THEN iffD1])
  ultimately show "?w + body_to_write s n \<le> ?size" by (simp add: word_le_nat_alt)
qed

lemma body_to_write_overflow [simp]:
  "body_to_write (s\<lparr>qs_overflow := x\<rparr>) n = body_to_write s n"
  by (simp add: body_to_write_def body_overflows_def)

text \<open>The branches of \<open>append_body_bytes\<close>.\<close>

definition body_ready :: "quic_server \<Rightarrow> bool" where
  "body_ready s \<longleftrightarrow> qs_file_accepted s \<and> \<not> qs_io_error s \<and> file_out_open s"

lemma append_body_idle: "\<not> body_ready s \<or> d = [] \<Longrightarrow> append_body_bytes E d s = s"
  by (auto simp: append_body_bytes_def body_ready_def file_out_open_def split: option.splits)

lemma body_ready_out: "body_ready s \<Longrightarrow> \<exists>os. qs_file_out s = Some os \<and> os_is_open os"
  by (auto simp: body_ready_def file_out_open_def split: option.splits)

lemma server_inv_append_body:
  assumes inv: "server_inv s" and parsed: "qs_header_parsed s"
  shows "server_inv (append_body_bytes E d s)"
proof (cases "body_ready s \<and> d \<noteq> []")
  case False
  then show ?thesis using inv append_body_idle [of s d E] by auto
next
  case True
  then obtain os where os: "qs_file_out s = Some os" using body_ready_out by blast
  let ?w = "qs_bytes_written s" and ?t = "body_to_write s (length d)"
  have le: "?w \<le> fth_size (qs_file_header s)" using inv by (simp add: server_inv_def)
  note t = body_to_write_bounds [OF le, of "length d"]
  obtain b where b: "file_contents (qs_files s) (os_path os) = Some b" "length b = unat ?w"
    using inv True os by (auto simp: server_inv_def body_ready_def)
  note grown = store.contents_extend [OF b(1)]
  show ?thesis
  proof (cases "?t > 0 \<and> env_write E ?w")
    case good: True
    with True os parsed t b show ?thesis
      by (simp add: append_body_bytes_def body_ready_def write_out_def server_inv_def grown Let_def)
  next
    case False
    with True os parsed b le show ?thesis
      by (auto simp: append_body_bytes_def body_ready_def write_out_def server_inv_def set_error_def Let_def)
  qed
qed


lemma server_inv_open:
  assumes "server_inv s" and "qs_bytes_written s = 0" and "open_output_file E s = (ok, s')"
  shows "server_inv s'"
  using assms by (auto simp: open_output_file_def server_inv_def set_error_def
      store.contents_truncate split: if_splits)

lemma open_output_file_frame [simp]:
  "qs_bytes_written (snd (open_output_file E s)) = qs_bytes_written s"
  "qs_header_parsed (snd (open_output_file E s)) = qs_header_parsed s"
  "qs_file_header (snd (open_output_file E s)) = qs_file_header s"
  "qs_file_accepted (snd (open_output_file E s)) = qs_file_accepted s"
  "qs_receive_buffer (snd (open_output_file E s)) = qs_receive_buffer s"
  "qs_file_stream (snd (open_output_file E s)) = qs_file_stream s"
  "qs_has_offer (snd (open_output_file E s)) = qs_has_offer s"
  "qs_receiving_file (snd (open_output_file E s)) = qs_receiving_file s"
  "qs_file_done (snd (open_output_file E s)) = qs_file_done s"
  "qs_file_ok (snd (open_output_file E s)) = qs_file_ok s"
  "qs_offer_ready (snd (open_output_file E s)) = qs_offer_ready s"
  "qs_sending_final_ack (snd (open_output_file E s)) = qs_sending_final_ack s"
  "qs_output_path (snd (open_output_file E s)) = qs_output_path s"
  "qs_output_is_dir (snd (open_output_file E s)) = qs_output_is_dir s"
  "qs_output_dir (snd (open_output_file E s)) = qs_output_dir s"
  "qs_client_connection (snd (open_output_file E s)) = qs_client_connection s"
  "qs_io (snd (open_output_file E s)) = qs_io s"
  "frr_success (qs_file_result (snd (open_output_file E s))) = frr_success (qs_file_result s)"
  by (simp_all add: open_output_file_def set_error_def)

lemma server_inv_accept: "server_inv s \<Longrightarrow> server_inv (s\<lparr>qs_file_accepted := True\<rparr>)"
  by (simp add: server_inv_def)

lemma server_inv_header:
  "server_inv s \<Longrightarrow> \<not> qs_header_parsed s \<Longrightarrow>
   server_inv (s\<lparr>qs_file_header := h, qs_header_parsed := True\<rparr>)"
  by (auto simp: server_inv_def)

text \<open>What \<open>try_parse_file_header\<close> does, branch by branch.\<close>

definition with_header :: "file_transfer_header \<Rightarrow> quic_server \<Rightarrow> quic_server" where
  "with_header h s =
     (let s1 = s\<lparr>qs_file_header := h, qs_header_parsed := True\<rparr>
      in if qs_output_is_dir s1
         then s1\<lparr>qs_output_path := path_append (qs_output_dir s1) (fth_name h)\<rparr> else s1)"

definition auto_accepted :: "server_env \<Rightarrow> nat \<Rightarrow> quic_server \<Rightarrow> quic_server" where
  "auto_accepted E n s =
     (let s4 = s\<lparr>qs_file_accepted := True\<rparr>;
          s5 = snd (server_send E (qs_file_stream s4) msg_accept False s4);
          body = drop n (qs_receive_buffer s5)
      in (if body \<noteq> [] then append_body_bytes E (u32_part body) s5 else s5)\<lparr>qs_receive_buffer := []\<rparr>)"

lemma try_parse_cases:
  assumes "\<not> qs_header_parsed s"
  shows "try_parse_file_header E s =
    (case decode_opt (qs_receive_buffer s) of
       None \<Rightarrow>
         if length (qs_receive_buffer s) > k_max_header_bytes
         then notify_file_waiter False
                ((set_error ''header too large or malformed'' (s\<lparr>qs_io_error := True\<rparr>))
                   \<lparr>qs_header_parsed := True, qs_receive_buffer := []\<rparr>)
         else s
     | Some (h, n) \<Rightarrow>
         if qs_has_offer s then (with_header h s)\<lparr>qs_offer_ready := True, qs_receive_buffer := []\<rparr>
         else (case open_output_file E (with_header h s) of
                 (opened, s3) \<Rightarrow> if \<not> opened then s3\<lparr>qs_receive_buffer := []\<rparr>
                                 else auto_accepted E n s3))"
  using assms
  by (auto simp: try_parse_file_header_def decode_opt_def with_header_def auto_accepted_def Let_def
      split: prod.splits)

lemma with_header_inv: "server_inv s \<Longrightarrow> \<not> qs_header_parsed s \<Longrightarrow> server_inv (with_header h s)"
  by (simp add: with_header_def server_inv_header Let_def)

lemma with_header_frame [simp]:
  "qs_header_parsed (with_header h s)" "qs_file_header (with_header h s) = h"
  "qs_bytes_written (with_header h s) = qs_bytes_written s"
  "qs_receive_buffer (with_header h s) = qs_receive_buffer s"
  "qs_file_stream (with_header h s) = qs_file_stream s"
  "qs_file_accepted (with_header h s) = qs_file_accepted s"
  "qs_io (with_header h s) = qs_io s" "qs_io_error (with_header h s) = qs_io_error s"
  "qs_overflow (with_header h s) = qs_overflow s"
  "qs_has_offer (with_header h s) = qs_has_offer s"
  "qs_file_done (with_header h s) = qs_file_done s"
  "qs_file_ok (with_header h s) = qs_file_ok s"
  "qs_receiving_file (with_header h s) = qs_receiving_file s"
  "qs_sending_final_ack (with_header h s) = qs_sending_final_ack s"
  "qs_file_result (with_header h s) = qs_file_result s"
  "qs_file_out (with_header h s) = qs_file_out s"
  "qs_files (with_header h s) = qs_files s"
  "qs_output_is_dir (with_header h s) = qs_output_is_dir s"
  "qs_output_dir (with_header h s) = qs_output_dir s"
  "qs_client_connection (with_header h s) = qs_client_connection s"
  "qs_offer_ready (with_header h s) = qs_offer_ready s"
  by (simp_all add: with_header_def Let_def)

lemma auto_accepted_inv:
  assumes "server_inv s" and "qs_header_parsed s"
  shows "server_inv (auto_accepted E n s)"
  using assms by (auto simp: auto_accepted_def Let_def server_inv_accept
      intro!: server_inv_append_body)

lemma server_inv_try_parse:
  assumes inv: "server_inv s"
  shows "server_inv (try_parse_file_header E s)"
proof (cases "qs_header_parsed s")
  case True
  then show ?thesis using inv by (simp add: try_parse_file_header_def)
next
  case False
  then have w: "qs_bytes_written s = 0" using inv by (simp add: server_inv_def)
  show ?thesis
  proof (cases "decode_opt (qs_receive_buffer s)")
    case None
    with False inv w show ?thesis
      by (auto simp: try_parse_cases server_inv_def server_defs)
  next
    case (Some p)
    obtain h n where p: "p = (h, n)" by (cases p)
    obtain opened s3 where o: "open_output_file E (with_header h s) = (opened, s3)"
      by (cases "open_output_file E (with_header h s)")
    have "server_inv s3"
      by (rule server_inv_open [OF with_header_inv [OF inv False] _ o]) (simp add: w)
    moreover have "qs_header_parsed s3"
      using open_output_file_frame(2) [of E "with_header h s"] by (simp add: o)
    ultimately show ?thesis
      using False Some p o with_header_inv [OF inv False]
      by (auto simp: try_parse_cases auto_accepted_inv)
  qed
qed

lemma server_inv_append: "server_inv s \<Longrightarrow> server_inv (append_file_bytes E d s)"
  by (simp add: append_file_bytes_def server_inv_try_parse server_inv_append_body)

lemma server_inv_receive: "server_inv s \<Longrightarrow> server_inv (fold (append_file_bytes E) bufs s)"
  by (induction bufs arbitrary: s) (simp_all add: server_inv_append)

lemma server_inv_finish: "server_inv s \<Longrightarrow> server_inv (finish_file_receive evp E h s)"
  by (auto simp: finish_file_receive_def send_file_ack_def Let_def
      dest!: server_send_cases split: prod.splits)

lemma server_inv_aborted: "server_inv s \<Longrightarrow> server_inv (peer_aborted s)"
  by (simp add: peer_aborted_def Let_def)

lemma server_inv_stream_event: "server_inv s \<Longrightarrow> server_inv (on_stream_event evp E h ev s)"
  by (cases ev) (simp_all add: on_stream_event_def server_inv_receive server_inv_finish
      server_inv_aborted Let_def)

lemma server_inv_connection_event: "server_inv s \<Longrightarrow> server_inv (on_connection_event c ev s)"
  by (cases ev) (auto simp: on_connection_event_def server_inv_def api_call_def Let_def)

lemma server_inv_listener_event: "server_inv s \<Longrightarrow> server_inv (snd (on_listener_event ok ev s))"
  by (cases ev) (simp_all add: on_listener_event_def)

section \<open>Handlers in one step\<close>

lemma has_offer_no_accept:
  assumes "qs_has_offer s" and "\<not> qs_file_accepted s"
  shows "qs_has_offer (append_file_bytes E d s) \<and> \<not> qs_file_accepted (append_file_bytes E d s)
    \<and> qs_files (append_file_bytes E d s) = qs_files s"
proof (cases "qs_header_parsed s")
  case True
  with assms show ?thesis
    by (simp add: append_file_bytes_def append_body_bytes_def)
next
  case False
  with assms show ?thesis
    by (auto simp: append_file_bytes_def try_parse_cases server_defs with_header_def Let_def
        split: option.splits)
qed

lemma has_offer_no_accept_fold:
  "qs_has_offer s \<Longrightarrow> \<not> qs_file_accepted s \<Longrightarrow>
   qs_has_offer (fold (append_file_bytes E) ds s) \<and> \<not> qs_file_accepted (fold (append_file_bytes E) ds s)
   \<and> qs_files (fold (append_file_bytes E) ds s) = qs_files s"
  by (induction ds arbitrary: s) (simp_all add: has_offer_no_accept)

lemma receiving_append [simp]: "qs_receiving_file (append_file_bytes E d s) = qs_receiving_file s"
  by (cases "qs_header_parsed s")
    (auto simp: append_file_bytes_def try_parse_cases auto_accepted_def case_prod_beta
      notify_file_waiter_def set_error_def Let_def split: option.splits)

lemma receiving_fold [simp]:
  "qs_receiving_file (fold (append_file_bytes E) ds s) = qs_receiving_file s"
  by (induction ds arbitrary: s) simp_all

text \<open>\<open>finish_file_receive\<close> in one step: the verdict, the acknowledgement, the result.\<close>

definition verdict_of :: "'c evp_api \<Rightarrow> quic_server \<Rightarrow> bool" where
  "verdict_of evp s = fst (verify_received evp (close_file_out s))"

definition result_of :: "'c evp_api \<Rightarrow> quic_server \<Rightarrow> file_receive_result" where
  "result_of evp s = snd (verify_received evp (close_file_out s))"

definition ack_send :: "'c evp_api \<Rightarrow> server_env \<Rightarrow> handle \<Rightarrow> quic_server \<Rightarrow> bool \<times> quic_io" where
  "ack_send evp E h s = stream_send_copy (env_send E) (Some h)
     (if verdict_of evp s then msg_ok else msg_fail) True (qs_io s)"

lemma finish_eq:
  "finish_file_receive evp E h s =
     (if fst (ack_send evp E h s)
      then (close_file_out s)\<lparr>
             qs_file_result := (result_of evp s)\<lparr>frr_success := verdict_of evp s\<rparr>,
             qs_sending_final_ack := True, qs_io := snd (ack_send evp E h s)\<rparr>
      else (close_file_out s)\<lparr>qs_file_done := True, qs_file_ok := False,
             qs_sending_final_ack := False,
             qs_file_result := (result_of evp s)\<lparr>frr_success := False\<rparr>,
             qs_io := snd (ack_send evp E h s)\<rparr>)"
  by (auto simp: finish_file_receive_def send_file_ack_def server_send_def verdict_of_def
      result_of_def ack_send_def notify_file_waiter_def Let_def split: prod.splits)

lemma finish_frame [simp]:
  "qs_has_offer (finish_file_receive evp E h s) = qs_has_offer s"
  "qs_file_accepted (finish_file_receive evp E h s) = qs_file_accepted s"
  "qs_files (finish_file_receive evp E h s) = qs_files s"
  "qs_header_parsed (finish_file_receive evp E h s) = qs_header_parsed s"
  "qs_file_header (finish_file_receive evp E h s) = qs_file_header s"
  "qs_receive_buffer (finish_file_receive evp E h s) = qs_receive_buffer s"
  "qs_output_path (finish_file_receive evp E h s) = qs_output_path s"
  "qs_io_error (finish_file_receive evp E h s) = qs_io_error s"
  "qs_overflow (finish_file_receive evp E h s) = qs_overflow s"
  "qs_bytes_written (finish_file_receive evp E h s) = qs_bytes_written s"
  "qs_offer_ready (finish_file_receive evp E h s) = qs_offer_ready s"
  "qs_file_out (finish_file_receive evp E h s) = map_option os_close (qs_file_out s)"
  "qs_receiving_file (finish_file_receive evp E h s) = qs_receiving_file s"
  "qs_client_connection (finish_file_receive evp E h s) = qs_client_connection s"
  by (simp_all add: finish_eq)

lemma aborted_frame [simp]:
  "qs_has_offer (peer_aborted s) = qs_has_offer s"
  "qs_file_accepted (peer_aborted s) = qs_file_accepted s"
  "qs_files (peer_aborted s) = qs_files s"
  "qs_header_parsed (peer_aborted s) = qs_header_parsed s"
  "qs_file_header (peer_aborted s) = qs_file_header s"
  "qs_receive_buffer (peer_aborted s) = qs_receive_buffer s"
  "qs_output_path (peer_aborted s) = qs_output_path s"
  "qs_io_error (peer_aborted s) = qs_io_error s"
  "qs_overflow (peer_aborted s) = qs_overflow s"
  "qs_bytes_written (peer_aborted s) = qs_bytes_written s"
  "qs_offer_ready (peer_aborted s) = qs_offer_ready s"
  "qs_receiving_file (peer_aborted s) = qs_receiving_file s"
  "qs_client_connection (peer_aborted s) = qs_client_connection s"
  by (simp_all add: peer_aborted_def notify_file_waiter_def set_error_def Let_def)

lemma stream_event_no_accept:
  "qs_has_offer s \<Longrightarrow> \<not> qs_file_accepted s \<Longrightarrow>
   qs_has_offer (on_stream_event evp E h ev s) \<and> \<not> qs_file_accepted (on_stream_event evp E h ev s)
   \<and> qs_files (on_stream_event evp E h ev s) = qs_files s"
  by (cases ev) (simp_all add: on_stream_event_def has_offer_no_accept_fold
      notify_file_waiter_def api_call_def Let_def)

lemma connection_event_no_accept:
  "qs_has_offer s \<Longrightarrow> \<not> qs_file_accepted s \<Longrightarrow>
   qs_has_offer (on_connection_event c ev s) \<and> \<not> qs_file_accepted (on_connection_event c ev s)
   \<and> qs_files (on_connection_event c ev s) = qs_files s"
  by (cases ev) (simp_all add: on_connection_event_def api_call_def Let_def)

lemma listener_event_frame [simp]:
  "qs_has_offer (snd (on_listener_event ok ev s)) = qs_has_offer s"
  "qs_file_accepted (snd (on_listener_event ok ev s)) = qs_file_accepted s"
  "qs_files (snd (on_listener_event ok ev s)) = qs_files s"
  by (cases ev; simp add: on_listener_event_def api_call_def)+

text \<open>A callback never marks a transfer as rejected, and never takes the mark away.\<close>

lemma rejected_append_body [simp]:
  "frr_rejected (qs_file_result (append_body_bytes E d s)) = frr_rejected (qs_file_result s)"
  by (simp add: append_body_bytes_def server_defs Let_def split: option.splits)

lemma rejected_append [simp]:
  "frr_rejected (qs_file_result (append_file_bytes E d s)) = frr_rejected (qs_file_result s)"
proof (cases "qs_header_parsed s")
  case True
  then show ?thesis by (simp add: append_file_bytes_def)
next
  case False
  let ?s = "s\<lparr>qs_receive_buffer := qs_receive_buffer s @ d\<rparr>"
  have o: "frr_rejected (qs_file_result (snd (open_output_file E x))) = frr_rejected (qs_file_result x)" for x
    by (simp add: open_output_file_def set_error_def)
  show ?thesis
  proof (cases "decode_opt (qs_receive_buffer ?s)")
    case None
    with False show ?thesis
      by (simp add: append_file_bytes_def try_parse_cases server_defs)
  next
    case (Some p)
    obtain h n where p: "p = (h, n)" by (cases p)
    obtain ok s3 where s3: "open_output_file E (with_header h ?s) = (ok, s3)"
      by (cases "open_output_file E (with_header h ?s)")
    have "frr_rejected (qs_file_result s3) = frr_rejected (qs_file_result s)"
      using o [of "with_header h ?s"] by (simp add: s3)
    with False Some p s3 show ?thesis
      by (simp add: append_file_bytes_def try_parse_cases auto_accepted_def Let_def)
  qed
qed

lemma rejected_fold [simp]:
  "frr_rejected (qs_file_result (fold (append_file_bytes E) ds s)) = frr_rejected (qs_file_result s)"
  by (induction ds arbitrary: s) simp_all

lemma rejected_verify: "frr_rejected (snd (verify_received evp s)) = frr_rejected (qs_file_result s)"
  by (simp add: verify_received_def Let_def split: prod.splits)

lemma rejected_stream_event [simp]:
  "frr_rejected (qs_file_result (on_stream_event evp E h ev s)) = frr_rejected (qs_file_result s)"
  by (cases ev) (simp_all add: on_stream_event_def finish_eq result_of_def rejected_verify
      peer_aborted_def notify_file_waiter_def set_error_def api_call_def Let_def)

lemma connection_event_frame [simp]:
  "qs_file_result (on_connection_event c ev s) = qs_file_result s"
  "qs_file_done (on_connection_event c ev s) = qs_file_done s"
  "qs_file_ok (on_connection_event c ev s) = qs_file_ok s"
  "qs_has_offer (on_connection_event c ev s) = qs_has_offer s"
  "qs_files (on_connection_event c ev s) = qs_files s"
  "qs_file_header (on_connection_event c ev s) = qs_file_header s"
  "qs_output_path (on_connection_event c ev s) = qs_output_path s"
  by (cases ev; simp add: on_connection_event_def api_call_def Let_def)+

lemma listener_event_frame2 [simp]:
  "qs_file_result (snd (on_listener_event ok ev s)) = qs_file_result s"
  "qs_file_done (snd (on_listener_event ok ev s)) = qs_file_done s"
  "qs_file_ok (snd (on_listener_event ok ev s)) = qs_file_ok s"
  "qs_file_header (snd (on_listener_event ok ev s)) = qs_file_header s"
  "qs_output_path (snd (on_listener_event ok ev s)) = qs_output_path s"
  by (cases ev; simp add: on_listener_event_def api_call_def)+

end
