(* ===== verification/Server_Session.thy ===== *)
theory Server_Session
  imports Server_Facts
begin

text \<open>
  \<open>QuicServer::receive_file\<close> and its interleaving with the callbacks. The blocked caller
  is a program counter; every step is either a callback of msquic, on any stream or
  connection, or one step of the caller: waking from a wait, a wait that times out, the
  user's answer, sending ACCEPT. The steps of the caller between two points where it
  releases the mutex are one step. The relation leaves the order of steps, and the
  environment of each, open.
\<close>

section \<open>Starting\<close>

text \<open>\<open>is_dir\<close> is \<open>std::filesystem::is_directory\<close>. The directories that
  \<open>receive_file\<close> creates are not part of the file map; whether a file can be opened is up
  to the environment.\<close>

definition looks_like_dir :: "(path \<Rightarrow> bool) \<Rightarrow> path \<Rightarrow> bool" where
  "looks_like_dir is_dir p \<longleftrightarrow>
     p = [] \<or> last p = CHR ''/'' \<or> last p = CHR 0x5C \<or> is_dir p"

definition receive_begin ::
  "(path \<Rightarrow> bool) \<Rightarrow> path \<Rightarrow> bool \<Rightarrow> bool \<Rightarrow> quic_server \<Rightarrow> quic_server" where
  "receive_begin is_dir output_path has_offer has_progress s =
     (let d = looks_like_dir is_dir output_path
      in s\<lparr>qs_receiving_file := True, qs_output_is_dir := d,
           qs_output_dir := (if d then output_path else []),
           qs_output_path := (if d then [] else output_path),
           qs_has_offer := has_offer, qs_has_progress := has_progress,
           qs_offer_ready := False, qs_file_accepted := False, qs_sending_final_ack := False,
           qs_header_parsed := False, qs_io_error := False, qs_overflow := False,
           qs_bytes_written := 0, qs_file_done := False, qs_file_ok := False,
           qs_file_result := empty_result, qs_receive_buffer := [], qs_file_out := None\<rparr>)"

interpretation file_waiter:
  waiter "receive_begin is_dir p o_flag g" notify_file_waiter qs_file_done qs_file_ok
  by unfold_locales (simp_all add: receive_begin_def notify_file_waiter_def Let_def)

section \<open>Steps\<close>

datatype receive_pc =
    Rf_wait_offer
  | Rf_prompt file_transfer_header
  | Rf_accepting
  | Rf_wait_done
  | Rf_drain bool
  | Rf_returned bool

datatype session_label =
    L_stream handle stream_event
  | L_connection handle connection_event
  | L_listener listener_event
  | L_wake
  | L_timeout
  | L_answer bool
  | L_send_accept

definition receive_start ::
  "(path \<Rightarrow> bool) \<Rightarrow> path \<Rightarrow> bool \<Rightarrow> bool \<Rightarrow> quic_server \<Rightarrow> receive_pc \<times> quic_server" where
  "receive_start is_dir p has_offer has_progress s =
     (if has_offer then Rf_wait_offer else Rf_wait_done,
      receive_begin is_dir p has_offer has_progress s)"

definition stop_receiving :: "quic_server \<Rightarrow> quic_server" where
  "stop_receiving s = s\<lparr>qs_receiving_file := False\<rparr>"

definition reject_offer :: "server_env \<Rightarrow> quic_server \<Rightarrow> quic_server" where
  "reject_offer E s =
     (let s1 = snd (server_send E (qs_file_stream s) msg_reject True s)
      in s1\<lparr>qs_file_result := (qs_file_result s1)\<lparr>frr_rejected := True,
                                frr_error := ''rejected by receiver''\<rparr>\<rparr>)"

definition accept_offer :: "server_env \<Rightarrow> quic_server \<Rightarrow> receive_pc \<times> quic_server" where
  "accept_offer E s =
     (case open_output_file E s of
        (opened, s1) \<Rightarrow>
          if \<not> opened then (Rf_drain False, snd (server_send E (qs_file_stream s1) msg_reject True s1))
          else (Rf_accepting, s1\<lparr>qs_file_accepted := True\<rparr>))"

inductive session_step ::
  "'c evp_api \<Rightarrow> receive_pc \<times> quic_server \<Rightarrow> session_label \<Rightarrow> receive_pc \<times> quic_server \<Rightarrow> bool"
  for evp where
  stream_callback:
    "session_step evp (pc, s) (L_stream h ev) (pc, on_stream_event evp E h ev s)"
| connection_callback:
    "session_step evp (pc, s) (L_connection c cev) (pc, on_connection_event c cev s)"
| listener_callback:
    "session_step evp (pc, s) (L_listener lev) (pc, snd (on_listener_event ok lev s))"
| offer_timeout:
    "\<not> qs_offer_ready s \<Longrightarrow> \<not> qs_file_done s \<Longrightarrow>
     session_step evp (Rf_wait_offer, s) L_timeout (Rf_returned False, stop_receiving s)"
| offer_aborted:
    "qs_file_done s \<Longrightarrow>
     session_step evp (Rf_wait_offer, s) L_wake (Rf_returned False, stop_receiving s)"
| offer_arrived:
    "qs_offer_ready s \<Longrightarrow> \<not> qs_file_done s \<Longrightarrow>
     session_step evp (Rf_wait_offer, s) L_wake (Rf_prompt (qs_file_header s), s)"
| answer_no:
    "session_step evp (Rf_prompt h, s) (L_answer False) (Rf_drain False, reject_offer E s)"
| answer_yes:
    "session_step evp (Rf_prompt h, s) (L_answer True) (accept_offer E s)"
| send_accept:
    "session_step evp (Rf_accepting, s) L_send_accept
       (Rf_wait_done, snd (server_send E (qs_file_stream s) msg_accept False s))"
| done_timeout:
    "\<not> qs_file_done s \<Longrightarrow>
     session_step evp (Rf_wait_done, s) L_timeout
       (Rf_returned False, stop_receiving (close_file_out s))"
| done_failed:
    "qs_file_done s \<Longrightarrow> \<not> qs_file_ok s \<Longrightarrow>
     session_step evp (Rf_wait_done, s) L_wake
       (Rf_returned False, stop_receiving (close_file_out s))"
| done_ok:
    "qs_file_done s \<Longrightarrow> qs_file_ok s \<Longrightarrow>
     session_step evp (Rf_wait_done, s) L_wake (Rf_drain True, s)"
| drained:
    "qs_client_connection s = None \<Longrightarrow>
     session_step evp (Rf_drain b, s) L_wake (Rf_returned b, stop_receiving s)"
| drain_timeout:
    "session_step evp (Rf_drain b, s) L_timeout (Rf_returned b, stop_receiving s)"

text \<open>A run of the session with its labels.\<close>

inductive session_run ::
  "'c evp_api \<Rightarrow> receive_pc \<times> quic_server \<Rightarrow> session_label list \<Rightarrow> receive_pc \<times> quic_server \<Rightarrow> bool"
  for evp where
  run_nil: "session_run evp x [] x"
| run_step: "session_step evp x l y \<Longrightarrow> session_run evp y ls z \<Longrightarrow> session_run evp x (l # ls) z"

inductive_simps run_nil_simps [simp]: "session_run evp x [] y"
inductive_cases run_consE: "session_run evp x (l # ls) z"
inductive_cases step_streamE: "session_step evp (pc, s) (L_stream h ev) y"
inductive_cases step_promptE: "session_step evp (Rf_prompt h, s) l y"

text \<open>An invariant of the steps holds along runs.\<close>

lemma run_invariant:
  assumes "session_run evp x ls y" and "P x"
    and "\<And>x l y. session_step evp x l y \<Longrightarrow> l \<in> set ls \<Longrightarrow> P x \<Longrightarrow> P y"
  shows "P y"
  using assms by (induction rule: session_run.induct) auto

section \<open>The session invariant\<close>

text \<open>Before the user has answered, no transfer is accepted.\<close>

definition undecided :: "receive_pc \<Rightarrow> bool" where
  "undecided pc \<longleftrightarrow> (case pc of Rf_wait_offer \<Rightarrow> True | Rf_prompt h \<Rightarrow> True | _ \<Rightarrow> False)"

lemma undecided_simps [simp]:
  "undecided Rf_wait_offer" "undecided (Rf_prompt h)" "\<not> undecided Rf_accepting"
  "\<not> undecided Rf_wait_done" "\<not> undecided (Rf_drain b)" "\<not> undecided (Rf_returned b)"
  by (simp_all add: undecided_def)

definition session_inv :: "receive_pc \<times> quic_server \<Rightarrow> bool" where
  "session_inv x \<longleftrightarrow> server_inv (snd x)
     \<and> (undecided (fst x) \<longrightarrow> qs_has_offer (snd x) \<and> \<not> qs_file_accepted (snd x))"

lemma server_inv_stop [simp]: "server_inv (stop_receiving s) = server_inv s"
  by (simp add: server_inv_def stop_receiving_def)

lemma session_inv_start: "session_inv (receive_start is_dir p ofr g s)"
  by (auto simp: session_inv_def receive_start_def receive_begin_def server_inv_def Let_def)

lemma accept_offer_inv:
  assumes "server_inv s" and "\<not> qs_file_accepted s"
  shows "session_inv (accept_offer E s)"
proof -
  have w: "qs_bytes_written s = 0" using assms by (simp add: server_inv_def)
  obtain ok s1 where o: "open_output_file E s = (ok, s1)" by (cases "open_output_file E s")
  from server_inv_open [OF assms(1) w o] show ?thesis
    by (simp add: accept_offer_def o session_inv_def server_inv_accept)
qed

lemma session_inv_step: "session_step evp x l y \<Longrightarrow> session_inv x \<Longrightarrow> session_inv y"
proof (induction rule: session_step.induct)
  case (answer_yes h s E)
  then show ?case by (simp add: session_inv_def [of "(Rf_prompt h, s)"] accept_offer_inv)
qed (auto simp: session_inv_def server_inv_stream_event server_inv_connection_event
      server_inv_listener_event stream_event_no_accept connection_event_no_accept
      reject_offer_def Let_def)

lemma session_inv_run: "session_run evp x ls y \<Longrightarrow> session_inv x \<Longrightarrow> session_inv y"
  by (erule run_invariant) (auto intro: session_inv_step)

end
