(* ===== verification/Server_Stream.thy ===== *)
theory Server_Stream
  imports Server_Session
begin

text \<open>
  What one well-behaved stream makes of the receiver, against an abstract specification.
  A receiver that accepts automatically is armed and a stream starts; the peer sends an
  encoded header and a body, cut into QUIC buffers in any way, then FIN. The lemmas follow
  the stream: bytes in front of a complete header only wait in the buffer, the piece that
  completes it opens the file, and from then on the file holds the body received so far,
  up to the declared size.
\<close>

section \<open>Hashing the file\<close>

definition file_hash :: "'c evp_api \<Rightarrow> files \<Rightarrow> path \<Rightarrow> bytes option" where
  "file_hash evp fs p =
     (case sha256_file evp fs p [] 0 of (ok, hex, _) \<Rightarrow> if ok then Some hex else None)"

lemma sha256_file_hash:
  "sha256_file evp fs p out live =
     (case file_hash evp fs p of None \<Rightarrow> (False, out, live) | Some x \<Rightarrow> (True, x, live))"
  by (auto simp: file_hash_def sha256_file_def Let_def split: option.splits)

lemma verify_true:
  "fst (verify_received evp s) \<longleftrightarrow>
     \<not> qs_io_error s \<and> qs_header_parsed s \<and> qs_file_out s \<noteq> None \<and> \<not> qs_overflow s
     \<and> qs_bytes_written s = fth_size (qs_file_header s)
     \<and> file_hash evp (qs_files s) (qs_output_path s) = Some (fth_sha256_hex (qs_file_header s))"
  by (auto simp: verify_received_def sha256_file_hash Let_def split: option.splits)

lemma verify_report:
  assumes "fst (verify_received evp s)"
  shows "snd (verify_received evp s) = (qs_file_result s)\<lparr>frr_path := qs_output_path s,
           frr_bytes_received := qs_bytes_written s,
           frr_expected_hash := fth_sha256_hex (qs_file_header s),
           frr_computed_hash := fth_sha256_hex (qs_file_header s)\<rparr>"
  using assms unfolding verify_true by (auto simp: verify_received_def sha256_file_hash)

section \<open>The specification\<close>

text \<open>A transfer is good when the body has the declared length and the declared hash.\<close>

definition receive_spec :: "'c evp_api \<Rightarrow> file_transfer_header \<Rightarrow> bytes \<Rightarrow> bool" where
  "receive_spec evp h body \<longleftrightarrow> length body = unat (fth_size h)
     \<and> sha256_bytes evp body [] 0 = (True, fth_sha256_hex h, 0)"

section \<open>Receiving the body\<close>

definition body_state :: "bytes \<Rightarrow> quic_server \<Rightarrow> bool" where
  "body_state B s \<longleftrightarrow> qs_header_parsed s \<and> qs_file_accepted s \<and> \<not> qs_io_error s
     \<and> qs_file_out s = Some \<lparr>os_path = qs_output_path s, os_is_open = True\<rparr>
     \<and> qs_files s (qs_output_path s) = Some (take (unat (fth_size (qs_file_header s))) B)
     \<and> unat (qs_bytes_written s) = min (length B) (unat (fth_size (qs_file_header s)))
     \<and> (qs_overflow s \<longleftrightarrow> unat (fth_size (qs_file_header s)) < length B)"

lemma body_room:
  assumes "unat (qs_bytes_written s) = min n (unat (fth_size (qs_file_header s)))"
    and "m < 18446744073709551616"
  shows "unat (body_to_write s m) = min m (unat (fth_size (qs_file_header s)) - n)"
    and "body_overflows s m \<longleftrightarrow> unat (fth_size (qs_file_header s)) - n < m"
proof -
  let ?size = "fth_size (qs_file_header s)" and ?w = "qs_bytes_written s"
  have le: "?w \<le> ?size" using assms(1) by (simp add: word_le_nat_alt)
  then have rem: "unat (?size - ?w) = unat ?size - n"
    using assms(1) by (simp add: unat_sub)
  have m: "unat (of_nat m :: u64) = m" by (rule unat_of_nat_u64 [OF assms(2)])
  show over: "body_overflows s m \<longleftrightarrow> unat ?size - n < m"
    by (simp add: body_overflows_def word_less_nat_alt rem m)
  show "unat (body_to_write s m) = min m (unat ?size - n)"
    using over by (simp add: body_to_write_def rem m)
qed

lemma body_state_append:
  assumes B: "body_state B s" and E: "env_write E = (\<lambda>_. True)"
    and d: "length d < 18446744073709551616"
  shows "body_state (B @ d) (append_body_bytes E d s)"
proof (cases "d = []")
  case True
  then show ?thesis using B append_body_idle [of s d E] by simp
next
  case False
  let ?size = "unat (fth_size (qs_file_header s))" and ?t = "body_to_write s (length d)"
  have w: "unat (qs_bytes_written s) = min (length B) ?size" using B by (simp add: body_state_def)
  note room = body_room [OF w d]
  have le: "qs_bytes_written s \<le> fth_size (qs_file_header s)" using w by (simp add: word_le_nat_alt)
  have count: "unat (qs_bytes_written s + ?t) = min (length (B @ d)) ?size"
    using body_to_write_bounds(3) [OF le] w room(1) by simp
  have written: "take ?size B @ take (unat ?t) d = take ?size (B @ d)"
    by (simp add: room(1) min_def)
  have zero: "\<not> ?t > 0 \<Longrightarrow> take ?size (B @ d) = take ?size B"
    using written by (simp add: word_neq_0_conv [symmetric] del: take_append)
  have zero_w: "\<not> ?t > 0 \<Longrightarrow> min (length B + length d) ?size = min (length B) ?size"
    using count w by (simp add: word_neq_0_conv [symmetric])
  show ?thesis
    using B False E room(2) count written zero zero_w
    by (auto simp: append_body_bytes_def body_state_def file_out_open_def write_out_def
        file_extend_def Let_def simp del: take_append)
qed

lemma append_parsed: "qs_header_parsed s \<Longrightarrow> append_file_bytes E d s = append_body_bytes E d s"
  by (simp add: append_file_bytes_def)

text \<open>The fields a stream of body bytes leaves alone.\<close>

definition same_session :: "quic_server \<Rightarrow> quic_server \<Rightarrow> bool" where
  "same_session s t \<longleftrightarrow> qs_file_header s = qs_file_header t \<and> qs_output_path s = qs_output_path t
     \<and> qs_receiving_file s = qs_receiving_file t \<and> qs_file_done s = qs_file_done t
     \<and> qs_file_stream s = qs_file_stream t \<and> qs_io s = qs_io t
     \<and> qs_sending_final_ack s = qs_sending_final_ack t \<and> qs_receive_buffer s = qs_receive_buffer t
     \<and> qs_client_connection s = qs_client_connection t"

lemma body_state_fold:
  "body_state B s \<Longrightarrow> env_write E = (\<lambda>_. True) \<Longrightarrow>
   \<forall>d \<in> set ds. length d < 4294967296 \<Longrightarrow>
   body_state (B @ concat ds) (fold (append_file_bytes E) ds s)
   \<and> same_session (fold (append_file_bytes E) ds s) s"
proof (induction ds arbitrary: B s)
  case Nil
  then show ?case by (simp add: same_session_def)
next
  case (Cons d ds)
  have p: "qs_header_parsed s" using Cons.prems(1) by (simp add: body_state_def)
  have "body_state (B @ d) (append_body_bytes E d s)"
    using Cons.prems by (intro body_state_append) auto
  from Cons.IH [OF this Cons.prems(2)] Cons.prems(3) show ?case
    by (simp add: append_parsed [OF p] same_session_def)
qed

section \<open>Receiving the header\<close>

lemma append_waits:
  assumes "\<not> qs_header_parsed s" and "decode_opt (qs_receive_buffer s @ d) = None"
    and "length (qs_receive_buffer s @ d) \<le> k_max_header_bytes"
  shows "append_file_bytes E d s = s\<lparr>qs_receive_buffer := qs_receive_buffer s @ d\<rparr>"
  using assms by (simp add: append_file_bytes_def try_parse_cases)

text \<open>A receiver that waits for a header: the part of the session that matters.\<close>

definition awaiting_header :: "handle \<Rightarrow> quic_server \<Rightarrow> bool" where
  "awaiting_header st s \<longleftrightarrow> \<not> qs_header_parsed s \<and> \<not> qs_has_offer s \<and> \<not> qs_io_error s
     \<and> \<not> qs_overflow s \<and> qs_bytes_written s = 0 \<and> qs_file_stream s = Some st
     \<and> qs_receiving_file s \<and> \<not> qs_file_done s"

text \<open>Where the file goes.\<close>

definition target_path :: "quic_server \<Rightarrow> file_transfer_header \<Rightarrow> path" where
  "target_path s h = (if qs_output_is_dir s then path_append (qs_output_dir s) (fth_name h)
                      else qs_output_path s)"

lemma append_completes:
  assumes a: "awaiting_header st s" and wf: "wf_header h"
    and eq: "qs_receive_buffer s @ d = encode_file_header h @ b"
    and short: "length (qs_receive_buffer s) < length (encode_file_header h)"
    and d: "length d < 4294967296"
    and E: "env_open E = (\<lambda>_. True)" "env_write E = (\<lambda>_. True)"
  defines "s' \<equiv> append_file_bytes E d s"
  shows "body_state b s'" and "qs_file_header s' = h" and "qs_output_path s' = target_path s h"
    and "qs_receive_buffer s' = []" and "qs_file_stream s' = Some st" and "qs_receiving_file s'"
    and "\<not> qs_file_done s'" and "qs_sending_final_ack s' = qs_sending_final_ack s"
    and "qs_io s' = snd (stream_send_copy (env_send E) (Some st) msg_accept False (qs_io s))"
    and "qs_client_connection s' = qs_client_connection s"
proof -
  have dec: "decode_opt (qs_receive_buffer s @ d) = Some (h, length (encode_file_header h))"
    unfolding eq by (rule wire.dec_enc [OF wf])
  have "length (qs_receive_buffer s) + length d = length (encode_file_header h) + length b"
    using arg_cong [OF eq, of length] by simp
  then have b32: "length b < 4294967296" using short d by simp
  let ?s1 = "with_header h (s\<lparr>qs_receive_buffer := qs_receive_buffer s @ d\<rparr>)"
  have path: "qs_output_path (with_header h (s\<lparr>qs_receive_buffer := x\<rparr>)) = target_path s h" for x
    by (simp add: with_header_def target_path_def Let_def)
  define s3 where "s3 = snd (open_output_file E ?s1)"
  define s5 where "s5 = snd (server_send E (Some st) msg_accept False (s3\<lparr>qs_file_accepted := True\<rparr>))"
  have o: "open_output_file E ?s1 = (True, s3)"
    by (simp add: s3_def open_output_file_def E)
  have f3: "qs_file_stream s3 = Some st" "qs_receive_buffer s3 = encode_file_header h @ b"
    "qs_output_path s3 = target_path s h" "qs_io s3 = qs_io s"
    using a by (simp_all add: s3_def path awaiting_header_def eq)
  have s5: "body_state [] s5"
    using a path by (simp add: s5_def s3_def body_state_def open_output_file_def E
        file_truncate_def awaiting_header_def)
  have "append_file_bytes E d s = auto_accepted E (length (encode_file_header h)) s3"
    using a dec o by (simp add: append_file_bytes_def try_parse_cases awaiting_header_def)
  also have "\<dots> = (if b \<noteq> [] then append_body_bytes E (u32_part b) s5 else s5)\<lparr>qs_receive_buffer := []\<rparr>"
    using f3 by (simp add: auto_accepted_def s5_def Let_def)
  also have "\<dots> = (append_body_bytes E b s5)\<lparr>qs_receive_buffer := []\<rparr>"
    using append_body_idle [of s5 "[]" E] by (simp add: u32_part_small [OF b32])
  finally have eq': "s' = (append_body_bytes E b s5)\<lparr>qs_receive_buffer := []\<rparr>"
    by (simp add: s'_def)
  have "body_state ([] @ b) (append_body_bytes E b s5)"
    using b32 by (intro body_state_append s5 E) simp
  then show "body_state b s'" by (simp add: eq' body_state_def)
  show "qs_file_header s' = h" "qs_output_path s' = target_path s h" "qs_receive_buffer s' = []"
    "qs_file_stream s' = Some st" "qs_receiving_file s'" "\<not> qs_file_done s'"
    "qs_sending_final_ack s' = qs_sending_final_ack s"
    "qs_io s' = snd (stream_send_copy (env_send E) (Some st) msg_accept False (qs_io s))"
    "qs_client_connection s' = qs_client_connection s"
    using a f3 by (simp_all add: eq' s5_def s3_def path awaiting_header_def)
qed

section \<open>Any chunking\<close>

text \<open>Where a receiver is once it has all of a header and a body.\<close>

definition stream_received ::
  "server_env \<Rightarrow> handle \<Rightarrow> file_transfer_header \<Rightarrow> bytes \<Rightarrow> quic_server \<Rightarrow> quic_server \<Rightarrow> bool" where
  "stream_received E st h body s t \<longleftrightarrow> body_state body t \<and> qs_file_header t = h
     \<and> qs_output_path t = target_path s h \<and> qs_file_stream t = Some st \<and> qs_receiving_file t
     \<and> \<not> qs_file_done t \<and> qs_sending_final_ack t = qs_sending_final_ack s
     \<and> qs_io t = snd (stream_send_copy (env_send E) (Some st) msg_accept False (qs_io s))
     \<and> qs_client_connection t = qs_client_connection s"

lemma header_nonempty: "0 < length (encode_file_header h)"
  by (simp add: encode_file_header_def Let_def k_magic_def)

lemma stream_any_chunking:
  "awaiting_header st s \<Longrightarrow> wf_header h \<Longrightarrow>
   qs_receive_buffer s @ concat cs = encode_file_header h @ body \<Longrightarrow>
   length (qs_receive_buffer s) < length (encode_file_header h) \<Longrightarrow>
   length (encode_file_header h) \<le> k_max_header_bytes \<Longrightarrow>
   \<forall>c \<in> set cs. length c < 4294967296 \<Longrightarrow>
   env_open E = (\<lambda>_. True) \<Longrightarrow> env_write E = (\<lambda>_. True) \<Longrightarrow>
   stream_received E st h body s (fold (append_file_bytes E) cs s)"
proof (induction cs arbitrary: s)
  case Nil
  then have "length (encode_file_header h @ body) < length (encode_file_header h)"
    by (metis append_Nil2 concat.simps(1))
  then show ?case by simp
next
  case (Cons c cs)
  let ?buf = "qs_receive_buffer s @ c"
  have eq: "?buf @ concat cs = encode_file_header h @ body" using Cons.prems(3) by simp
  show ?case
  proof (cases "length (encode_file_header h) \<le> length ?buf")
    case True
    define b where "b = drop (length (encode_file_header h)) ?buf"
    have pre: "take (length (encode_file_header h)) ?buf = encode_file_header h"
      using arg_cong [OF eq, of "take (length (encode_file_header h))"] True by simp
    then have buf: "?buf = encode_file_header h @ b"
      unfolding b_def by (metis append_take_drop_id)
    then have body: "body = b @ concat cs" using eq by simp
    have c32: "length c < 4294967296" using Cons.prems(6) by simp
    note compl = append_completes [OF Cons.prems(1,2) buf Cons.prems(4) c32 Cons.prems(7,8)]
    have rest: "\<forall>c \<in> set cs. length c < 4294967296" using Cons.prems(6) by simp
    from body_state_fold [OF compl(1) Cons.prems(8) rest] compl body show ?thesis
      by (simp add: stream_received_def same_session_def)
  next
    case False
    then have wait: "decode_opt ?buf = None"
      by (intro wire.dec_incomplete [OF Cons.prems(2) eq]) simp
    let ?s = "s\<lparr>qs_receive_buffer := ?buf\<rparr>"
    have step: "append_file_bytes E c s = ?s"
      using Cons.prems(1,5) False wait
      by (intro append_waits) (simp_all add: awaiting_header_def)
    have "stream_received E st h body ?s (fold (append_file_bytes E) cs ?s)"
      using Cons.prems False eq by (intro Cons.IH) (simp_all add: awaiting_header_def)
    then show ?thesis by (simp add: step stream_received_def target_path_def)
  qed
qed

section \<open>FIN\<close>

lemma verdict_spec:
  assumes "evp_streaming evp" and "body_state body s"
  shows "verdict_of evp s \<longleftrightarrow> receive_spec evp (qs_file_header s) body"
proof -
  let ?h = "qs_file_header s"
  have out: "qs_file_out s \<noteq> None" "\<not> qs_io_error s" "qs_header_parsed s"
    using assms(2) by (simp_all add: body_state_def)
  have len: "\<not> qs_overflow s \<and> qs_bytes_written s = fth_size ?h \<longleftrightarrow> length body = unat (fth_size ?h)"
    using assms(2) by (auto simp: body_state_def word_unat_eq_iff)
  have free: "snd (snd (sha256_bytes evp body [] 0)) = 0"
    by (simp add: sha256_bytes_def Let_def split: option.splits)
  have hash: "file_hash evp (qs_files s) (qs_output_path s) = Some (fth_sha256_hex ?h)
      \<longleftrightarrow> sha256_bytes evp body [] 0 = (True, fth_sha256_hex ?h, 0)"
    if "length body = unat (fth_size ?h)"
  proof -
    have "file_contents (qs_files s) (qs_output_path s) = Some body"
      using assms(2) that by (simp add: body_state_def file_contents_def)
    from sha256_file_bytes [OF assms(1) this, of "[]" 0] free show ?thesis
      by (cases "sha256_bytes evp body [] 0") (auto simp: file_hash_def)
  qed
  show ?thesis
    using out len hash by (auto simp: verdict_of_def verify_true receive_spec_def)
qed

end
