(* ===== verification/Server_Guarantees.thy ===== *)
theory Server_Guarantees
  imports Server_Session
begin

text \<open>
  What the receiver guarantees under every interleaving: files change only where the caller
  asked for them, nothing is written before the user accepts, a header is buffered only up
  to its bound, and a transfer reported as good is one that was checked. Each guarantee is
  an invariant of the session's steps.
\<close>

section \<open>Confinement\<close>

text \<open>The paths a call of \<open>receive_file\<close> may write to.\<close>

definition allowed :: "(path \<Rightarrow> bool) \<Rightarrow> path \<Rightarrow> path \<Rightarrow> bool" where
  "allowed is_dir p q \<longleftrightarrow>
     (if looks_like_dir is_dir p then \<exists>n. safe_file_name n \<and> q = path_append p n else q = p)"

definition confined_server :: "(path \<Rightarrow> bool) \<Rightarrow> path \<Rightarrow> files \<Rightarrow> quic_server \<Rightarrow> bool" where
  "confined_server is_dir p F s \<longleftrightarrow>
     qs_output_is_dir s = looks_like_dir is_dir p
     \<and> (looks_like_dir is_dir p \<longrightarrow> qs_output_dir s = p)
     \<and> (\<not> looks_like_dir is_dir p \<longrightarrow> qs_output_path s = p)
     \<and> (qs_offer_ready s \<longrightarrow> allowed is_dir p (qs_output_path s))
     \<and> (\<forall>os. qs_file_out s = Some os \<longrightarrow> allowed is_dir p (os_path os))
     \<and> (\<forall>q. \<not> allowed is_dir p q \<longrightarrow> qs_files s q = F q)"

lemma confined_frame [simp]:
  "confined_server i p F (s\<lparr>qs_io := io\<rparr>) = confined_server i p F s"
  "confined_server i p F (s\<lparr>qs_file_result := r\<rparr>) = confined_server i p F s"
  "confined_server i p F (s\<lparr>qs_receive_buffer := b\<rparr>) = confined_server i p F s"
  "confined_server i p F (s\<lparr>qs_sending_final_ack := x\<rparr>) = confined_server i p F s"
  "confined_server i p F (s\<lparr>qs_client_connection := c\<rparr>) = confined_server i p F s"
  "confined_server i p F (s\<lparr>qs_file_accepted := x\<rparr>) = confined_server i p F s"
  "confined_server i p F (s\<lparr>qs_header_parsed := x\<rparr>) = confined_server i p F s"
  "confined_server i p F (s\<lparr>qs_io_error := x\<rparr>) = confined_server i p F s"
  "confined_server i p F (s\<lparr>qs_overflow := x\<rparr>) = confined_server i p F s"
  "confined_server i p F (s\<lparr>qs_progress := g\<rparr>) = confined_server i p F s"
  "confined_server i p F (s\<lparr>qs_bytes_written := w\<rparr>) = confined_server i p F s"
  "confined_server i p F (s\<lparr>qs_receiving_file := x\<rparr>) = confined_server i p F s"
  "confined_server i p F (s\<lparr>qs_file_done := x\<rparr>) = confined_server i p F s"
  "confined_server i p F (s\<lparr>qs_file_ok := x\<rparr>) = confined_server i p F s"
  "confined_server i p F (s\<lparr>qs_file_header := h\<rparr>) = confined_server i p F s"
  "confined_server i p F (set_error e s) = confined_server i p F s"
  "confined_server i p F (notify_file_waiter x s) = confined_server i p F s"
  "confined_server i p F (api_call k s) = confined_server i p F s"
  "confined_server i p F (close_file_out s) = confined_server i p F s"
  by (auto simp: confined_server_def server_defs split: option.splits)

lemma confined_write: "confined_server i p F s \<Longrightarrow> confined_server i p F (snd (write_out E d s))"
  by (auto simp: confined_server_def write_out_def file_extend_def split: option.splits)

lemma confined_append_body:
  "confined_server i p F s \<Longrightarrow> confined_server i p F (append_body_bytes E d s)"
  by (simp add: append_body_bytes_def confined_write case_prod_beta Let_def)

lemma confined_open:
  "confined_server i p F s \<Longrightarrow> allowed i p (qs_output_path s) \<Longrightarrow>
   confined_server i p F (snd (open_output_file E s))"
  by (auto simp: confined_server_def open_output_file_def set_error_def file_truncate_def)

lemma allowed_with_header:
  "confined_server i p F s \<Longrightarrow> wf_header h \<Longrightarrow> allowed i p (qs_output_path (with_header h s))"
  by (auto simp: confined_server_def allowed_def with_header_def wf_header_def Let_def)

lemma confined_with_header:
  "confined_server i p F s \<Longrightarrow> wf_header h \<Longrightarrow> confined_server i p F (with_header h s)"
  by (auto simp: confined_server_def with_header_def allowed_def wf_header_def Let_def)

lemma confined_try_parse:
  assumes c: "confined_server i p F s"
  shows "confined_server i p F (try_parse_file_header E s)"
proof (cases "qs_header_parsed s")
  case True
  then show ?thesis using c by (simp add: try_parse_file_header_def)
next
  case False
  show ?thesis
  proof (cases "decode_opt (qs_receive_buffer s)")
    case None
    with False c show ?thesis by (simp add: try_parse_cases)
  next
    case (Some d)
    obtain h n where d: "d = (h, n)" by (cases d)
    have wf: "wf_header h" using Some d by (auto simp: decode_opt_def dest!: decode_wf split: prod.splits if_splits)
    note hdr = confined_with_header [OF c wf] allowed_with_header [OF c wf]
    have offer: "confined_server i p F ((with_header h s)\<lparr>qs_offer_ready := True\<rparr>)"
      using hdr by (simp add: confined_server_def)
    obtain ok s3 where o: "open_output_file E (with_header h s) = (ok, s3)"
      by (cases "open_output_file E (with_header h s)")
    have "confined_server i p F s3" using confined_open [OF hdr, of E] by (simp add: o)
    with False Some d o offer show ?thesis
      by (simp add: try_parse_cases auto_accepted_def Let_def confined_append_body)
  qed
qed

lemma confined_fold:
  "confined_server i p F s \<Longrightarrow> confined_server i p F (fold (append_file_bytes E) ds s)"
  by (induction ds arbitrary: s)
    (simp_all add: append_file_bytes_def confined_try_parse confined_append_body)

lemma confined_stream_event:
  "confined_server i p F s \<Longrightarrow> confined_server i p F (on_stream_event evp E h ev s)"
  by (cases ev) (simp_all add: on_stream_event_def confined_fold finish_eq peer_aborted_def Let_def)

lemma confined_connection_event:
  "confined_server i p F s \<Longrightarrow> confined_server i p F (on_connection_event c ev s)"
  by (cases ev) (simp_all add: on_connection_event_def confined_server_def api_call_def Let_def)

lemma confined_listener_event:
  "confined_server i p F s \<Longrightarrow> confined_server i p F (snd (on_listener_event ok ev s))"
  by (cases ev) (simp_all add: on_listener_event_def)

text \<open>An offer, once made, stays until the next call.\<close>

lemma offer_stays_append: "qs_offer_ready s \<Longrightarrow> qs_offer_ready (append_file_bytes E d s)"
  by (simp add: append_file_bytes_def try_parse_file_header_def notify_file_waiter_def set_error_def
      case_prod_beta Let_def)

lemma offer_stays_fold: "qs_offer_ready s \<Longrightarrow> qs_offer_ready (fold (append_file_bytes E) ds s)"
  by (induction ds arbitrary: s) (simp_all add: offer_stays_append)

lemma offer_stays_stream_event: "qs_offer_ready s \<Longrightarrow> qs_offer_ready (on_stream_event evp E h ev s)"
  by (cases ev) (simp_all add: on_stream_event_def offer_stays_fold notify_file_waiter_def
      api_call_def Let_def)

lemma offer_stays_connection_event: "qs_offer_ready s \<Longrightarrow> qs_offer_ready (on_connection_event c ev s)"
  by (cases ev) (simp_all add: on_connection_event_def api_call_def Let_def)

lemma offer_stays_listener_event: "qs_offer_ready s \<Longrightarrow> qs_offer_ready (snd (on_listener_event ok ev s))"
  by (cases ev) (simp_all add: on_listener_event_def api_call_def)

definition confined :: "(path \<Rightarrow> bool) \<Rightarrow> path \<Rightarrow> files \<Rightarrow> receive_pc \<times> quic_server \<Rightarrow> bool" where
  "confined is_dir p F x \<longleftrightarrow> confined_server is_dir p F (snd x)
     \<and> (\<forall>h. fst x = Rf_prompt h \<longrightarrow> qs_offer_ready (snd x))"

lemma confined_start: "confined is_dir p (qs_files s) (receive_start is_dir p ofr g s)"
  by (simp add: confined_def confined_server_def receive_start_def receive_begin_def Let_def)

lemma confined_accept:
  assumes "confined_server is_dir p F s" and "qs_offer_ready s"
  shows "confined is_dir p F (accept_offer E s)"
proof -
  have "confined_server is_dir p F (snd (open_output_file E s))"
    using assms by (intro confined_open) (auto simp: confined_server_def)
  then show ?thesis by (simp add: accept_offer_def confined_def case_prod_beta)
qed

lemma confined_step: "session_step evp x l y \<Longrightarrow> confined i p F x \<Longrightarrow> confined i p F y"
proof (induction rule: session_step.induct)
  case (answer_yes h s E)
  then show ?case by (simp add: confined_def [of _ _ _ "(Rf_prompt h, s)"] confined_accept)
qed (auto simp: confined_def confined_stream_event confined_connection_event
      confined_listener_event offer_stays_stream_event offer_stays_connection_event
      offer_stays_listener_event reject_offer_def stop_receiving_def Let_def)

lemma confined_run: "session_run evp x ls y \<Longrightarrow> confined i p F x \<Longrightarrow> confined i p F y"
  by (erule run_invariant) (auto intro: confined_step)

section \<open>Nothing is written before the user accepts\<close>

text \<open>No answer yet, or a rejection: the files are the ones at the start.\<close>

definition unanswered :: "receive_pc \<times> quic_server \<Rightarrow> bool" where
  "unanswered x \<longleftrightarrow> undecided (fst x) \<or> frr_rejected (qs_file_result (snd x))"

definition untouched :: "files \<Rightarrow> receive_pc \<times> quic_server \<Rightarrow> bool" where
  "untouched F x \<longleftrightarrow>
     (unanswered x \<longrightarrow> qs_has_offer (snd x) \<and> \<not> qs_file_accepted (snd x) \<and> qs_files (snd x) = F)
     \<and> (frr_rejected (qs_file_result (snd x)) \<longrightarrow>
          fst x = Rf_drain False \<or> fst x = Rf_returned False)"

lemma untouched_start: "untouched (qs_files s) (receive_start is_dir p True g s)"
  by (simp add: untouched_def unanswered_def receive_start_def receive_begin_def empty_result_def Let_def)

lemma rejected_open [simp]:
  "frr_rejected (qs_file_result (snd (open_output_file E s))) = frr_rejected (qs_file_result s)"
  by (simp add: open_output_file_def set_error_def)

lemma untouched_step: "session_step evp x l y \<Longrightarrow> untouched F x \<Longrightarrow> untouched F y"
proof (induction rule: session_step.induct)
  case (answer_yes h s E)
  then show ?case
    by (auto simp: untouched_def unanswered_def accept_offer_def case_prod_beta)
qed (auto simp: untouched_def unanswered_def stream_event_no_accept connection_event_no_accept
      reject_offer_def stop_receiving_def Let_def)

lemma untouched_run: "session_run evp x ls y \<Longrightarrow> untouched F x \<Longrightarrow> untouched F y"
  by (erule run_invariant) (auto intro: untouched_step)

section \<open>The header buffer is bounded\<close>

definition buffer_bounded :: "quic_server \<Rightarrow> bool" where
  "buffer_bounded s \<longleftrightarrow> length (qs_receive_buffer s) \<le> k_max_header_bytes"

lemma buffer_bounded_append: "buffer_bounded s \<Longrightarrow> buffer_bounded (append_file_bytes E d s)"
  by (cases "qs_header_parsed s")
    (auto simp: buffer_bounded_def append_file_bytes_def try_parse_cases notify_file_waiter_def
      auto_accepted_def case_prod_beta Let_def split: option.splits)

lemma buffer_bounded_fold: "buffer_bounded s \<Longrightarrow> buffer_bounded (fold (append_file_bytes E) ds s)"
  by (induction ds arbitrary: s) (simp_all add: buffer_bounded_append)

lemma buffer_bounded_stream_event:
  "buffer_bounded s \<Longrightarrow> buffer_bounded (on_stream_event evp E h ev s)"
proof (cases ev)
  case (Receive bufs)
  moreover assume "buffer_bounded s"
  ultimately show ?thesis by (simp add: on_stream_event_def buffer_bounded_fold)
qed (simp_all add: on_stream_event_def buffer_bounded_def notify_file_waiter_def api_call_def Let_def)

lemma buffer_bounded_connection_event:
  "buffer_bounded s \<Longrightarrow> buffer_bounded (on_connection_event c ev s)"
  by (cases ev) (simp_all add: on_connection_event_def buffer_bounded_def api_call_def Let_def)

lemma buffer_bounded_listener_event:
  "buffer_bounded s \<Longrightarrow> buffer_bounded (snd (on_listener_event ok ev s))"
  by (cases ev) (simp_all add: on_listener_event_def buffer_bounded_def api_call_def)

lemma buffer_bounded_step:
  "session_step evp x l y \<Longrightarrow> buffer_bounded (snd x) \<Longrightarrow> buffer_bounded (snd y)"
proof (induction rule: session_step.induct)
  case (answer_yes h s E)
  then show ?case by (simp add: accept_offer_def buffer_bounded_def case_prod_beta)
qed (simp_all add: buffer_bounded_stream_event buffer_bounded_connection_event
      buffer_bounded_listener_event,
    simp_all add: buffer_bounded_def reject_offer_def stop_receiving_def Let_def)

lemma buffer_bounded_run:
  "session_run evp x ls y \<Longrightarrow> buffer_bounded (snd x) \<Longrightarrow> buffer_bounded (snd y)"
  by (erule run_invariant) (auto intro: buffer_bounded_step)

lemma buffer_bounded_start: "buffer_bounded (snd (receive_start is_dir p ofr g s))"
  by (simp add: buffer_bounded_def receive_start_def receive_begin_def Let_def)

section \<open>The length of the output file\<close>

text \<open>
  The open output file is at least as long as the count of bytes and at most as long as the header
  says. Only a write that failed leaves it longer than the count: the part of the data that reached
  the disk is not counted, and nothing is written after it.
\<close>

definition file_sized :: "quic_server \<Rightarrow> bool" where
  "file_sized s \<longleftrightarrow> (\<forall>os. qs_file_out s = Some os \<longrightarrow>
     (\<exists>b. qs_files s (os_path os) = Some b
        \<and> unat (qs_bytes_written s) \<le> length b \<and> length b \<le> unat (fth_size (qs_file_header s))
        \<and> (\<not> qs_io_error s \<longrightarrow> length b = unat (qs_bytes_written s))
        \<and> (\<not> qs_header_parsed s \<longrightarrow> b = [])))"

lemma file_sized_frame [simp]:
  "file_sized (s\<lparr>qs_io := io\<rparr>) = file_sized s"
  "file_sized (s\<lparr>qs_file_result := r\<rparr>) = file_sized s"
  "file_sized (s\<lparr>qs_receive_buffer := b\<rparr>) = file_sized s"
  "file_sized (s\<lparr>qs_receiving_file := x\<rparr>) = file_sized s"
  "file_sized (s\<lparr>qs_sending_final_ack := x\<rparr>) = file_sized s"
  "file_sized (s\<lparr>qs_client_connection := c\<rparr>) = file_sized s"
  "file_sized (s\<lparr>qs_offer_ready := x\<rparr>) = file_sized s"
  "file_sized (s\<lparr>qs_overflow := x\<rparr>) = file_sized s"
  "file_sized (s\<lparr>qs_progress := p\<rparr>) = file_sized s"
  "file_sized (s\<lparr>qs_file_accepted := x\<rparr>) = file_sized s"
  "file_sized (set_error e s) = file_sized s"
  "file_sized (notify_file_waiter x s) = file_sized s"
  "file_sized (api_call k s) = file_sized s"
  by (simp_all add: file_sized_def set_error_def notify_file_waiter_def api_call_def)

lemma file_sized_close [simp]: "file_sized (close_file_out s) = file_sized s"
  by (auto simp: file_sized_def os_close_def)

lemma file_sized_append_body:
  assumes "file_sized s" and "server_inv s" and "qs_header_parsed s"
  shows "file_sized (append_body_bytes E d s)"
proof (cases "body_ready s \<and> d \<noteq> []")
  case False
  then show ?thesis using assms(1) append_body_idle [of s d E] by auto
next
  case True
  then obtain os where os: "qs_file_out s = Some os" using body_ready_out by blast
  let ?w = "qs_bytes_written s" and ?t = "body_to_write s (length d)"
  have le: "?w \<le> fth_size (qs_file_header s)" using assms(2) by (simp add: server_inv_def)
  note t = body_to_write_bounds [OF le, of "length d"]
  have room: "unat ?w + unat ?t \<le> unat (fth_size (qs_file_header s))"
    using t(2) by (simp add: word_le_nat_alt t(3))
  obtain b where b: "qs_files s (os_path os) = Some b" "length b = unat ?w"
    using assms(1) True os by (auto simp: file_sized_def body_ready_def)
  show ?thesis
  proof (cases "?t > 0 \<and> env_write E ?w")
    case good: True
    with True os assms(3) t b room show ?thesis
      by (simp add: append_body_bytes_def body_ready_def write_out_def file_sized_def file_extend_def Let_def)
  next
    case False
    with True os assms(3) t(1) b room le show ?thesis
      by (auto simp: append_body_bytes_def body_ready_def write_out_def file_sized_def file_extend_def
          set_error_def word_le_nat_alt min_def Let_def)
  qed
qed

lemma file_sized_open:
  "qs_bytes_written s = 0 \<Longrightarrow> file_sized (snd (open_output_file E s))"
  by (simp add: file_sized_def open_output_file_def set_error_def file_truncate_def)

lemma file_sized_header:
  assumes "file_sized s" and "\<not> qs_header_parsed s" and "server_inv s"
  shows "file_sized (with_header h s)"
proof -
  have "qs_bytes_written s = 0" using assms(2,3) by (simp add: server_inv_def)
  then show ?thesis using assms(1,2) by (auto simp: file_sized_def)
qed

lemma file_sized_try_parse:
  assumes "file_sized s" and "server_inv s"
  shows "file_sized (try_parse_file_header E s)"
proof (cases "qs_header_parsed s")
  case True
  then show ?thesis using assms(1) by (simp add: try_parse_file_header_def)
next
  case False
  then have w: "qs_bytes_written s = 0" using assms(2) by (simp add: server_inv_def)
  show ?thesis
  proof (cases "decode_opt (qs_receive_buffer s)")
    case None
    with False assms(1) show ?thesis
      by (auto simp: try_parse_cases file_sized_def notify_file_waiter_def set_error_def)
  next
    case (Some p)
    obtain h n where p: "p = (h, n)" by (cases p)
    note hdr = file_sized_header [OF assms(1) False assms(2), of h]
    obtain opened s3 where o: "open_output_file E (with_header h s) = (opened, s3)"
      by (cases "open_output_file E (with_header h s)")
    have s3: "file_sized s3" using file_sized_open [of "with_header h s" E] w by (simp add: o)
    have i3: "server_inv s3"
      by (rule server_inv_open [OF with_header_inv [OF assms(2) False] _ o]) (simp add: w)
    have "qs_header_parsed s3" using open_output_file_frame(2) [of E "with_header h s"] by (simp add: o)
    then have "file_sized (auto_accepted E n s3)"
      using s3 i3 by (auto simp: auto_accepted_def Let_def server_inv_accept intro!: file_sized_append_body)
    with False Some p o hdr s3 show ?thesis by (simp add: try_parse_cases)
  qed
qed

lemma file_sized_append:
  "file_sized s \<Longrightarrow> server_inv s \<Longrightarrow> file_sized (append_file_bytes E d s)"
  by (simp add: append_file_bytes_def file_sized_try_parse file_sized_append_body)

lemma file_sized_fold:
  "file_sized s \<Longrightarrow> server_inv s \<Longrightarrow> file_sized (fold (append_file_bytes E) ds s)"
  by (induction ds arbitrary: s) (simp_all add: file_sized_append server_inv_append)

lemma file_sized_stream_event:
  "file_sized s \<Longrightarrow> server_inv s \<Longrightarrow> file_sized (on_stream_event evp E h ev s)"
proof (cases ev)
  case PeerSendShutdown
  moreover have "file_sized (finish_file_receive evp E h s) = file_sized s"
    by (auto simp: file_sized_def os_close_def)
  moreover assume "file_sized s"
  ultimately show ?thesis by (simp add: on_stream_event_def)
qed (simp_all add: on_stream_event_def file_sized_fold peer_aborted_def Let_def)

lemma file_sized_connection_event: "file_sized s \<Longrightarrow> file_sized (on_connection_event c ev s)"
  by (cases ev) (simp_all add: on_connection_event_def file_sized_def api_call_def Let_def)

lemma file_sized_listener_event: "file_sized s \<Longrightarrow> file_sized (snd (on_listener_event ok ev s))"
  by (cases ev) (simp_all add: on_listener_event_def)

lemma file_sized_step:
  "session_step evp x l y \<Longrightarrow> session_inv x \<Longrightarrow> file_sized (snd x) \<Longrightarrow> file_sized (snd y)"
proof (induction rule: session_step.induct)
  case (answer_yes h s E)
  then have "qs_bytes_written s = 0" by (auto simp: session_inv_def server_inv_def)
  then show ?case using file_sized_open [of s E] by (simp add: accept_offer_def case_prod_beta)
qed (simp_all add: session_inv_def file_sized_stream_event file_sized_connection_event
      file_sized_listener_event stop_receiving_def reject_offer_def Let_def)

lemma file_sized_run:
  assumes "session_run evp (receive_start is_dir p ofr g s0) ls (pc, s)"
  shows "file_sized s"
proof -
  have "session_inv (pc, s) \<and> file_sized (snd (pc, s))"
    using assms
  proof (rule run_invariant [where P = "\<lambda>x. session_inv x \<and> file_sized (snd x)"])
    show "session_inv (receive_start is_dir p ofr g s0) \<and> file_sized (snd (receive_start is_dir p ofr g s0))"
      using session_inv_start by (simp add: file_sized_def receive_start_def receive_begin_def Let_def)
  qed (use session_inv_step file_sized_step in blast)
  then show ?thesis by simp
qed

end
