(* ===== verification/Server_Checked.thy ===== *)
theory Server_Checked
  imports Server_Stream Server_Guarantees
begin

text \<open>
  A transfer that \<open>receive_file\<close> reports as good is one that was checked: when the session
  carried one stream, the file at the output path has the announced length and hash, also
  at the moment the call returns, whatever events came after the check. With a second
  stream this fails, see \<open>Server_Races\<close>.
\<close>

section \<open>Sessions with one stream\<close>

definition no_new_stream :: "session_label list \<Rightarrow> bool" where
  "no_new_stream ls \<longleftrightarrow> (\<forall>c st. L_connection c (PeerStreamStarted st) \<notin> set ls)"

text \<open>At most one stream starts, and no stream event comes before it.\<close>

fun one_stream :: "session_label list \<Rightarrow> bool" where
  "one_stream [] = True"
| "one_stream (L_stream h ev # ls) = no_new_stream ls"
| "one_stream (L_connection c (PeerStreamStarted st) # ls) = no_new_stream ls"
| "one_stream (l # ls) = one_stream ls"

lemma no_new_stream_Cons [simp]:
  "no_new_stream (l # ls) \<longleftrightarrow> (\<forall>c st. l \<noteq> L_connection c (PeerStreamStarted st)) \<and> no_new_stream ls"
  by (auto simp: no_new_stream_def)

section \<open>Sealed transfers\<close>

text \<open>The check has passed, nothing can be written any more, and the result says so.\<close>

definition sealed :: "'c evp_api \<Rightarrow> quic_server \<Rightarrow> bool" where
  "sealed evp s \<longleftrightarrow> qs_file_accepted s \<and> \<not> file_out_open s \<and> fst (verify_received evp s)
     \<and> frr_path (qs_file_result s) = qs_output_path s
     \<and> frr_bytes_received (qs_file_result s) = qs_bytes_written s
     \<and> frr_expected_hash (qs_file_result s) = fth_sha256_hex (qs_file_header s)
     \<and> frr_computed_hash (qs_file_result s) = fth_sha256_hex (qs_file_header s)"

lemma sealed_parsed: "sealed evp s \<Longrightarrow> qs_header_parsed s"
  by (simp add: sealed_def verify_true)

lemma sealed_frame [simp]:
  "sealed evp (s\<lparr>qs_io := io\<rparr>) = sealed evp s"
  "sealed evp (s\<lparr>qs_client_connection := c\<rparr>) = sealed evp s"
  "sealed evp (s\<lparr>qs_receiving_file := x\<rparr>) = sealed evp s"
  "sealed evp (s\<lparr>qs_sending_final_ack := x\<rparr>) = sealed evp s"
  "sealed evp (notify_file_waiter x s) = sealed evp s"
  "sealed evp (set_error e s) = sealed evp s"
  "sealed evp (api_call k s) = sealed evp s"
  by (simp_all add: sealed_def verify_true server_defs)

lemma closed_close: "\<not> file_out_open s \<Longrightarrow> close_file_out s = s"
  by (simp add: close_file_out_def)

lemma close_not_open: "\<not> file_out_open (close_file_out s)"
  by (auto simp: close_file_out_def file_out_open_def os_close_def split: option.splits)

lemma sealed_append: "sealed evp s \<Longrightarrow> append_file_bytes E d s = s"
  using append_body_idle [of s d E] sealed_parsed [of evp s]
  by (simp add: append_file_bytes_def sealed_def body_ready_def)

lemma sealed_fold: "sealed evp s \<Longrightarrow> fold (append_file_bytes E) ds s = s"
  by (induction ds) (simp_all add: sealed_append)

lemma verify_updates [simp]:
  "fst (verify_received evp (s\<lparr>qs_file_result := r\<rparr>)) = fst (verify_received evp s)"
  "fst (verify_received evp (s\<lparr>qs_io := io\<rparr>)) = fst (verify_received evp s)"
  "fst (verify_received evp (s\<lparr>qs_sending_final_ack := x\<rparr>)) = fst (verify_received evp s)"
  "fst (verify_received evp (s\<lparr>qs_file_done := x\<rparr>)) = fst (verify_received evp s)"
  "fst (verify_received evp (s\<lparr>qs_file_ok := x\<rparr>)) = fst (verify_received evp s)"
  by (simp_all add: verify_true)

text \<open>Whoever passes the check is sealed, whether or not the acknowledgement goes out.\<close>

lemma finish_sealed:
  assumes "qs_file_accepted s" and "verdict_of evp s"
  shows "sealed evp (finish_file_receive evp E h s)"
proof -
  let ?c = "close_file_out s"
  have v: "fst (verify_received evp ?c)" using assms(2) by (simp add: verdict_of_def)
  note r = verify_report [OF v]
  show ?thesis
    using assms(1) v r close_not_open [of s]
    by (auto simp: sealed_def finish_eq result_of_def file_out_open_def)
qed

lemma sealed_verdict: "sealed evp s \<Longrightarrow> verdict_of evp s"
  by (simp add: sealed_def verdict_of_def closed_close)

lemma sealed_stream_event: "sealed evp s \<Longrightarrow> sealed evp (on_stream_event evp E h ev s)"
proof (cases ev)
  case PeerSendShutdown
  moreover assume "sealed evp s"
  ultimately show ?thesis
    using finish_sealed [of s evp E h] sealed_verdict [of evp s]
    by (auto simp: on_stream_event_def sealed_def)
next
  case (SendComplete x)
  moreover assume "sealed evp s"
  ultimately show ?thesis by (simp add: on_stream_event_def Let_def)
next
  case PeerSendAborted
  moreover assume s: "sealed evp s"
  moreover have "close_file_out s = s" using s by (simp add: sealed_def closed_close)
  ultimately show ?thesis by (simp add: on_stream_event_def peer_aborted_def Let_def)
next
  case PeerReceiveAborted
  moreover assume s: "sealed evp s"
  moreover have "close_file_out s = s" using s by (simp add: sealed_def closed_close)
  ultimately show ?thesis by (simp add: on_stream_event_def peer_aborted_def Let_def)
qed (simp_all add: on_stream_event_def sealed_fold)

section \<open>The invariant\<close>

definition linked :: "quic_server \<Rightarrow> bool" where
  "linked s \<longleftrightarrow> (\<forall>os. qs_file_out s = Some os \<longrightarrow> qs_header_parsed s \<and> os_path os = qs_output_path s)
     \<and> (qs_offer_ready s \<longrightarrow> qs_header_parsed s)"

definition claims_success :: "quic_server \<Rightarrow> bool" where
  "claims_success s \<longleftrightarrow> frr_success (qs_file_result s) \<or> qs_file_ok s"

definition checked_server :: "'c evp_api \<Rightarrow> quic_server \<Rightarrow> bool" where
  "checked_server evp s \<longleftrightarrow> server_inv s \<and> linked s \<and> (claims_success s \<longrightarrow> sealed evp s)"

lemma linked_frame [simp]:
  "linked (s\<lparr>qs_io := io\<rparr>) = linked s"
  "linked (s\<lparr>qs_client_connection := c\<rparr>) = linked s"
  "linked (s\<lparr>qs_receiving_file := x\<rparr>) = linked s"
  "linked (s\<lparr>qs_file_accepted := x\<rparr>) = linked s"
  "linked (s\<lparr>qs_file_result := r\<rparr>) = linked s"
  "linked (notify_file_waiter x s) = linked s"
  "linked (api_call k s) = linked s"
  by (simp_all add: linked_def notify_file_waiter_def api_call_def)

lemma claims_frame [simp]:
  "claims_success (s\<lparr>qs_io := io\<rparr>) = claims_success s"
  "claims_success (s\<lparr>qs_client_connection := c\<rparr>) = claims_success s"
  "claims_success (s\<lparr>qs_receiving_file := x\<rparr>) = claims_success s"
  "claims_success (s\<lparr>qs_file_accepted := x\<rparr>) = claims_success s"
  "claims_success (notify_file_waiter x s) = x"
  "claims_success (api_call k s) = claims_success s"
  "claims_success (close_file_out s) = claims_success s"
  by (simp_all add: claims_success_def notify_file_waiter_def api_call_def)

lemma linked_open:
  "linked s \<Longrightarrow> qs_header_parsed s \<Longrightarrow> linked (snd (open_output_file E s))"
  by (auto simp: linked_def open_output_file_def set_error_def)

lemma linked_append_body: "linked s \<Longrightarrow> linked (append_body_bytes E d s)"
  by (simp add: linked_def)

lemma linked_append: "linked s \<Longrightarrow> linked (append_file_bytes E d s)"
proof (cases "qs_header_parsed s")
  case True
  moreover assume "linked s"
  ultimately show ?thesis by (simp add: append_parsed linked_append_body)
next
  case False
  assume l: "linked s"
  let ?s = "s\<lparr>qs_receive_buffer := qs_receive_buffer s @ d\<rparr>"
  have out: "qs_file_out s = None" using l False by (auto simp: linked_def)
  show ?thesis
  proof (cases "decode_opt (qs_receive_buffer ?s)")
    case None
    with False l show ?thesis
      by (auto simp: append_file_bytes_def try_parse_cases linked_def notify_file_waiter_def set_error_def)
  next
    case (Some hn)
    obtain h n where hn: "hn = (h, n)" by (cases hn)
    have wl: "linked (with_header h ?s)" using out by (simp add: linked_def)
    then have "linked (snd (open_output_file E (with_header h ?s)))" by (intro linked_open) simp_all
    with False Some hn wl out show ?thesis
      by (auto simp: append_file_bytes_def try_parse_cases auto_accepted_def case_prod_beta
          linked_def Let_def)
  qed
qed

lemma claims_append: "claims_success (append_file_bytes E d s) \<Longrightarrow> claims_success s"
proof (cases "qs_header_parsed s")
  case True
  moreover assume "claims_success (append_file_bytes E d s)"
  ultimately show ?thesis by (simp add: append_parsed claims_success_def)
next
  case False
  moreover assume "claims_success (append_file_bytes E d s)"
  ultimately show ?thesis
    by (auto simp: append_file_bytes_def try_parse_cases auto_accepted_def case_prod_beta
        claims_success_def notify_file_waiter_def set_error_def Let_def
        split: option.splits if_splits)
qed

lemma checked_append: "checked_server evp s \<Longrightarrow> checked_server evp (append_file_bytes E d s)"
  by (auto simp: checked_server_def server_inv_append linked_append sealed_append dest: claims_append)

lemma checked_fold: "checked_server evp s \<Longrightarrow> checked_server evp (fold (append_file_bytes E) ds s)"
  by (induction ds arbitrary: s) (simp_all add: checked_append)

lemma linked_finish: "linked s \<Longrightarrow> linked (finish_file_receive evp E h s)"
  by (auto simp: linked_def os_close_def)

lemma claims_finish:
  "claims_success (finish_file_receive evp E h s) \<Longrightarrow> verdict_of evp s \<or> claims_success s"
  by (auto simp: claims_success_def finish_eq split: if_splits)

lemma checked_finish:
  assumes "checked_server evp s" and "qs_file_accepted s \<or> qs_io_error s"
  shows "checked_server evp (finish_file_receive evp E h s)"
proof -
  have "sealed evp (finish_file_receive evp E h s)"
    if "claims_success (finish_file_receive evp E h s)"
  proof -
    have v: "verdict_of evp s"
      using claims_finish [OF that] sealed_verdict assms(1) by (auto simp: checked_server_def)
    then have "\<not> qs_io_error s" by (simp add: verdict_of_def verify_true)
    with assms(2) v show ?thesis by (simp add: finish_sealed)
  qed
  then show ?thesis using assms(1) by (simp add: checked_server_def server_inv_finish linked_finish)
qed

lemma linked_aborted: "linked s \<Longrightarrow> linked (peer_aborted s)"
  by (auto simp: linked_def peer_aborted_def notify_file_waiter_def set_error_def os_close_def Let_def)

lemma claims_aborted: "claims_success (peer_aborted s) \<Longrightarrow> peer_aborted s = s"
  by (auto simp: claims_success_def peer_aborted_def notify_file_waiter_def Let_def)

lemma checked_aborted: "checked_server evp s \<Longrightarrow> checked_server evp (peer_aborted s)"
  using claims_aborted [of s]
  by (auto simp: checked_server_def server_inv_aborted linked_aborted)

lemma checked_stream_event:
  assumes "checked_server evp s"
  shows "checked_server evp (on_stream_event evp E h ev s)"
proof (cases ev)
  case (SendComplete b)
  with assms show ?thesis
    by (auto simp: on_stream_event_def checked_server_def claims_success_def [of s] Let_def)
qed (use assms in \<open>auto simp: on_stream_event_def checked_fold checked_finish checked_aborted
      checked_server_def [of _ "api_call _ _"] checked_server_def [of _ s]\<close>)

section \<open>Sessions\<close>

definition checked :: "'c evp_api \<Rightarrow> receive_pc \<times> quic_server \<Rightarrow> bool" where
  "checked evp x \<longleftrightarrow> checked_server evp (snd x) \<and> session_inv x
     \<and> (\<forall>h. fst x = Rf_prompt h \<longrightarrow> qs_offer_ready (snd x))
     \<and> (fst x = Rf_drain True \<or> fst x = Rf_returned True \<longrightarrow> sealed evp (snd x))"

lemma undecided_no_claim:
  "checked evp (Rf_prompt h, s) \<Longrightarrow> \<not> claims_success s"
  by (auto simp: checked_def checked_server_def session_inv_def sealed_def)

lemma checked_accept:
  assumes c: "checked evp (Rf_prompt h, s)"
  shows "checked evp (accept_offer E s)"
proof -
  have inv: "server_inv s" "\<not> qs_file_accepted s" "linked s" "qs_header_parsed s"
    using c by (auto simp: checked_def checked_server_def session_inv_def linked_def)
  have nc: "\<not> claims_success (snd (open_output_file E s))"
    using undecided_no_claim [OF c] by (simp add: claims_success_def open_output_file_def set_error_def)
  have l: "linked (snd (open_output_file E s))" using inv by (simp add: linked_open)
  have si: "session_inv (accept_offer E s)" by (rule accept_offer_inv [OF inv(1,2)])
  then have "server_inv (snd (accept_offer E s))" by (simp add: session_inv_def)
  moreover have "linked (snd (accept_offer E s)) \<and> \<not> claims_success (snd (accept_offer E s))"
    using l nc by (simp add: accept_offer_def case_prod_beta)
  moreover have "fst (accept_offer E s) = Rf_drain False \<or> fst (accept_offer E s) = Rf_accepting"
    by (simp add: accept_offer_def case_prod_beta)
  ultimately show ?thesis using si by (auto simp: checked_def checked_server_def)
qed

lemma checked_connection_event:
  assumes "checked_server evp s" and "\<And>st. ev \<noteq> PeerStreamStarted st"
  shows "checked_server evp (on_connection_event c ev s)"
  using assms by (cases ev) (auto simp: on_connection_event_def checked_server_def Let_def)

lemma checked_listener_event: "checked_server evp s \<Longrightarrow> checked_server evp (snd (on_listener_event ok ev s))"
  by (cases ev) (auto simp: on_listener_event_def checked_server_def)

lemma sealed_connection_event:
  assumes "sealed evp s" and "\<And>st. ev \<noteq> PeerStreamStarted st"
  shows "sealed evp (on_connection_event c ev s)"
  using assms by (cases ev) (auto simp: on_connection_event_def Let_def)

lemma sealed_listener_event: "sealed evp s \<Longrightarrow> sealed evp (snd (on_listener_event ok ev s))"
  by (cases ev) (auto simp: on_listener_event_def)

lemma checked_stop [simp]: "checked_server evp (stop_receiving s) = checked_server evp s"
  "sealed evp (stop_receiving s) = sealed evp s"
  by (simp_all add: stop_receiving_def checked_server_def server_inv_def)

lemma checked_close: "checked_server evp s \<Longrightarrow> checked_server evp (close_file_out s)"
  by (auto simp: checked_server_def linked_def os_close_def sealed_def closed_close)

lemma checked_reject: 
  "checked_server evp s \<Longrightarrow> \<not> claims_success s \<Longrightarrow> checked_server evp (reject_offer E s)"
  by (simp add: reject_offer_def checked_server_def claims_success_def Let_def)

lemma checked_callback:
  "checked evp (pc, s) \<Longrightarrow> session_inv (pc, t) \<Longrightarrow> checked_server evp t \<Longrightarrow>
   (qs_offer_ready s \<Longrightarrow> qs_offer_ready t) \<Longrightarrow> (sealed evp s \<Longrightarrow> sealed evp t) \<Longrightarrow> checked evp (pc, t)"
  unfolding checked_def fst_conv snd_conv by blast

lemma checked_io [simp]: "checked_server evp (s\<lparr>qs_io := io\<rparr>) = checked_server evp s"
  by (simp add: checked_server_def)

lemma checked_step:
  assumes "session_step evp x l y" and "checked evp x"
    and "\<And>c st. l \<noteq> L_connection c (PeerStreamStarted st)"
  shows "checked evp y"
proof -
  have "session_inv y" by (rule session_inv_step [OF assms(1)]) (use assms(2) in \<open>simp add: checked_def\<close>)
  with assms show ?thesis
  proof (induction rule: session_step.induct)
    case (stream_callback pc s h ev E)
    show ?case
      by (rule checked_callback [of evp pc s]) (use stream_callback in \<open>simp_all add: checked_def checked_stream_event
          sealed_stream_event offer_stays_stream_event\<close>)
  next
    case (connection_callback pc s c cev)
    then have n: "\<And>st. cev \<noteq> PeerStreamStarted st" by blast
    show ?case
      by (rule checked_callback [of evp pc s]) (use connection_callback n in \<open>simp_all add: checked_def checked_connection_event
          sealed_connection_event offer_stays_connection_event\<close>)
  next
    case (listener_callback pc s lev ok)
    show ?case
      by (rule checked_callback [of evp pc s]) (use listener_callback in \<open>simp_all add: checked_def checked_listener_event
          sealed_listener_event offer_stays_listener_event\<close>)
  next
    case (answer_yes h s E)
    then show ?case by (simp add: checked_accept)
  next
    case (answer_no h s E)
    then show ?case using undecided_no_claim [of evp h s] by (simp add: checked_def checked_reject)
  next
    case (done_ok s)
    then show ?case by (simp add: checked_def checked_server_def claims_success_def)
  qed (simp_all add: checked_def checked_close)
qed

text \<open>Before the stream starts, nothing has happened that could claim success.\<close>

definition fresh_session :: "receive_pc \<times> quic_server \<Rightarrow> bool" where
  "fresh_session x \<longleftrightarrow> session_inv x \<and> qs_file_out (snd x) = None
     \<and> \<not> qs_offer_ready (snd x) \<and> \<not> claims_success (snd x) \<and> \<not> qs_file_done (snd x)
     \<and> (fst x = Rf_wait_offer \<or> fst x = Rf_wait_done \<or> fst x = Rf_returned False)"

lemma fresh_start: "fresh_session (receive_start is_dir p ofr g s)"
  using session_inv_start [of is_dir p ofr g s]
  by (auto simp: fresh_session_def receive_start_def receive_begin_def claims_success_def
      empty_result_def Let_def)

lemma fresh_checked: "fresh_session x \<Longrightarrow> checked evp x"
  by (auto simp: fresh_session_def checked_def checked_server_def linked_def session_inv_def)

lemma fresh_step:
  assumes "session_step evp x l y" and "fresh_session x" and "\<And>h ev. l \<noteq> L_stream h ev"
  shows "fresh_session y"
proof -
  have si: "session_inv y"
    by (rule session_inv_step [OF assms(1)]) (use assms(2) in \<open>simp add: fresh_session_def\<close>)
  have conn: "qs_file_out (on_connection_event c ev s) = None"
    "qs_offer_ready (on_connection_event c ev s) = qs_offer_ready s"
    "claims_success (on_connection_event c ev s) = claims_success s"
    if "qs_file_out s = None" for c ev s
    using that by (cases ev; simp add: on_connection_event_def claims_success_def api_call_def Let_def)+
  have lis: "qs_file_out (snd (on_listener_event ok ev s)) = qs_file_out s"
    "qs_offer_ready (snd (on_listener_event ok ev s)) = qs_offer_ready s"
    "claims_success (snd (on_listener_event ok ev s)) = claims_success s" for ok ev s
    by (cases ev; simp add: on_listener_event_def claims_success_def api_call_def)+
  from assms si show ?thesis
    by (induction rule: session_step.induct)
      (auto simp: fresh_session_def conn lis stop_receiving_def claims_success_def)
qed

lemma one_stream_tl:
  "one_stream (l # ls) \<Longrightarrow>
     no_new_stream ls \<or> (one_stream ls \<and> (\<forall>h ev. l \<noteq> L_stream h ev))"
  by (cases "l # ls" rule: one_stream.cases) auto

lemma one_stream_checked:
  "session_run evp x ls y \<Longrightarrow>
   (fresh_session x \<and> one_stream ls) \<or> (checked evp x \<and> no_new_stream ls) \<Longrightarrow> checked evp y"
proof (induction rule: session_run.induct)
  case (run_nil x)
  then show ?case using fresh_checked by blast
next
  case (run_step x l y ls z)
  show ?case
  proof (rule run_step.IH)
    show "(fresh_session y \<and> one_stream ls) \<or> (checked evp y \<and> no_new_stream ls)"
      using run_step.prems
    proof
      assume a: "fresh_session x \<and> one_stream (l # ls)"
      show ?thesis
      proof (cases "\<exists>h ev. l = L_stream h ev")
        case True
        with a have "checked evp y" using fresh_checked checked_step [OF run_step.hyps(1)] by blast
        with a True show ?thesis by auto
      next
        case False
        then have f: "fresh_session y" using a fresh_step [OF run_step.hyps(1)] by blast
        then show ?thesis using a one_stream_tl [of l ls] fresh_checked by blast
      qed
    next
      assume "checked evp x \<and> no_new_stream (l # ls)"
      then show ?thesis using checked_step [OF run_step.hyps(1)] by simp
    qed
  qed
qed

text \<open>What a sealed transfer with its invariant says about the file.\<close>

lemma checked_sealed_file:
  assumes "checked_server evp s" and "sealed evp s"
  shows "\<exists>b. qs_files s (qs_output_path s) = Some b \<and> length b = unat (fth_size (qs_file_header s))
    \<and> file_hash evp (qs_files s) (qs_output_path s) = Some (fth_sha256_hex (qs_file_header s))"
proof -
  have v: "\<not> qs_io_error s" "qs_bytes_written s = fth_size (qs_file_header s)"
    "file_hash evp (qs_files s) (qs_output_path s) = Some (fth_sha256_hex (qs_file_header s))"
    using assms(2) by (auto simp: sealed_def verify_true)
  obtain os where os: "qs_file_out s = Some os" using assms(2) by (auto simp: sealed_def verify_true)
  with assms(1) have "os_path os = qs_output_path s" by (auto simp: checked_server_def linked_def)
  with assms(1) os v show ?thesis
    by (auto simp: checked_server_def server_inv_def file_contents_def)
qed

end
