(* ===== verification/Server_Properties.thy ===== *)
theory Server_Properties
  imports Server_Checked
begin

text \<open>
  The receiver's properties: it implements its specification on a well-behaved stream for
  every chunking, and keeps its guarantees on every interleaving of events. Their
  witnesses run the model on a concrete transfer with a toy digest.
\<close>

section \<open>One transfer, event by event\<close>

definition receiver_run ::
  "'c evp_api \<Rightarrow> server_env \<Rightarrow> handle \<Rightarrow> handle \<Rightarrow> bytes list list \<Rightarrow> quic_server \<Rightarrow> quic_server" where
  "receiver_run evp E c st events s =
     on_stream_event evp E st PeerSendShutdown
       (fold (\<lambda>bufs. on_stream_event evp E st (Receive bufs)) events
          (on_connection_event c (PeerStreamStarted st) s))"

lemma receive_events:
  "qs_receiving_file s \<Longrightarrow>
   fold (\<lambda>bufs. on_stream_event evp E st (Receive bufs)) events s
     = fold (append_file_bytes E) (concat events) s"
  by (induction events arbitrary: s) (simp_all add: on_stream_event_def)

text \<open>The state in which the stream has just started.\<close>

lemma started_awaiting:
  assumes "s1 = on_connection_event c (PeerStreamStarted st) (receive_begin is_dir p False g s0)"
  shows "awaiting_header st s1" and "qs_receive_buffer s1 = []"
    and "qs_io s1 = io_call (SetCallbackHandler st) (qs_io s0)"
    and "target_path s1 h = target_path (receive_begin is_dir p False g s0) h"
  by (simp_all add: assms awaiting_header_def on_connection_event_def receive_begin_def api_call_def
      target_path_def Let_def)

lemma receiver_run_received:
  assumes "wf_header h" and "concat (concat events) = encode_file_header h @ body"
    and "length (encode_file_header h) \<le> k_max_header_bytes"
    and "\<forall>d \<in> set (concat events). length d < 4294967296"
    and s: "s = receive_begin is_dir p False g s0"
    and s1: "s1 = on_connection_event c (PeerStreamStarted st) s"
  shows "\<exists>t. receiver_run evp good_env c st events s = finish_file_receive evp good_env st t
    \<and> stream_received good_env st h body s1 t"
proof -
  let ?t = "fold (append_file_bytes good_env) (concat events) s1"
  note a = started_awaiting [OF s1 [unfolded s]]
  have rc: "stream_received good_env st h body s1 ?t"
    using assms(1-4) a(1,2) header_nonempty [of h]
    by (intro stream_any_chunking) (simp_all add: good_env_def)
  then have "qs_receiving_file ?t" "qs_file_accepted ?t"
    by (simp_all add: stream_received_def body_state_def)
  moreover have "receiver_run evp good_env c st events s
      = on_stream_event evp good_env st PeerSendShutdown ?t"
    using a(1) receive_events [of s1 evp good_env st events]
    by (simp add: receiver_run_def s1 awaiting_header_def)
  ultimately show ?thesis using rc by (intro exI [of _ ?t]) (simp add: on_stream_event_def)
qed

text \<open>What the whole transfer comes to.\<close>

lemma receiver_result:
  assumes "evp_streaming evp" and "wf_header h"
    and "concat (concat events) = encode_file_header h @ body"
    and "length (encode_file_header h) \<le> k_max_header_bytes"
    and "\<forall>d \<in> set (concat events). length d < 4294967296"
    and s: "s = receive_begin is_dir p False g s0"
    and t: "t = receiver_run evp good_env c st events s"
  shows "qs_files t (target_path s h) = Some (take (unat (fth_size h)) body)
    \<and> io_calls (qs_io t) = io_calls (qs_io s0) @ [SetCallbackHandler st,
          StreamSend st msg_accept False (io_next (qs_io s0)),
          StreamSend st (if receive_spec evp h body then msg_ok else msg_fail) True
            (Suc (io_next (qs_io s0)))]
    \<and> frr_success (qs_file_result t) = receive_spec evp h body
    \<and> \<not> qs_file_done t
    \<and> qs_file_done (on_stream_event evp E st (SendComplete b) t)
    \<and> qs_file_ok (on_stream_event evp E st (SendComplete b) t) = receive_spec evp h body"
proof -
  let ?s1 = "on_connection_event c (PeerStreamStarted st) s"
  obtain r where fin: "t = finish_file_receive evp good_env st r"
    and rc: "stream_received good_env st h body ?s1 r"
    using receiver_run_received [OF assms(2-5) s refl, of evp c st] t by blast
  have v: "verdict_of evp r = receive_spec evp h body"
    using verdict_spec [OF assms(1), of body r] rc by (simp add: stream_received_def)
  have sent: "fst (ack_send evp good_env st r)"
    by (simp add: ack_send_def good_env_def)
  note a = started_awaiting [OF refl, where c = c and st = st and is_dir = is_dir and p = p and g = g and ?s0.0 = s0, folded s]
  have path: "qs_output_path r = target_path s h"
    using rc a(4) by (simp add: stream_received_def)
  have stored: "qs_files r (target_path s h) = Some (take (unat (fth_size h)) body)"
  proof -
    have "body_state body r" "qs_file_header r = h" using rc by (simp_all add: stream_received_def)
    then show ?thesis by (simp add: body_state_def path)
  qed
  show ?thesis
    using rc fin v sent a(1-3) stored
    by (simp add: finish_eq stream_received_def body_state_def ack_send_def good_env_def
        on_stream_event_def notify_file_waiter_def io_call_def Let_def)
qed

section \<open>Blocks of sends\<close>

text \<open>The contexts a step completes.\<close>

definition completed_by :: "session_label \<Rightarrow> nat set" where
  "completed_by l = (case l of L_stream h (SendComplete b) \<Rightarrow> {b} | _ \<Rightarrow> {})"

lemma owned_append: "io_owned D (qs_io s) \<Longrightarrow> io_owned D (qs_io (append_file_bytes E d s))"
  by (cases "qs_header_parsed s")
    (auto simp: append_file_bytes_def try_parse_cases auto_accepted_def case_prod_beta
      notify_file_waiter_def set_error_def io_owned_send Let_def split: option.splits)

lemma owned_fold: "io_owned D (qs_io s) \<Longrightarrow> io_owned D (qs_io (fold (append_file_bytes E) ds s))"
  by (induction ds arbitrary: s) (simp_all add: owned_append)

lemma owned_api [simp]: "sent_contexts [k] = [] \<Longrightarrow> io_owned D (qs_io s) \<Longrightarrow> io_owned D (qs_io (api_call k s))"
  by (simp add: api_call_def io_owned_call)

lemma owned_finish: "io_owned D (qs_io s) \<Longrightarrow> io_owned D (qs_io (finish_file_receive evp E h s))"
  by (simp add: finish_eq ack_send_def io_owned_send)

lemma owned_stream_event:
  assumes "io_owned D (qs_io s)"
    and "\<And>b. ev = SendComplete b \<Longrightarrow> b \<in> set (sent_contexts (io_calls (qs_io s))) - D"
  shows "io_owned (D \<union> completed_by (L_stream h ev)) (qs_io (on_stream_event evp E h ev s))"
proof (cases ev)
  case (SendComplete b)
  then have "io_owned (insert b D) (free_block b (qs_io s))"
    using assms by (intro io_owned_free) auto
  with SendComplete show ?thesis
    by (simp add: on_stream_event_def completed_by_def notify_file_waiter_def Let_def)
qed (use assms in \<open>simp_all add: on_stream_event_def completed_by_def owned_fold owned_finish
      peer_aborted_def notify_file_waiter_def set_error_def Let_def\<close>)

lemma owned_connection_event: "io_owned D (qs_io s) \<Longrightarrow> io_owned D (qs_io (on_connection_event c ev s))"
  by (cases ev) (simp_all add: on_connection_event_def Let_def)

lemma owned_listener_event: "io_owned D (qs_io s) \<Longrightarrow> io_owned D (qs_io (snd (on_listener_event ok ev s)))"
  by (cases ev) (simp_all add: on_listener_event_def)

lemma owned_step:
  assumes "session_step evp x l y" and "io_owned D (qs_io (snd x))"
    and "\<And>b. b \<in> completed_by l \<Longrightarrow> b \<in> set (sent_contexts (io_calls (qs_io (snd x)))) - D"
  shows "io_owned (D \<union> completed_by l) (qs_io (snd y))"
  using assms
proof (induction rule: session_step.induct)
  case (stream_callback pc s h ev E)
  show ?case
    unfolding snd_conv
    by (rule owned_stream_event) (use stream_callback in \<open>simp_all add: completed_by_def\<close>)
qed (simp_all add: completed_by_def owned_connection_event owned_listener_event reject_offer_def
    accept_offer_def case_prod_beta io_owned_send stop_receiving_def Let_def)

section \<open>A concrete transfer\<close>

text \<open>Three bytes whose toy digest is \<open>0x26\<close>, 32 times.\<close>

definition abc_header :: file_transfer_header where
  "abc_header = \<lparr>fth_name = ''a.txt'', fth_size = 3, fth_sha256_hex = concat (replicate 32 ''26'')\<rparr>"

definition abc_events :: "bytes list list" where
  "abc_events = [[take 7 (encode_file_header abc_header)],
     [drop 7 (encode_file_header abc_header) @ ''a'', ''bc'']]"

lemma abc_wf: "wf_header abc_header" by code_simp

lemma abc_short: "length (encode_file_header abc_header) = 95" by code_simp

lemma abc_spec: "receive_spec toy_evp abc_header ''abc''"
proof -
  have "digest_to_hex 32 (replicate 32 CHR ''&'') = concat (map byte_hex (replicate 32 CHR ''&''))"
    by (rule digest_to_hex_map) simp
  also have "\<dots> = concat (replicate 32 ''26'')"
  proof -
    have "byte_hex CHR ''&'' = ''26''" by code_simp
    then show ?thesis by (simp only: map_replicate)
  qed
  finally have hex: "digest_to_hex 32 (replicate 32 CHR ''&'') = concat (replicate 32 ''26'')" .
  have "(char_of (sum_list (map of_char ''abc'') :: nat) :: char) = CHR ''&''" by code_simp
  then show ?thesis
    by (simp only: receive_spec_def sha256_bytes_def toy_evp_def abc_header_def hex
        evp_api.simps file_transfer_header.simps option.simps bind.simps Let_def append_Nil)
      code_simp
qed

lemma abc_concat: "concat (concat abc_events) = encode_file_header abc_header @ ''abc''"
  by (simp add: abc_events_def)

lemma abc_pieces: "\<forall>d \<in> set (concat abc_events). length d < 4294967296"
  by (simp add: abc_events_def abc_short)

abbreviation abc_start :: quic_server where
  "abc_start \<equiv> receive_begin (\<lambda>_. False) ''in/'' False False (new_server 4433 Map.empty)"

definition abc_labels :: "session_label list" where
  "abc_labels = L_connection 1 (PeerStreamStarted 2) # map (\<lambda>bufs. L_stream 2 (Receive bufs)) abc_events
     @ [L_stream 2 PeerSendShutdown, L_stream 2 (SendComplete 1), L_wake, L_timeout]"

lemma abc_one_stream: "one_stream abc_labels"
  by (simp add: abc_labels_def abc_events_def no_new_stream_def)

text \<open>The transfer as a session that returns true.\<close>

lemma abc_session:
  "\<exists>s. session_run toy_evp (receive_start (\<lambda>_. False) ''in/'' False False (new_server 4433 Map.empty))
     abc_labels (Rf_returned True, s)"
proof -
  define t where "t = receiver_run toy_evp good_env 1 2 abc_events abc_start"
  define u where "u = on_stream_event toy_evp good_env 2 (SendComplete 1) t"
  have short: "length (encode_file_header abc_header) \<le> k_max_header_bytes"
    by (simp add: abc_short k_max_header_bytes_def)
  have u: "qs_file_done u" "qs_file_ok u"
    using receiver_result [OF toy_evp_streaming abc_wf abc_concat short abc_pieces refl t_def,
        of good_env 1] abc_spec
    by (simp_all add: u_def)
  have "session_run toy_evp (Rf_wait_done, u) [L_wake, L_timeout] (Rf_returned True, stop_receiving u)"
    by (intro run_step [OF done_ok] run_step [OF drain_timeout] run_nil u)
  then have fin: "session_run toy_evp (Rf_wait_done, t) [L_stream 2 (SendComplete 1), L_wake, L_timeout]
      (Rf_returned True, stop_receiving u)"
    unfolding u_def by (rule run_step [OF stream_callback])
  have "session_run toy_evp (Rf_wait_done, abc_start) abc_labels (Rf_returned True, stop_receiving u)"
    unfolding abc_labels_def abc_events_def list.map append_Cons append_Nil
    by (rule run_step [OF connection_callback], rule run_step [OF stream_callback],
        rule run_step [OF stream_callback], rule run_step [OF stream_callback],
        rule fin [unfolded t_def receiver_run_def abc_events_def fold.simps o_apply id_apply])
  then show ?thesis by (auto simp: receive_start_def)
qed

text \<open>A session that asks the user, who says no.\<close>

abbreviation asked_start :: quic_server where
  "asked_start \<equiv> receive_begin (\<lambda>_. False) ''in/'' True False (new_server 4433 [''keep'' \<mapsto> ''old''])"

definition asked_state :: quic_server where
  "asked_state = on_stream_event toy_evp good_env 2 (Receive [encode_file_header abc_header])
     (on_connection_event 1 (PeerStreamStarted 2) asked_start)"

definition asked_labels :: "session_label list" where
  "asked_labels = [L_connection 1 (PeerStreamStarted 2), L_stream 2 (Receive [encode_file_header abc_header]),
     L_wake, L_answer False]"

lemma asked_offer: "qs_offer_ready asked_state \<and> \<not> qs_file_done asked_state"
proof -
  have "decode_opt (encode_file_header abc_header) = Some (abc_header, length (encode_file_header abc_header))"
    using wire.dec_enc [OF abc_wf, of "[]"] by simp
  then show ?thesis
    by (simp add: asked_state_def on_stream_event_def on_connection_event_def receive_begin_def
        append_file_bytes_def try_parse_cases api_call_def Let_def)
qed

lemma asked_session:
  "session_run toy_evp
     (receive_start (\<lambda>_. False) ''in/'' True False (new_server 4433 [''keep'' \<mapsto> ''old'']))
     asked_labels (Rf_drain False, reject_offer good_env asked_state)"
proof -
  have fin: "session_run toy_evp (Rf_wait_offer, asked_state) [L_wake, L_answer False]
      (Rf_drain False, reject_offer good_env asked_state)"
    using asked_offer by (intro run_step [OF offer_arrived] run_step [OF answer_no] run_nil) simp_all
  have "session_run toy_evp (Rf_wait_offer, asked_start) asked_labels
      (Rf_drain False, reject_offer good_env asked_state)"
    unfolding asked_labels_def asked_state_def
    by (rule run_step [OF connection_callback], rule run_step [OF stream_callback],
        rule fin [unfolded asked_state_def])
  then show ?thesis by (simp add: receive_start_def)
qed

lemma asked_rejected: "frr_rejected (qs_file_result (reject_offer E s))"
  by (simp add: reject_offer_def Let_def)

section \<open>Properties\<close>

text \<open>
  C5: The receiver implements its specification. For every header the peer may send, every
  body, and every way to cut the two into QUIC buffers and events, the automatically
  accepting receiver stores the body, cut at the declared size, under the output path,
  answers ACCEPT and, at FIN, OK or FAIL with FIN, and nothing else; it answers OK, and
  tells its caller that the transfer succeeded, exactly when the body has the declared
  length and hash. The caller is told when the final answer has been sent, not before.
\<close>

theorem receiver_meets_spec:
  assumes "evp_streaming evp" and "wf_header h"
    and "concat (concat events) = encode_file_header h @ body"
    and "length (encode_file_header h) \<le> k_max_header_bytes"
    and "\<forall>d \<in> set (concat events). length d < 4294967296"
    and s: "s = receive_begin is_dir p False g s0"
    and t: "t = receiver_run evp good_env c st events s"
  shows "qs_files t (target_path s h) = Some (take (unat (fth_size h)) body)
    \<and> io_calls (qs_io t) = io_calls (qs_io s0) @ [SetCallbackHandler st,
          StreamSend st msg_accept False (io_next (qs_io s0)),
          StreamSend st (if receive_spec evp h body then msg_ok else msg_fail) True
            (Suc (io_next (qs_io s0)))]
    \<and> frr_success (qs_file_result t) = receive_spec evp h body
    \<and> \<not> qs_file_done t
    \<and> qs_file_done (on_stream_event evp E st (SendComplete b) t)
    \<and> qs_file_ok (on_stream_event evp E st (SendComplete b) t) = receive_spec evp h body"
  using receiver_result [OF assms] .

theorem receiver_meets_spec_witness:
  "qs_files (receiver_run toy_evp good_env 1 2 abc_events
       (receive_begin (\<lambda>_. False) ''in/'' False False (new_server 4433 Map.empty))) ''in/a.txt''
     = Some ''abc''
   \<and> qs_file_ok (on_stream_event toy_evp good_env 2 (SendComplete 1)
       (receiver_run toy_evp good_env 1 2 abc_events
          (receive_begin (\<lambda>_. False) ''in/'' False False (new_server 4433 Map.empty))))"
proof -
  have short: "length (encode_file_header abc_header) \<le> k_max_header_bytes"
    by (simp add: abc_short k_max_header_bytes_def)
  have target: "target_path (receive_begin (\<lambda>_. False) ''in/'' False False (new_server 4433 Map.empty))
      abc_header = ''in/a.txt''" by code_simp
  have size: "unat (fth_size abc_header) = 3" by (simp add: abc_header_def)
  show ?thesis
    using receiver_meets_spec [OF toy_evp_streaming abc_wf abc_concat short abc_pieces refl refl,
        where is_dir = "\<lambda>_. False" and p = "''in/''" and g = False and c = 1 and st = 2
          and ?s0.0 = "new_server 4433 Map.empty" and E = good_env and b = 1]
    by (simp only: target size abc_spec) simp
qed

text \<open>What a returned success means, for every way to reach it.\<close>

lemma returned_true_checked:
  assumes "session_run evp (receive_start is_dir p ofr g s0) ls (Rf_returned True, s)"
    and "one_stream ls"
  shows "\<exists>b. qs_files s (qs_output_path s) = Some b
    \<and> length b = unat (fth_size (qs_file_header s))
    \<and> file_hash evp (qs_files s) (qs_output_path s) = Some (fth_sha256_hex (qs_file_header s))
    \<and> frr_path (qs_file_result s) = qs_output_path s
    \<and> frr_bytes_received (qs_file_result s) = fth_size (qs_file_header s)
    \<and> frr_computed_hash (qs_file_result s) = fth_sha256_hex (qs_file_header s)"
proof -
  have c: "checked evp (Rf_returned True, s)"
    using one_stream_checked [OF assms(1)] fresh_start assms(2) by blast
  then have s: "sealed evp s" "checked_server evp s" by (simp_all add: checked_def)
  then have "qs_bytes_written s = fth_size (qs_file_header s)" by (simp add: sealed_def verify_true)
  with checked_sealed_file [OF s(2,1)] s(1) show ?thesis by (auto simp: sealed_def)
qed

text \<open>
  A transfer reported as good was checked. In a session with one stream, when
  \<open>receive_file\<close> returns true, then at that moment the file at the output path has exactly
  the declared length and the declared hash, and the result names that file, its length
  and that hash, whatever else happened: timeouts, failed writes or sends, aborts or
  further data after FIN, in any order.
\<close>

theorem returned_true_is_checked:
  assumes "session_run evp (receive_start is_dir p ofr g s0) ls (Rf_returned True, s)"
    and "one_stream ls"
  shows "\<exists>b. qs_files s (qs_output_path s) = Some b
    \<and> length b = unat (fth_size (qs_file_header s))
    \<and> file_hash evp (qs_files s) (qs_output_path s) = Some (fth_sha256_hex (qs_file_header s))
    \<and> frr_path (qs_file_result s) = qs_output_path s
    \<and> frr_bytes_received (qs_file_result s) = fth_size (qs_file_header s)
    \<and> frr_computed_hash (qs_file_result s) = fth_sha256_hex (qs_file_header s)"
  by (rule returned_true_checked [OF assms])

theorem returned_true_is_checked_witness:
  "\<exists>s. session_run toy_evp (receive_start (\<lambda>_. False) ''in/'' False False (new_server 4433 Map.empty))
        abc_labels (Rf_returned True, s)
     \<and> one_stream abc_labels
     \<and> file_hash toy_evp (qs_files s) (qs_output_path s) = Some (fth_sha256_hex (qs_file_header s))"
proof -
  obtain s where s: "session_run toy_evp
      (receive_start (\<lambda>_. False) ''in/'' False False (new_server 4433 Map.empty))
      abc_labels (Rf_returned True, s)"
    using abc_session by blast
  from returned_true_is_checked [OF s abc_one_stream] s abc_one_stream show ?thesis by blast
qed

text \<open>
  C7: No path traversal. Whatever header names arrive, on however many streams and in
  whatever order, a call of \<open>receive_file\<close> changes no file but the one it was given, or,
  when it was given a directory, files whose path is that directory and a plain name.
\<close>

theorem receive_confined:
  assumes "session_run evp (receive_start is_dir p ofr g s0) ls (pc, s)"
    and "qs_files s q \<noteq> qs_files s0 q"
  shows "(\<not> looks_like_dir is_dir p \<longrightarrow> q = p)
    \<and> (looks_like_dir is_dir p \<longrightarrow> (\<exists>n. safe_file_name n \<and> q = path_append p n))"
proof -
  have "confined is_dir p (qs_files s0) (pc, s)" by (rule confined_run [OF assms(1) confined_start])
  then have "allowed is_dir p q" using assms(2) by (auto simp: confined_def confined_server_def)
  then show ?thesis by (simp add: allowed_def split: if_splits)
qed

theorem receive_confined_witness:
  "\<exists>s. session_run toy_evp (receive_start (\<lambda>_. False) ''in/'' False False (new_server 4433 Map.empty))
        abc_labels (Rf_returned True, s)
     \<and> (\<forall>q. qs_files s q \<noteq> None \<longrightarrow> (\<exists>n. safe_file_name n \<and> q = ''in/'' @ n))"
proof -
  obtain s where s: "session_run toy_evp
      (receive_start (\<lambda>_. False) ''in/'' False False (new_server 4433 Map.empty))
      abc_labels (Rf_returned True, s)"
    using abc_session by blast
  have "\<exists>n. safe_file_name n \<and> q = ''in/'' @ n" if "qs_files s q \<noteq> None" for q
  proof -
    have ch: "qs_files s q \<noteq> qs_files (new_server 4433 Map.empty) q"
      using that by (simp add: new_server_def)
    have "looks_like_dir (\<lambda>_. False) ''in/''" by (simp add: looks_like_dir_def)
    with receive_confined [OF s ch] obtain n where n: "safe_file_name n" "q = path_append ''in/'' n"
      by blast
    then have "path_append ''in/'' n = ''in/'' @ n"
      by (auto simp: path_append_def safe_file_name_def)
    with n show ?thesis by blast
  qed
  with s show ?thesis by blast
qed

text \<open>
  C8: Consent comes first. When the caller asked to be prompted, no file is created,
  truncated or written as long as the user has not answered, and none at all when the
  transfer ends as rejected, whatever the peers send meanwhile.
\<close>

theorem nothing_written_before_accept:
  assumes "session_run evp (receive_start is_dir p True g s0) ls (pc, s)"
    and "undecided pc \<or> frr_rejected (qs_file_result s)"
  shows "qs_files s = qs_files s0 \<and> \<not> qs_file_accepted s"
  using untouched_run [OF assms(1) untouched_start] assms(2)
  by (simp add: untouched_def unanswered_def)

theorem nothing_written_before_accept_witness:
  "session_run toy_evp
     (receive_start (\<lambda>_. False) ''in/'' True False (new_server 4433 [''keep'' \<mapsto> ''old'']))
     asked_labels (Rf_drain False, reject_offer good_env asked_state)
   \<and> qs_files (reject_offer good_env asked_state) = [''keep'' \<mapsto> ''old'']"
proof -
  have "qs_files (new_server 4433 [''keep'' \<mapsto> ''old'']) = [''keep'' \<mapsto> ''old'']"
    by (simp add: new_server_def)
  with nothing_written_before_accept [OF asked_session] asked_rejected asked_session
  show ?thesis by metis
qed

text \<open>
  C22: Bounds on every interleaving. At every moment of a call of \<open>receive_file\<close> at most
  64 KiB wait for a header, the count of body bytes is at most the declared size, and the open
  output file is at least as long as the count and at most as long as declared. It is exactly as
  long as the count unless an I/O error was recorded: a write that failed may have put a part of
  its data on the disk, which is not counted.
\<close>

theorem receive_bounds:
  assumes "session_run evp (receive_start is_dir p ofr g s0) ls (pc, s)"
  shows "length (qs_receive_buffer s) \<le> k_max_header_bytes
    \<and> qs_bytes_written s \<le> fth_size (qs_file_header s)
    \<and> (\<forall>os. qs_file_out s = Some os \<longrightarrow>
         (\<exists>b. qs_files s (os_path os) = Some b
            \<and> unat (qs_bytes_written s) \<le> length b \<and> length b \<le> unat (fth_size (qs_file_header s))
            \<and> (\<not> qs_io_error s \<longrightarrow> length b = unat (qs_bytes_written s))))"
proof -
  have "session_inv (pc, s)" by (rule session_inv_run [OF assms session_inv_start])
  moreover have "buffer_bounded s" using buffer_bounded_run [OF assms buffer_bounded_start] by simp
  moreover have "file_sized s" by (rule file_sized_run [OF assms])
  ultimately show ?thesis
    by (auto simp: session_inv_def server_inv_def buffer_bounded_def file_sized_def)
qed

theorem receive_bounds_witness:
  "session_run toy_evp
     (receive_start (\<lambda>_. False) ''in/'' True False (new_server 4433 [''keep'' \<mapsto> ''old'']))
     asked_labels (Rf_drain False, reject_offer good_env asked_state)
   \<and> length (qs_receive_buffer (reject_offer good_env asked_state)) \<le> k_max_header_bytes"
  using receive_bounds [OF asked_session] asked_session by blast

text \<open>
  C33: A peer that floods the header is cut off. When the bytes received so far do not
  begin with a header and exceed 64 KiB, the RECEIVE callback that brings them drops the buffer,
  tells the waiting caller that the transfer failed and why, writes no file, and ignores what is
  left of its buffers; further RECEIVE callbacks of the stream change nothing. While the call is still
  under way its end of stream is answered with FAIL; once the caller has returned it is not answered.
\<close>

theorem header_flood_fails_fast:
  assumes "qs_receiving_file s" and "\<not> qs_header_parsed s" and "\<not> qs_file_accepted s"
    and "decode_opt (qs_receive_buffer s @ d) = None"
    and "length (qs_receive_buffer s @ d) > k_max_header_bytes"
    and t_def: "t = on_stream_event evp E h (Receive (d # ds)) s"
  shows "qs_file_done t \<and> \<not> qs_file_ok t \<and> qs_files t = qs_files s \<and> qs_receive_buffer t = []
    \<and> frr_error (qs_file_result t) = ''header too large or malformed''
    \<and> on_stream_event evp E' h (Receive ds') t = t
    \<and> io_calls (qs_io (on_stream_event evp good_env h PeerSendShutdown t)) =
        io_calls (qs_io s) @ [StreamSend h msg_fail True (io_next (qs_io s))]
    \<and> on_stream_event evp good_env h PeerSendShutdown (stop_receiving t) = stop_receiving t"
proof -
  have first: "append_file_bytes E d s = notify_file_waiter False
      ((set_error ''header too large or malformed'' (s\<lparr>qs_io_error := True\<rparr>))
         \<lparr>qs_header_parsed := True, qs_receive_buffer := []\<rparr>)"
    using assms(2,4,5) by (simp add: append_file_bytes_def try_parse_cases set_error_def)
  have idle: "fold (append_file_bytes X) xs u = u" if "qs_header_parsed u" "\<not> qs_file_accepted u" for X xs u
    using that append_body_idle by (induction xs) (simp_all add: append_file_bytes_def body_ready_def)
  have t: "t = append_file_bytes E d s"
    using assms(1,3) idle [of "append_file_bytes E d s" E ds] unfolding t_def on_stream_event_def first
    by (simp add: notify_file_waiter_def set_error_def first)
  have facts: "qs_header_parsed t" "\<not> qs_file_accepted t" "qs_io_error t" "qs_io t = qs_io s"
    "qs_file_done t" "\<not> qs_file_ok t" "qs_files t = qs_files s" "qs_receive_buffer t = []"
    "frr_error (qs_file_result t) = ''header too large or malformed''" "qs_receiving_file t"
    using assms(1,3) by (simp_all add: t first notify_file_waiter_def set_error_def)
  have "\<not> verdict_of evp t" using facts by (simp add: verdict_of_def verify_true)
  then show ?thesis
    using facts idle [of t E' ds'] by (simp add: on_stream_event_def finish_eq ack_send_def good_env_def stop_receiving_def)
qed

text \<open>
  C23: Send blocks are freed exactly once. Every step of a session keeps the ownership of
  the copies made for \<open>StreamSend\<close>: as long as msquic completes only sends it accepted, and
  each once, the blocks alive are those of the sends not completed yet, and nothing is
  freed that is not allocated, on success and on every failure of a send.
\<close>

theorem send_blocks_owned:
  assumes "session_step evp (pc, s) l (pc', t)" and "io_owned D (qs_io s)"
    and "\<forall>b \<in> completed_by l. b \<in> set (sent_contexts (io_calls (qs_io s))) - D"
  shows "io_owned (D \<union> completed_by l) (qs_io t)"
  using owned_step [OF assms(1), of D] assms(2,3) by simp

theorem send_blocks_owned_witness:
  "io_owned {0} (qs_io (on_stream_event toy_evp good_env 2 (SendComplete 0)
     (snd (server_send good_env (Some 2) msg_accept False (new_server 4433 Map.empty)))))
   \<and> io_live (qs_io (on_stream_event toy_evp good_env 2 (SendComplete 0)
     (snd (server_send good_env (Some 2) msg_accept False (new_server 4433 Map.empty))))) = []"
proof -
  let ?s = "snd (server_send good_env (Some 2) msg_accept False (new_server 4433 Map.empty))"
  have o: "io_owned {} (qs_io ?s)"
    by (simp add: io_owned_send io_owned_init new_server_def)
  have st: "session_step toy_evp (Rf_accepting, ?s) (L_stream 2 (SendComplete 0))
      (Rf_accepting, on_stream_event toy_evp good_env 2 (SendComplete 0) ?s)"
    by (rule stream_callback)
  have sent: "sent_contexts (io_calls (qs_io ?s)) = [0]" "io_live (qs_io ?s) = [0]"
    by (simp_all add: new_server_def good_env_def io_init_def)
  have "qs_io (on_stream_event toy_evp good_env 2 (SendComplete 0) ?s) = free_block 0 (qs_io ?s)"
    by (simp add: on_stream_event_def notify_file_waiter_def Let_def)
  then have "io_live (qs_io (on_stream_event toy_evp good_env 2 (SendComplete 0) ?s)) = []"
    using sent by (simp add: free_block_def)
  then show ?thesis
    using send_blocks_owned [OF st o] sent by (simp add: completed_by_def)
qed

theorem header_flood_fails_fast_witness:
  "let s = receive_begin (\<lambda>_. False) ''out'' False False (new_server 4433 Map.empty);
       t = on_stream_event toy_evp good_env 2 (Receive [replicate 65537 CHR ''x'', ''more'']) s
   in qs_file_done t \<and> on_stream_event toy_evp good_env 2 (Receive [''even more'']) t = t
      \<and> io_calls (qs_io (on_stream_event toy_evp good_env 2 PeerSendShutdown t)) = [StreamSend 2 msg_fail True 0]"
proof -
  let ?s = "receive_begin (\<lambda>_. False) ''out'' False False (new_server 4433 Map.empty)"
  let ?d = "replicate 65537 CHR ''x''"
  have s: "qs_receiving_file ?s" "\<not> qs_header_parsed ?s" "\<not> qs_file_accepted ?s"
    "qs_receive_buffer ?s = []" "io_calls (qs_io ?s) = []" "io_next (qs_io ?s) = 0"
    by (simp_all add: receive_begin_def new_server_def io_init_def Let_def)
  have b: "qs_receive_buffer ?s @ ?d = ?d" by (simp add: s)
  have "str_find [NL, NL] ?d = None"
    by (rule find_blank_none) simp
  then have n: "decode_opt (qs_receive_buffer ?s @ ?d) = None"
    unfolding b by (simp add: decode_opt_def decode_by_lines)
  have l: "length (qs_receive_buffer ?s @ ?d) > k_max_header_bytes"
    by (simp add: s k_max_header_bytes_def)
  from header_flood_fails_fast [OF s(1-3) n l refl, of toy_evp good_env 2 "[''more'']" good_env "[''even more'']"]
  show ?thesis unfolding Let_def s(5,6) by simp
qed

end
