(* ===== verification/Server_Races.thy ===== *)
theory Server_Races
  imports Server_Properties
begin

text \<open>
  Where the receiver falls short of what its comments promise, as theorems about the model:
  a malformed header is never answered, an automatic receiver that cannot open its output
  stays silent, and a second stream that arrives while the user is being asked is the one
  that gets accepted.
\<close>

section \<open>Streams that are never answered\<close>

lemma undecodable_fold:
  "decode_opt (qs_receive_buffer s @ concat ds) = None \<Longrightarrow>
   length (qs_receive_buffer s @ concat ds) \<le> k_max_header_bytes \<Longrightarrow>
   \<not> qs_header_parsed s \<Longrightarrow>
   fold (append_file_bytes E) ds s = s\<lparr>qs_receive_buffer := qs_receive_buffer s @ concat ds\<rparr>"
proof (induction ds arbitrary: s)
  case (Cons d ds)
  have "decode_opt (qs_receive_buffer s @ d) = None"
  proof (cases "decode_opt (qs_receive_buffer s @ d)")
    case (Some x)
    obtain h n where "x = (h, n)" by (cases x)
    with Some wire.dec_stable [of "qs_receive_buffer s @ d" h n "concat ds"] Cons.prems(1)
    show ?thesis by simp
  qed
  then have "append_file_bytes E d s = s\<lparr>qs_receive_buffer := qs_receive_buffer s @ d\<rparr>"
    using Cons.prems by (intro append_waits) simp_all
  then show ?case using Cons.IH [of "s\<lparr>qs_receive_buffer := qs_receive_buffer s @ d\<rparr>"] Cons.prems
    by simp
qed simp

section \<open>A second stream during the prompt\<close>

definition other_header :: file_transfer_header where
  "other_header = \<lparr>fth_name = ''b.txt'', fth_size = 3, fth_sha256_hex = concat (replicate 32 ''26'')\<rparr>"

lemma other_wf: "wf_header other_header" by code_simp

lemma other_spec: "receive_spec toy_evp other_header ''abc''"
  using abc_spec by (simp add: receive_spec_def abc_header_def other_header_def)

lemma offer_received:
  assumes "\<not> qs_header_parsed s" "qs_has_offer s" "qs_receiving_file s" "qs_receive_buffer s = []"
    and "wf_header h"
  shows "on_stream_event evp E st (Receive [encode_file_header h]) s
    = (with_header h s)\<lparr>qs_offer_ready := True\<rparr>"
proof -
  have "decode_opt (encode_file_header h) = Some (h, length (encode_file_header h))"
    using wire.dec_enc [OF assms(5), of "[]"] by simp
  moreover have "(with_header h (s\<lparr>qs_receive_buffer := b\<rparr>))\<lparr>qs_offer_ready := True, qs_receive_buffer := []\<rparr>
      = (with_header h s)\<lparr>qs_offer_ready := True\<rparr>" for b
    using assms(4) by (simp add: with_header_def Let_def)
  ultimately show ?thesis
    using assms by (simp add: on_stream_event_def append_file_bytes_def try_parse_cases)
qed

definition race_prompt :: quic_server where
  "race_prompt = on_stream_event toy_evp good_env 2 (Receive [encode_file_header abc_header])
     (on_connection_event 1 (PeerStreamStarted 2)
        (receive_begin (\<lambda>_. False) ''in/'' True False (new_server 4433 Map.empty)))"

text \<open>The second stream's header replaces the first, then the user says yes.\<close>

definition race_accepted :: quic_server where
  "race_accepted = snd (accept_offer good_env
     (on_stream_event toy_evp good_env 4 (Receive [encode_file_header other_header])
        (on_connection_event 3 (PeerStreamStarted 4) race_prompt)))"

definition race_done :: quic_server where
  "race_done = on_stream_event toy_evp good_env 4 (SendComplete 1)
     (on_stream_event toy_evp good_env 4 PeerSendShutdown
        (on_stream_event toy_evp good_env 4 (Receive [''abc''])
           (snd (server_send good_env (qs_file_stream race_accepted) msg_accept False race_accepted))))"

lemma race_prompt_state:
  "qs_offer_ready race_prompt" "\<not> qs_file_done race_prompt" "qs_file_header race_prompt = abc_header"
  "qs_has_offer race_prompt" "qs_receiving_file race_prompt" "qs_output_is_dir race_prompt"
  "qs_output_dir race_prompt = ''in/''" "qs_io_error race_prompt = False" "\<not> qs_overflow race_prompt"
  "\<not> qs_file_ok race_prompt"
  unfolding race_prompt_def
  by (subst offer_received; simp add: abc_wf on_connection_event_def receive_begin_def
      looks_like_dir_def api_call_def Let_def)+

lemma race_accepted_state:
  "fst (accept_offer good_env (on_stream_event toy_evp good_env 4 (Receive [encode_file_header other_header])
     (on_connection_event 3 (PeerStreamStarted 4) race_prompt))) = Rf_accepting"
  "body_state [] race_accepted" "qs_file_header race_accepted = other_header"
  "qs_output_path race_accepted = ''in/b.txt''" "qs_file_stream race_accepted = Some 4"
  "qs_receiving_file race_accepted" "\<not> qs_file_done race_accepted"
proof -
  have eq: "on_stream_event toy_evp good_env 4 (Receive [encode_file_header other_header])
      (on_connection_event 3 (PeerStreamStarted 4) race_prompt)
    = (with_header other_header (on_connection_event 3 (PeerStreamStarted 4) race_prompt))\<lparr>qs_offer_ready := True\<rparr>"
    using race_prompt_state other_wf
    by (intro offer_received) (simp_all add: on_connection_event_def api_call_def)
  have p: "path_append ''in/'' (fth_name other_header) = ''in/b.txt''" by code_simp
  let ?x = "(with_header other_header (on_connection_event 3 (PeerStreamStarted 4) race_prompt))\<lparr>qs_offer_ready := True\<rparr>"
  have acc: "race_accepted = snd (accept_offer good_env ?x)"
    by (simp only: race_accepted_def eq)
  have open_ok: "env_open good_env q" for q by (simp add: good_env_def)
  note simps = race_prompt_state accept_offer_def open_output_file_def open_ok case_prod_beta
    on_connection_event_def api_call_def with_header_def Let_def p
  show "fst (accept_offer good_env (on_stream_event toy_evp good_env 4 (Receive [encode_file_header other_header])
     (on_connection_event 3 (PeerStreamStarted 4) race_prompt))) = Rf_accepting"
    unfolding eq by (simp add: simps)
  show "body_state [] race_accepted"
    unfolding acc by (simp add: simps body_state_def file_truncate_def)
  show "qs_file_header race_accepted = other_header" "qs_file_stream race_accepted = Some 4"
    "qs_output_path race_accepted = ''in/b.txt''"
    "qs_receiving_file race_accepted" "\<not> qs_file_done race_accepted"
    unfolding acc by (simp_all add: simps)
qed

lemma race_done_state:
  "qs_file_done race_done" "qs_file_ok race_done" "qs_files race_done ''in/b.txt'' = Some ''abc''"
  "qs_file_header race_done = other_header"
proof -
  define s where "s = snd (server_send good_env (qs_file_stream race_accepted) msg_accept False race_accepted)"
  have "body_state [] s" using race_accepted_state(2) by (simp add: s_def body_state_def)
  then have "body_state ([] @ ''abc'') (append_body_bytes good_env ''abc'' s)"
    by (rule body_state_append) (simp_all add: good_env_def)
  then have b: "body_state ''abc'' (append_body_bytes good_env ''abc'' s)" by simp
  define r where "r = append_body_bytes good_env ''abc'' s"
  have parsed: "qs_header_parsed s" using race_accepted_state(2) by (simp add: s_def body_state_def)
  have h: "qs_file_header r = other_header" "qs_output_path r = ''in/b.txt''" "qs_receiving_file r"
    using race_accepted_state by (simp_all add: r_def s_def)
  have v: "verdict_of toy_evp r"
    using verdict_spec [OF toy_evp_streaming b] other_spec h by (simp add: r_def)
  have recv: "on_stream_event toy_evp good_env 4 (Receive [''abc'']) s = r"
    using race_accepted_state(6) parsed by (simp add: s_def r_def on_stream_event_def append_parsed)
  have acc: "qs_file_accepted r" using b by (simp add: r_def body_state_def)
  have fin: "race_done = on_stream_event toy_evp good_env 4 (SendComplete 1)
      (finish_file_receive toy_evp good_env 4 r)"
    unfolding race_done_def s_def [symmetric] recv using h(3) acc by (simp add: on_stream_event_def)
  show "qs_file_done race_done" "qs_file_ok race_done"
    using v h(3) by (simp_all add: fin finish_eq ack_send_def good_env_def on_stream_event_def
        notify_file_waiter_def Let_def)
  show "qs_file_header race_done = other_header"
    using h(1) by (simp add: fin on_stream_event_def notify_file_waiter_def Let_def)
  have "fth_size other_header = 3" by (simp add: other_header_def)
  then have "qs_files r ''in/b.txt'' = Some ''abc''"
    using b h by (simp add: r_def body_state_def)
  then show "qs_files race_done ''in/b.txt'' = Some ''abc''"
    by (simp add: fin on_stream_event_def notify_file_waiter_def Let_def)
qed

text \<open>The two steps of the caller in this session.\<close>

lemma race_wake:
  "session_step toy_evp (Rf_wait_offer,
      on_stream_event toy_evp good_env 2 (Receive [encode_file_header abc_header])
        (on_connection_event 1 (PeerStreamStarted 2)
           (receive_begin (\<lambda>_. False) ''in/'' True False (new_server 4433 Map.empty))))
     L_wake (Rf_prompt abc_header, race_prompt)"
  unfolding race_prompt_def [symmetric]
  using offer_arrived [of race_prompt toy_evp] race_prompt_state by simp

lemma race_answer:
  "session_step toy_evp (Rf_prompt abc_header,
      on_stream_event toy_evp good_env 4 (Receive [encode_file_header other_header])
        (on_connection_event 3 (PeerStreamStarted 4) race_prompt))
     (L_answer True) (Rf_accepting, race_accepted)"
  using answer_yes [of toy_evp abc_header
      "on_stream_event toy_evp good_env 4 (Receive [encode_file_header other_header])
        (on_connection_event 3 (PeerStreamStarted 4) race_prompt)" good_env] race_accepted_state(1)
  unfolding race_accepted_def by (metis prod.collapse)

section \<open>Properties\<close>

text \<open>
  C35: A header that is complete but malformed is treated like one that is still incomplete.
  When what the peer sent does not decode and stays within 64 KiB, then after FIN the
  receiver has sent nothing, created nothing and told its caller nothing: both sides wait
  for their timeouts.
\<close>

theorem malformed_header_unanswered:
  assumes "decode_opt (concat (concat events)) = None"
    and "length (concat (concat events)) \<le> k_max_header_bytes"
    and t: "t = receiver_run evp E c st events (receive_begin is_dir p ofr g s0)"
  shows "\<not> qs_file_done t \<and> \<not> qs_offer_ready t \<and> qs_files t = qs_files s0
    \<and> io_calls (qs_io t) = io_calls (qs_io s0) @ [SetCallbackHandler st]"
proof -
  let ?s1 = "on_connection_event c (PeerStreamStarted st) (receive_begin is_dir p ofr g s0)"
  have s1: "qs_receive_buffer ?s1 = []" "\<not> qs_header_parsed ?s1" "qs_receiving_file ?s1"
    "\<not> qs_file_accepted ?s1" "\<not> qs_io_error ?s1" "\<not> qs_file_done ?s1" "\<not> qs_offer_ready ?s1"
    "qs_files ?s1 = qs_files s0" "qs_io ?s1 = io_call (SetCallbackHandler st) (qs_io s0)"
    by (simp_all add: on_connection_event_def receive_begin_def api_call_def Let_def)
  have "t = ?s1\<lparr>qs_receive_buffer := concat (concat events)\<rparr>"
    using s1 undecodable_fold [of ?s1 "concat events" E] assms(1,2)
      receive_events [OF s1(3), of evp E st events]
    by (simp add: t receiver_run_def on_stream_event_def)
  then show ?thesis using s1 by (simp add: io_call_def)
qed

theorem malformed_header_unanswered_witness:
  "str_find [NL, NL] (''LFT/2'' @ [NL, NL]) = Some 5
   \<and> \<not> qs_file_done (receiver_run toy_evp good_env 1 2 [[''LFT/2'' @ [NL, NL]]]
       (receive_begin (\<lambda>_. False) ''in/'' False False (new_server 4433 Map.empty)))"
proof -
  have f: "str_find [NL, NL] (''LFT/2'' @ [NL, NL]) = Some 5" by code_simp
  have "decode_opt (concat (concat [[''LFT/2'' @ [NL, NL]]])) = None" by code_simp
  moreover have "length (concat (concat [[''LFT/2'' @ [NL, NL]]])) \<le> k_max_header_bytes"
    by (simp add: k_max_header_bytes_def)
  ultimately show ?thesis
    using f malformed_header_unanswered [OF _ _ refl] by blast
qed

text \<open>
  An automatic receiver that cannot open its output says nothing while the sender
  waits for its answer. After the header has arrived in full, the error is recorded, but
  no REJECT or FAIL is sent and the caller is not told, whereas the path with a prompt
  sends REJECT in the same situation.
\<close>

theorem open_failure_unanswered:
  assumes "wf_header h" and "env_open E = (\<lambda>_. False)"
    and s: "s = on_connection_event c (PeerStreamStarted st) (receive_begin is_dir p False g s0)"
    and t: "t = on_stream_event evp E st (Receive [encode_file_header h]) s"
  shows "qs_io_error t \<and> qs_io t = qs_io s \<and> \<not> qs_file_done t \<and> \<not> qs_file_accepted t
    \<and> io_calls (qs_io (snd (accept_offer (good_env\<lparr>env_open := (\<lambda>_. False)\<rparr>) s)))
        = io_calls (qs_io s) @ [StreamSend st msg_reject True (io_next (qs_io s))]"
proof -
  have s1: "qs_receive_buffer s = []" "\<not> qs_header_parsed s" "qs_receiving_file s"
    "\<not> qs_file_accepted s" "\<not> qs_file_done s" "\<not> qs_has_offer s" "qs_file_stream s = Some st"
    by (simp_all add: s on_connection_event_def receive_begin_def api_call_def Let_def)
  have d: "decode_opt (encode_file_header h) = Some (h, length (encode_file_header h))"
    using wire.dec_enc [OF assms(1), of "[]"] by simp
  have "t = (snd (open_output_file E (with_header h (s\<lparr>qs_receive_buffer := encode_file_header h\<rparr>))))
      \<lparr>qs_receive_buffer := []\<rparr>"
    using s1 d assms(2)
    by (simp add: t on_stream_event_def append_file_bytes_def try_parse_cases open_output_file_def)
  moreover have "qs_io_error (snd (open_output_file E x))" for x
    using assms(2) by (simp add: open_output_file_def set_error_def)
  moreover have "io_calls (qs_io (snd (accept_offer (good_env\<lparr>env_open := (\<lambda>_. False)\<rparr>) s)))
        = io_calls (qs_io s) @ [StreamSend st msg_reject True (io_next (qs_io s))]"
    using s1 by (simp add: accept_offer_def open_output_file_def good_env_def set_error_def)
  ultimately show ?thesis using s1 by simp
qed

theorem open_failure_unanswered_witness:
  "\<not> qs_file_done (on_stream_event toy_evp (good_env\<lparr>env_open := (\<lambda>_. False)\<rparr>) 2
       (Receive [encode_file_header abc_header])
       (on_connection_event 1 (PeerStreamStarted 2)
          (receive_begin (\<lambda>_. False) ''in/'' False False (new_server 4433 Map.empty))))"
  using open_failure_unanswered [OF abc_wf _ refl refl,
      where E = "good_env\<lparr>env_open := (\<lambda>_. False)\<rparr>" and st = 2 and evp = toy_evp and c = 1
        and is_dir = "\<lambda>_. False" and p = "''in/''" and g = False and ?s0.0 = "new_server 4433 Map.empty"]
  by simp

text \<open>
  C34: The offer the user accepts need not be the one transferred. There is a session in
  which the user is shown the header of \<open>a.txt\<close>, a second connection opens a stream and
  announces \<open>b.txt\<close> before the answer, the answer is yes, and the call returns true having
  stored \<open>b.txt\<close> from the second connection.
\<close>

theorem accepted_offer_can_be_replaced:
  "\<exists>before after s1 s2.
     session_run toy_evp
       (receive_start (\<lambda>_. False) ''in/'' True False (new_server 4433 Map.empty))
       before (Rf_prompt abc_header, s1)
     \<and> session_run toy_evp (Rf_prompt abc_header, s1) after (Rf_returned True, s2)
     \<and> qs_files s2 ''in/b.txt'' = Some ''abc''
     \<and> qs_file_header s2 = other_header \<and> fth_name abc_header = ''a.txt''"
proof -
  let ?hdr1 = "Receive [encode_file_header abc_header]"
  let ?hdr2 = "Receive [encode_file_header other_header]"
  have one: "session_run toy_evp
      (receive_start (\<lambda>_. False) ''in/'' True False (new_server 4433 Map.empty))
      [L_connection 1 (PeerStreamStarted 2), L_stream 2 ?hdr1, L_wake] (Rf_prompt abc_header, race_prompt)"
    unfolding receive_start_def if_True
    by (rule run_step [OF connection_callback], rule run_step [OF stream_callback],
        rule run_step [OF race_wake], rule run_nil)
  have fin: "session_run toy_evp (Rf_wait_done, race_done) [L_wake, L_timeout]
      (Rf_returned True, stop_receiving race_done)"
    by (intro run_step [OF done_ok] run_step [OF drain_timeout] run_nil race_done_state)
  have two: "session_run toy_evp (Rf_prompt abc_header, race_prompt)
      [L_connection 3 (PeerStreamStarted 4), L_stream 4 ?hdr2, L_answer True, L_send_accept,
       L_stream 4 (Receive [''abc'']), L_stream 4 PeerSendShutdown, L_stream 4 (SendComplete 1),
       L_wake, L_timeout] (Rf_returned True, stop_receiving race_done)"
    unfolding race_done_def
    by (rule run_step [OF connection_callback], rule run_step [OF stream_callback],
        rule run_step [OF race_answer], rule run_step [OF send_accept],
        rule run_step [OF stream_callback], rule run_step [OF stream_callback],
        rule run_step [OF stream_callback], rule fin [unfolded race_done_def])
  have "qs_files (stop_receiving race_done) ''in/b.txt'' = Some ''abc''"
    "qs_file_header (stop_receiving race_done) = other_header" "fth_name abc_header = ''a.txt''"
    using race_done_state by (simp_all add: stop_receiving_def abc_header_def)
  with one two show ?thesis by blast
qed

end
