(* ===== verification/Quic_Client.thy ===== *)
theory Quic_Client
  imports Quic_Server
begin

text \<open>
  The sending side, \<open>src/transfer/quic_client.cpp\<close>: the state of \<open>QuicClient\<close>, what its
  msquic callbacks do to it, and the operations the application thread runs between two
  waits. The threads are put together in \<open>Client_Session\<close>. Calls of msquic are logged in
  \<open>qc_io\<close> when they succeed; whether they do is decided by an environment.
\<close>

section \<open>State\<close>

record quic_client =
  qc_host :: bytes
  qc_port :: u16
  qc_connected :: bool
  qc_api :: bool
  qc_registration :: "handle option"
  qc_configuration :: "handle option"
  qc_connection :: "handle option"
  qc_connect_done :: bool
  qc_connect_ok :: bool
  qc_shutdown_complete :: bool
  qc_stream :: "handle option"
  qc_send_done :: bool
  qc_file_done :: bool
  qc_file_ok :: bool
  qc_file_ack :: bytes
  qc_awaiting_decision :: bool
  qc_decision_ready :: bool
  qc_decision_accepted :: bool
  qc_decision_buf :: bytes
  qc_rejected :: bool
  qc_progress :: "(u64 \<times> u64) list"
  qc_io :: quic_io

definition new_client :: quic_client where
  "new_client = \<lparr>qc_host = [], qc_port = 0, qc_connected = False, qc_api = False,
     qc_registration = None, qc_configuration = None, qc_connection = None,
     qc_connect_done = False, qc_connect_ok = False, qc_shutdown_complete = False,
     qc_stream = None, qc_send_done = False, qc_file_done = False, qc_file_ok = False,
     qc_file_ack = [], qc_awaiting_decision = False, qc_decision_ready = False,
     qc_decision_accepted = False, qc_decision_buf = [], qc_rejected = False,
     qc_progress = [], qc_io = io_init\<rparr>"

definition k_file_chunk_size :: nat where
  "k_file_chunk_size = 64 * 1024"

section \<open>Notifications\<close>

definition notify_connect_waiter :: "bool \<Rightarrow> quic_client \<Rightarrow> quic_client" where
  "notify_connect_waiter success s = s\<lparr>qc_connect_done := True, qc_connect_ok := success\<rparr>"

definition notify_send_waiter :: "unit \<Rightarrow> quic_client \<Rightarrow> quic_client" where
  "notify_send_waiter u s = s\<lparr>qc_send_done := True\<rparr>"

definition client_notify_file_waiter :: "bool \<Rightarrow> quic_client \<Rightarrow> quic_client" where
  "client_notify_file_waiter success s = s\<lparr>qc_file_done := True, qc_file_ok := success\<rparr>"

definition resolve_decision :: "bool \<Rightarrow> quic_client \<Rightarrow> quic_client" where
  "resolve_decision accepted s =
     s\<lparr>qc_awaiting_decision := False, qc_decision_accepted := accepted, qc_decision_ready := True\<rparr>"

definition client_call :: "quic_call \<Rightarrow> quic_client \<Rightarrow> quic_client" where
  "client_call c s = s\<lparr>qc_io := io_call c (qc_io s)\<rparr>"

section \<open>Callbacks\<close>

datatype client_connection_event =
    C_connected
  | C_shutdown_by_transport
  | C_shutdown_by_peer
  | C_shutdown_complete bool
  | C_other

definition client_on_connection_event ::
  "handle \<Rightarrow> client_connection_event \<Rightarrow> quic_client \<Rightarrow> quic_client" where
  "client_on_connection_event connection ev s =
     (case ev of
        C_connected \<Rightarrow> notify_connect_waiter True (s\<lparr>qc_connected := True\<rparr>)
      | C_shutdown_by_transport \<Rightarrow> if \<not> qc_connected s then notify_connect_waiter False s else s
      | C_shutdown_by_peer \<Rightarrow> if \<not> qc_connected s then notify_connect_waiter False s else s
      | C_shutdown_complete app_close \<Rightarrow>
          (let s1 = s\<lparr>qc_connected := False\<rparr>;
               s2 = (if \<not> app_close then client_call (ConnectionClose connection) s1 else s1)
           in s2\<lparr>qc_connection := None, qc_shutdown_complete := True\<rparr>)
      | C_other \<Rightarrow> s)"

definition receive_reply :: "bytes \<Rightarrow> quic_client \<Rightarrow> quic_client" where
  "receive_reply buf s =
     (if qc_awaiting_decision s then s\<lparr>qc_decision_buf := qc_decision_buf s @ buf\<rparr>
      else s\<lparr>qc_file_ack := qc_file_ack s @ buf\<rparr>)"

definition client_on_stream_event :: "handle \<Rightarrow> stream_event \<Rightarrow> quic_client \<Rightarrow> quic_client" where
  "client_on_stream_event stream ev s =
     (case ev of
        Receive bufs \<Rightarrow>
          (let s1 = fold receive_reply bufs s
           in if qc_awaiting_decision s1 \<and> str_find [NL] (qc_decision_buf s1) \<noteq> None
              then resolve_decision (starts_with (qc_decision_buf s1) ''ACCEPT'') s1 else s1)
      | PeerSendShutdown \<Rightarrow>
          if qc_awaiting_decision s
          then resolve_decision (starts_with (qc_decision_buf s) ''ACCEPT'') s
          else client_notify_file_waiter (starts_with (qc_file_ack s) ''OK'') s
      | SendComplete ctx \<Rightarrow> notify_send_waiter () (s\<lparr>qc_io := free_block ctx (qc_io s)\<rparr>)
      | PeerSendAborted \<Rightarrow> s
      | PeerReceiveAborted \<Rightarrow> s
      | StreamShutdownComplete app_close \<Rightarrow>
          (let s1 = (if \<not> app_close then client_call (StreamClose stream) s else s)
           in s1\<lparr>qc_stream := None\<rparr>)
      | OtherStreamEvent \<Rightarrow> s)"

section \<open>Streams\<close>

text \<open>\<open>opened\<close> is the handle of \<open>StreamOpen\<close>, if it succeeds; \<open>started\<close> the status of
  \<open>StreamStart\<close>.\<close>

record client_env =
  ce_stream :: "handle option"
  ce_stream_start :: bool
  ce_send :: send_env

definition open_stream :: "client_env \<Rightarrow> quic_client \<Rightarrow> bool \<times> quic_client" where
  "open_stream E s =
     (case ce_stream E of
        None \<Rightarrow> (False, s\<lparr>qc_stream := None\<rparr>)
      | Some h \<Rightarrow>
          let s1 = (client_call (StreamOpen h) s)\<lparr>qc_stream := Some h\<rparr>
          in if \<not> ce_stream_start E then (False, (client_call (StreamClose h) s1)\<lparr>qc_stream := None\<rparr>)
             else (True, client_call (StreamStart h) s1))"

text \<open>The part of \<open>stream_send_and_wait\<close> before the wait.\<close>

definition stream_send_begin :: "client_env \<Rightarrow> bytes \<Rightarrow> bool \<Rightarrow> quic_client \<Rightarrow> bool \<times> quic_client" where
  "stream_send_begin E data fin s =
     (case stream_send_copy (ce_send E) (qc_stream s) data fin (qc_io s) of
        (ok, io) \<Rightarrow> (ok, s\<lparr>qc_send_done := False, qc_io := io\<rparr>))"

definition abort_stream :: "quic_client \<Rightarrow> quic_client" where
  "abort_stream s =
     (if qc_api s then
        (case qc_stream s of None \<Rightarrow> s | Some h \<Rightarrow> client_call (StreamShutdown h) s)
      else s)"

section \<open>Waiting\<close>

interpretation connect_waiter:
  waiter "\<lambda>s. s\<lparr>qc_connect_done := False, qc_connect_ok := False\<rparr>" notify_connect_waiter
    qc_connect_done qc_connect_ok
  by unfold_locales (simp_all add: notify_connect_waiter_def)

interpretation send_waiter:
  waiter "\<lambda>s. s\<lparr>qc_send_done := False\<rparr>" notify_send_waiter qc_send_done "\<lambda>_. ()"
  by unfold_locales (simp_all add: notify_send_waiter_def)

interpretation client_file_waiter:
  waiter "\<lambda>s. s\<lparr>qc_file_done := False, qc_file_ok := False\<rparr>" client_notify_file_waiter
    qc_file_done qc_file_ok
  by unfold_locales (simp_all add: client_notify_file_waiter_def)

interpretation decision_waiter:
  waiter "\<lambda>s. s\<lparr>qc_decision_ready := False, qc_decision_accepted := False\<rparr>" resolve_decision
    qc_decision_ready qc_decision_accepted
  by unfold_locales (simp_all add: resolve_decision_def)

end
