(* ===== verification/Client_Session.thy ===== *)
theory Client_Session
  imports Quic_Client
begin

text \<open>
  \<open>QuicClient::send_file\<close> and \<open>send_file_internal\<close> with the callbacks in between. The
  application thread is a program counter at its waits; what it does from one wait to the
  next is a function. The relation \<open>send_step\<close> interleaves these with callbacks on any
  stream or connection.
\<close>

section \<open>Between the waits\<close>

datatype send_pc =
    Sd_header_wait
  | Sd_decision
  | Sd_chunk_wait u64 bytes \<comment> \<open>bytes sent, and what the input stream still holds\<close>
  | Sd_empty_wait
  | Sd_ack_wait
  | Sd_returned bool

text \<open>One call: its header, the number of bytes to send, what opening the file gives, and
  whether a progress callback was passed.\<close>

record send_job =
  sj_header :: file_transfer_header
  sj_size :: u64
  sj_file :: "bytes option"
  sj_progress :: bool

definition send_fail :: "quic_client \<Rightarrow> send_pc \<times> quic_client" where
  "send_fail s = (Sd_returned False, abort_stream s)"

definition report_progress :: "send_job \<Rightarrow> u64 \<Rightarrow> u64 \<Rightarrow> quic_client \<Rightarrow> quic_client" where
  "report_progress job sent of_total s =
     (if sj_progress job then s\<lparr>qc_progress := qc_progress s @ [(sent, of_total)]\<rparr> else s)"

text \<open>\<open>send_file_internal\<close> up to the wait for the header.\<close>

definition send_file_internal ::
  "client_env \<Rightarrow> file_transfer_header \<Rightarrow> quic_client \<Rightarrow> send_pc \<times> quic_client" where
  "send_file_internal E header s =
     (if \<not> qc_connected s \<or> qc_connection s = None \<or> \<not> qc_api s then (Sd_returned False, s)
      else
        let header_text = encode_file_header header;
            s1 = s\<lparr>qc_file_ack := [], qc_rejected := False, qc_decision_buf := [],
                   qc_decision_ready := False, qc_decision_accepted := False,
                   qc_file_done := False, qc_file_ok := False\<rparr>
        in case open_stream E s1 of
             (opened, s2) \<Rightarrow>
               if \<not> opened then (Sd_returned False, s2)
               else
                 case stream_send_begin E header_text False (s2\<lparr>qc_awaiting_decision := True\<rparr>) of
                   (ok, s3) \<Rightarrow> if ok then (Sd_header_wait, s3) else send_fail s3)"

text \<open>One turn of the loop that sends the body, up to its wait; a read past the end of the
  file ends the loop.\<close>

definition send_chunk ::
  "client_env \<Rightarrow> u64 \<Rightarrow> u64 \<Rightarrow> bytes \<Rightarrow> quic_client \<Rightarrow> send_pc \<times> quic_client" where
  "send_chunk E file_size sent input s =
     (if sent < file_size then
        let remaining = file_size - sent;
            want = min (unat remaining) k_file_chunk_size;
            chunk = take want input;
            n = length chunk
        in if n = 0 then (if sent \<noteq> file_size then send_fail s else (Sd_ack_wait, s))
           else
             let sent' = sent + of_nat n;
                 fin = (sent' \<ge> file_size)
             in case stream_send_begin E chunk fin s of
                  (ok, s1) \<Rightarrow> if ok then (Sd_chunk_wait sent' (drop n input), s1) else send_fail s1
      else if sent \<noteq> file_size then send_fail s else (Sd_ack_wait, s))"

definition send_body :: "client_env \<Rightarrow> send_job \<Rightarrow> quic_client \<Rightarrow> send_pc \<times> quic_client" where
  "send_body E job s =
     (if sj_size job = 0 then
        (case stream_send_begin E [] True s of
           (ok, s1) \<Rightarrow> if ok then (Sd_empty_wait, s1) else send_fail s1)
      else
        (case sj_file job of
           None \<Rightarrow> send_fail s
         | Some input \<Rightarrow> send_chunk E (sj_size job) 0 input s))"

text \<open>\<open>send_file\<close>: what \<open>std::filesystem\<close> says of the path, then the header.\<close>

record path_info =
  pi_exists :: bool
  pi_directory :: bool
  pi_regular :: bool
  pi_size :: "u64 option"

definition send_file ::
  "'c evp_api \<Rightarrow> client_env \<Rightarrow> path_info \<Rightarrow> files \<Rightarrow> path \<Rightarrow> quic_client \<Rightarrow> send_pc \<times> quic_client" where
  "send_file evp E info fs file_path s =
     (if \<not> qc_connected s \<or> qc_connection s = None \<or> \<not> qc_api s then (Sd_returned False, s)
      else if \<not> pi_exists info then (Sd_returned False, s)
      else if pi_directory info then (Sd_returned False, s)
      else if \<not> pi_regular info then (Sd_returned False, s)
      else
        case pi_size info of
          None \<Rightarrow> (Sd_returned False, s)
        | Some file_size \<Rightarrow>
            (case sha256_file evp fs file_path [] 0 of
               (hashed, file_hash, _) \<Rightarrow>
                 if \<not> hashed then (Sd_returned False, s)
                 else send_file_internal E
                        \<lparr>fth_name = path_filename file_path, fth_size = file_size,
                         fth_sha256_hex = file_hash\<rparr> s))"

section \<open>Steps\<close>

datatype client_label =
    S_stream handle stream_event
  | S_connection handle client_connection_event
  | S_wake
  | S_timeout

inductive send_step ::
  "send_job \<Rightarrow> send_pc \<times> quic_client \<Rightarrow> client_label \<Rightarrow> send_pc \<times> quic_client \<Rightarrow> bool"
  for job where
  client_stream_callback:
    "send_step job (pc, s) (S_stream h ev) (pc, client_on_stream_event h ev s)"
| client_connection_callback:
    "send_step job (pc, s) (S_connection c cev) (pc, client_on_connection_event c cev s)"
| header_sent:
    "qc_send_done s \<Longrightarrow> send_step job (Sd_header_wait, s) S_wake (Sd_decision, s)"
| header_timeout:
    "\<not> qc_send_done s \<Longrightarrow> send_step job (Sd_header_wait, s) S_timeout (send_fail s)"
| decision_timeout:
    "\<not> qc_decision_ready s \<Longrightarrow> send_step job (Sd_decision, s) S_timeout (send_fail s)"
| decision_no:
    "qc_decision_ready s \<Longrightarrow> \<not> qc_decision_accepted s \<Longrightarrow>
     send_step job (Sd_decision, s) S_wake (send_fail (s\<lparr>qc_rejected := True\<rparr>))"
| decision_yes:
    "qc_decision_ready s \<Longrightarrow> qc_decision_accepted s \<Longrightarrow>
     send_step job (Sd_decision, s) S_wake (send_body E job s)"
| chunk_sent:
    "qc_send_done s \<Longrightarrow>
     send_step job (Sd_chunk_wait sent input, s) S_wake
       (send_chunk E (sj_size job) sent input
          (report_progress job sent (fth_size (sj_header job)) s))"
| chunk_timeout:
    "\<not> qc_send_done s \<Longrightarrow> send_step job (Sd_chunk_wait sent input, s) S_timeout (send_fail s)"
| empty_sent:
    "qc_send_done s \<Longrightarrow>
     send_step job (Sd_empty_wait, s) S_wake (Sd_ack_wait, report_progress job 0 0 s)"
| empty_timeout:
    "\<not> qc_send_done s \<Longrightarrow> send_step job (Sd_empty_wait, s) S_timeout (send_fail s)"
| ack_arrived:
    "qc_file_done s \<Longrightarrow> send_step job (Sd_ack_wait, s) S_wake (Sd_returned (qc_file_ok s), s)"
| ack_timeout:
    "\<not> qc_file_done s \<Longrightarrow> send_step job (Sd_ack_wait, s) S_timeout (Sd_returned False, s)"

inductive send_run ::
  "send_job \<Rightarrow> send_pc \<times> quic_client \<Rightarrow> client_label list \<Rightarrow> send_pc \<times> quic_client \<Rightarrow> bool"
  for job where
  send_nil: "send_run job x [] x"
| send_cons: "send_step job x l y \<Longrightarrow> send_run job y ls z \<Longrightarrow> send_run job x (l # ls) z"

inductive_cases send_step_returnedE: "send_step job (Sd_returned b, s) l y"

lemma send_invariant:
  assumes "send_run job x ls y" and "P x"
    and "\<And>x l y. send_step job x l y \<Longrightarrow> P x \<Longrightarrow> P y"
  shows "P y"
  using assms by (induction rule: send_run.induct) auto

lemma send_run_append:
  "send_run job x ls y \<Longrightarrow> send_run job y ms z \<Longrightarrow> send_run job x (ls @ ms) z"
  by (induction rule: send_run.induct) (auto intro: send_cons)

section \<open>What was sent\<close>

text \<open>Payload and FIN of the sends msquic accepted, in order.\<close>

fun sends_of :: "quic_call list \<Rightarrow> (bytes \<times> bool) list" where
  "sends_of [] = []"
| "sends_of (StreamSend h d f b # cs) = (d, f) # sends_of cs"
| "sends_of (_ # cs) = sends_of cs"

lemma sends_of_append [simp]: "sends_of (xs @ ys) = sends_of xs @ sends_of ys"
  by (induction xs rule: sends_of.induct) auto

abbreviation client_sends :: "quic_client \<Rightarrow> (bytes \<times> bool) list" where
  "client_sends s \<equiv> sends_of (io_calls (qc_io s))"

text \<open>Chunks that carry the first \<open>n\<close> bytes of a file of which \<open>m\<close> are to be sent.\<close>

definition chunks_of :: "bytes \<Rightarrow> nat \<Rightarrow> nat \<Rightarrow> (bytes \<times> bool) list \<Rightarrow> bool" where
  "chunks_of content m n cs \<longleftrightarrow> concat (map fst cs) = take n content \<and> n \<le> length content
     \<and> n \<le> m \<and> (\<forall>c \<in> set cs. fst c \<noteq> [] \<and> length (fst c) \<le> k_file_chunk_size)
     \<and> (cs \<noteq> [] \<longrightarrow> snd (last cs) = (n = m)) \<and> (\<forall>c \<in> set (butlast cs). \<not> snd c)"

lemma chunks_of_snoc:
  assumes "chunks_of ct m n cs" and "n < m" and "c \<noteq> []" and "length c \<le> k_file_chunk_size"
    and "c = take (length c) (drop n ct)" and "n + length c \<le> m"
  shows "chunks_of ct m (n + length c) (cs @ [(c, m \<le> n + length c)])"
proof -
  have le: "n + length c \<le> length ct"
  proof -
    have "length c \<le> length (drop n ct)" using assms(5) by (metis length_take min.cobounded2 min.commute)
    then show ?thesis using assms(1,3) by (cases "n \<le> length ct") (auto simp: chunks_of_def)
  qed
  have text_eq: "take (n + length c) ct = take n ct @ c"
    using assms(5) by (simp add: take_add)
  have "\<forall>x \<in> set cs. \<not> snd x"
    using assms(1,2) by (cases cs rule: rev_cases) (auto simp: chunks_of_def)
  then show ?thesis using assms le text_eq by (auto simp: chunks_of_def)
qed

end
