(* ===== verification/Client_Facts.thy ===== *)
theory Client_Facts
  imports Client_Session
begin

text \<open>
  The sender's invariant: at every point of \<open>send_file\<close> what was sent is the header, then,
  only after the receiver's text began with \<open>ACCEPT\<close>, chunks of the file in order, with FIN
  on the last chunk and nowhere else.
\<close>

section \<open>Frames of the callbacks\<close>

lemma receive_reply_frame [simp]:
  "qc_io (receive_reply b s) = qc_io s" "qc_awaiting_decision (receive_reply b s) = qc_awaiting_decision s"
  "qc_decision_ready (receive_reply b s) = qc_decision_ready s"
  "qc_decision_accepted (receive_reply b s) = qc_decision_accepted s"
  "qc_file_ok (receive_reply b s) = qc_file_ok s" "qc_progress (receive_reply b s) = qc_progress s"
  "qc_rejected (receive_reply b s) = qc_rejected s" "qc_file_done (receive_reply b s) = qc_file_done s"
  "qc_stream (receive_reply b s) = qc_stream s" "qc_api (receive_reply b s) = qc_api s"
  "qc_send_done (receive_reply b s) = qc_send_done s"
  by (simp_all add: receive_reply_def)

lemma receive_replies_frame [simp]:
  "qc_io (fold receive_reply bs s) = qc_io s"
  "qc_awaiting_decision (fold receive_reply bs s) = qc_awaiting_decision s"
  "qc_decision_ready (fold receive_reply bs s) = qc_decision_ready s"
  "qc_decision_accepted (fold receive_reply bs s) = qc_decision_accepted s"
  "qc_file_ok (fold receive_reply bs s) = qc_file_ok s"
  "qc_progress (fold receive_reply bs s) = qc_progress s"
  "qc_rejected (fold receive_reply bs s) = qc_rejected s"
  "qc_file_done (fold receive_reply bs s) = qc_file_done s"
  "qc_stream (fold receive_reply bs s) = qc_stream s" "qc_api (fold receive_reply bs s) = qc_api s"
  "qc_send_done (fold receive_reply bs s) = qc_send_done s"
  by (induction bs arbitrary: s) simp_all

lemma receive_replies_text:
  "qc_decision_buf (fold receive_reply bs s) =
     (if qc_awaiting_decision s then qc_decision_buf s @ concat bs else qc_decision_buf s)"
  "qc_file_ack (fold receive_reply bs s) =
     (if qc_awaiting_decision s then qc_file_ack s else qc_file_ack s @ concat bs)"
proof -
  show "qc_decision_buf (fold receive_reply bs s) =
     (if qc_awaiting_decision s then qc_decision_buf s @ concat bs else qc_decision_buf s)"
    by (induction bs arbitrary: s) (simp_all add: receive_reply_def)
  show "qc_file_ack (fold receive_reply bs s) =
     (if qc_awaiting_decision s then qc_file_ack s else qc_file_ack s @ concat bs)"
    by (induction bs arbitrary: s) (simp_all add: receive_reply_def)
qed

lemma client_stream_event_sends [simp]:
  "client_sends (client_on_stream_event h ev s) = client_sends s"
  by (cases ev) (simp_all add: client_on_stream_event_def resolve_decision_def notify_send_waiter_def
      client_notify_file_waiter_def client_call_def io_call_def free_block_def Let_def)

lemma client_connection_event_sends [simp]:
  "client_sends (client_on_connection_event c ev s) = client_sends s"
  by (cases ev) (simp_all add: client_on_connection_event_def notify_connect_waiter_def
      client_call_def io_call_def Let_def)

lemma client_connection_event_frame [simp]:
  "qc_decision_ready (client_on_connection_event c ev s) = qc_decision_ready s"
  "qc_decision_accepted (client_on_connection_event c ev s) = qc_decision_accepted s"
  "qc_awaiting_decision (client_on_connection_event c ev s) = qc_awaiting_decision s"
  "qc_decision_buf (client_on_connection_event c ev s) = qc_decision_buf s"
  "qc_file_ok (client_on_connection_event c ev s) = qc_file_ok s"
  "qc_file_ack (client_on_connection_event c ev s) = qc_file_ack s"
  "qc_rejected (client_on_connection_event c ev s) = qc_rejected s"
  "qc_progress (client_on_connection_event c ev s) = qc_progress s"
  "qc_file_done (client_on_connection_event c ev s) = qc_file_done s"
  "qc_send_done (client_on_connection_event c ev s) = qc_send_done s"
  by (cases ev; simp add: client_on_connection_event_def notify_connect_waiter_def client_call_def Let_def)+

lemma client_stream_event_frame [simp]:
  "qc_rejected (client_on_stream_event h ev s) = qc_rejected s"
  "qc_progress (client_on_stream_event h ev s) = qc_progress s"
  by (cases ev; simp add: client_on_stream_event_def resolve_decision_def notify_send_waiter_def
      client_notify_file_waiter_def client_call_def Let_def)+

lemma abort_stream_frame [simp]:
  "client_sends (abort_stream s) = client_sends s"
  "qc_rejected (abort_stream s) = qc_rejected s" "qc_progress (abort_stream s) = qc_progress s"
  "qc_decision_ready (abort_stream s) = qc_decision_ready s"
  "qc_decision_accepted (abort_stream s) = qc_decision_accepted s"
  "qc_awaiting_decision (abort_stream s) = qc_awaiting_decision s"
  "qc_decision_buf (abort_stream s) = qc_decision_buf s"
  "qc_file_ok (abort_stream s) = qc_file_ok s" "qc_file_ack (abort_stream s) = qc_file_ack s"
  by (simp_all add: abort_stream_def client_call_def io_call_def split: option.splits)

lemma send_begin_cases:
  assumes "stream_send_begin E d fin s = (ok, s')"
  shows "client_sends s' = client_sends s @ (if ok then [(u32_part d, fin)] else [])"
    and "\<exists>io. s' = s\<lparr>qc_send_done := False, qc_io := io\<rparr>"
proof -
  obtain io where io: "stream_send_copy (ce_send E) (qc_stream s) d fin (qc_io s) = (ok, io)"
    and s': "s' = s\<lparr>qc_send_done := False, qc_io := io\<rparr>"
    using assms by (auto simp: stream_send_begin_def split: prod.splits)
  show "client_sends s' = client_sends s @ (if ok then [(u32_part d, fin)] else [])"
    using stream_send_copy_cases [OF io] by (auto simp: s')
  show "\<exists>io. s' = s\<lparr>qc_send_done := False, qc_io := io\<rparr>" using s' by blast
qed

section \<open>What the receiver said\<close>

text \<open>The recorded decision is what the text says, and OK was read before success.\<close>

definition replies_inv :: "quic_client \<Rightarrow> bool" where
  "replies_inv s \<longleftrightarrow>
     (qc_decision_ready s \<longrightarrow> \<not> qc_awaiting_decision s
        \<and> (qc_decision_accepted s \<longleftrightarrow> starts_with (qc_decision_buf s) ''ACCEPT''))
     \<and> (qc_file_ok s \<longrightarrow> starts_with (qc_file_ack s) ''OK'')"

lemma starts_with_append: "starts_with s p \<Longrightarrow> starts_with (s @ t) p"
proof -
  assume s: "starts_with s p"
  then have "length p \<le> length s" by (metis starts_with_def length_take min.cobounded1)
  with s show ?thesis by (simp add: starts_with_def)
qed

lemma replies_stream_event: "replies_inv s \<Longrightarrow> replies_inv (client_on_stream_event h ev s)"
proof (cases ev)
  case (Receive bufs)
  assume i: "replies_inv s"
  with Receive show ?thesis
    by (auto simp: client_on_stream_event_def replies_inv_def resolve_decision_def
        receive_replies_text starts_with_append Let_def)
next
  case PeerSendShutdown
  moreover assume "replies_inv s"
  ultimately show ?thesis
    by (auto simp: client_on_stream_event_def replies_inv_def resolve_decision_def
        client_notify_file_waiter_def)
qed (simp_all add: client_on_stream_event_def replies_inv_def notify_send_waiter_def
      client_call_def Let_def)

lemma replies_connection_event: "replies_inv s \<Longrightarrow> replies_inv (client_on_connection_event c ev s)"
  by (simp add: replies_inv_def)

lemma replies_abort [simp]: "replies_inv (abort_stream s) = replies_inv s"
  by (simp add: replies_inv_def)

lemma replies_update [simp]:
  "replies_inv (s\<lparr>qc_send_done := x\<rparr>) = replies_inv s" "replies_inv (s\<lparr>qc_io := io\<rparr>) = replies_inv s"
  "replies_inv (s\<lparr>qc_rejected := x\<rparr>) = replies_inv s" "replies_inv (s\<lparr>qc_progress := g\<rparr>) = replies_inv s"
  by (simp_all add: replies_inv_def)

text \<open>A decision once taken stays.\<close>

definition accepted_client :: "quic_client \<Rightarrow> bool" where
  "accepted_client s \<longleftrightarrow> qc_decision_ready s \<and> qc_decision_accepted s"

lemma accepted_stream_event:
  "replies_inv s \<Longrightarrow> accepted_client s \<Longrightarrow> accepted_client (client_on_stream_event h ev s)"
  by (cases ev) (auto simp: client_on_stream_event_def accepted_client_def replies_inv_def
      notify_send_waiter_def client_notify_file_waiter_def client_call_def Let_def)

lemma accepted_frame [simp]:
  "accepted_client (client_on_connection_event c ev s) = accepted_client s"
  "accepted_client (abort_stream s) = accepted_client s"
  "accepted_client (s\<lparr>qc_send_done := x\<rparr>) = accepted_client s"
  "accepted_client (s\<lparr>qc_io := io\<rparr>) = accepted_client s"
  "accepted_client (s\<lparr>qc_progress := g\<rparr>) = accepted_client s"
  by (simp_all add: accepted_client_def)

section \<open>The invariant\<close>

definition body_sent :: "send_job \<Rightarrow> (bytes \<times> bool) list \<Rightarrow> bool" where
  "body_sent job cs \<longleftrightarrow>
     (if sj_size job = 0 then cs = [([], True)]
      else \<exists>ct. sj_file job = Some ct \<and> chunks_of ct (unat (sj_size job)) (unat (sj_size job)) cs)"

definition body_partly :: "send_job \<Rightarrow> u64 \<Rightarrow> bytes \<Rightarrow> (bytes \<times> bool) list \<Rightarrow> bool" where
  "body_partly job sent input cs \<longleftrightarrow> sj_size job \<noteq> 0 \<and>
     (\<exists>ct. sj_file job = Some ct \<and> input = drop (unat sent) ct
        \<and> chunks_of ct (unat (sj_size job)) (unat sent) cs)"

definition body_prefix :: "send_job \<Rightarrow> (bytes \<times> bool) list \<Rightarrow> bool" where
  "body_prefix job cs \<longleftrightarrow>
     cs = [] \<or> body_sent job cs \<or> (\<exists>sent input. body_partly job sent input cs)"

definition send_progressed :: "send_job \<Rightarrow> send_pc \<Rightarrow> (bytes \<times> bool) list \<Rightarrow> bool" where
  "send_progressed job pc cs \<longleftrightarrow>
     (case pc of
        Sd_header_wait \<Rightarrow> cs = []
      | Sd_decision \<Rightarrow> cs = []
      | Sd_chunk_wait sent input \<Rightarrow> body_partly job sent input cs
      | Sd_empty_wait \<Rightarrow> body_sent job cs
      | Sd_ack_wait \<Rightarrow> body_sent job cs
      | Sd_returned b \<Rightarrow> if b then body_sent job cs else body_prefix job cs)"

lemma progressed_prefix: "send_progressed job pc cs \<Longrightarrow> body_prefix job cs"
  by (cases pc) (auto simp: send_progressed_def body_prefix_def split: if_splits)

definition past_decision :: "send_pc \<Rightarrow> bool" where
  "past_decision pc \<longleftrightarrow>
     (case pc of Sd_header_wait \<Rightarrow> False | Sd_decision \<Rightarrow> False | Sd_returned b \<Rightarrow> b | _ \<Rightarrow> True)"

text \<open>\<open>sent0\<close> is what the client had sent before the call.\<close>

definition send_inv :: "send_job \<Rightarrow> (bytes \<times> bool) list \<Rightarrow> send_pc \<times> quic_client \<Rightarrow> bool" where
  "send_inv job sent0 x \<longleftrightarrow> replies_inv (snd x)
     \<and> (past_decision (fst x) \<longrightarrow> accepted_client (snd x))
     \<and> (fst x = Sd_returned True \<longrightarrow> starts_with (qc_file_ack (snd x)) ''OK'')
     \<and> (fst x = Sd_returned False \<and> client_sends (snd x) = sent0
        \<or> (\<exists>cs. client_sends (snd x) = sent0 @ (u32_part (encode_file_header (sj_header job)), False) # cs
            \<and> (cs \<noteq> [] \<longrightarrow> accepted_client (snd x)) \<and> send_progressed job (fst x) cs))"

lemma send_inv_pc:
  "past_decision Sd_empty_wait" "past_decision Sd_ack_wait" "past_decision (Sd_chunk_wait a b)"
  "past_decision (Sd_returned r) = r" "\<not> past_decision Sd_header_wait" "\<not> past_decision Sd_decision"
  by (simp_all add: past_decision_def)

lemma send_inv_fail:
  assumes "replies_inv s"
    and "client_sends s = sent0 @ (u32_part (encode_file_header (sj_header job)), False) # cs"
    and "cs \<noteq> [] \<longrightarrow> accepted_client s" and "body_prefix job cs"
  shows "send_inv job sent0 (send_fail s)"
  using assms by (auto simp: send_fail_def send_inv_def send_inv_pc send_progressed_def)

lemma chunk_arith:
  assumes "sent < (file_size :: u64)" and "n = length (take (min (unat (file_size - sent)) k) input)"
  shows "unat (sent + of_nat n) = unat sent + n" and "unat sent + n \<le> unat file_size"
    and "(sent + of_nat n \<ge> file_size) = (unat file_size \<le> unat sent + n)"
proof -
  have rem: "unat (file_size - sent) = unat file_size - unat sent"
    using assms(1) by (simp add: unat_sub word_less_nat_alt word_le_nat_alt)
  have n: "n \<le> unat file_size - unat sent" using assms(2) rem by simp
  then show le: "unat sent + n \<le> unat file_size"
    using assms(1) by (simp add: word_less_nat_alt)
  have b: "unat file_size < 18446744073709551616" using unat_u64_bound [of file_size] by simp
  then have on: "unat (of_nat n :: u64) = n" using n by (intro unat_of_nat_u64) simp
  have "unat sent + unat (of_nat n :: u64) < 2 ^ LENGTH(64)" using le b on by simp
  then have "unat (sent + of_nat n) = unat sent + unat (of_nat n :: u64)"
    by (rule unat_add_lem [THEN iffD1])
  then show sum: "unat (sent + of_nat n) = unat sent + n" using on by simp
  show "(sent + of_nat n \<ge> file_size) = (unat file_size \<le> unat sent + n)"
    by (simp add: word_le_nat_alt sum)
qed

lemma body_partly_next:
  assumes "body_partly job sent input cs" and "sent < sj_size job"
    and c: "c = take (min (unat (sj_size job - sent)) k_file_chunk_size) input" and "c \<noteq> []"
  shows "body_partly job (sent + of_nat (length c)) (drop (length c) input)
     (cs @ [(c, sent + of_nat (length c) \<ge> sj_size job)])"
proof -
  note ar = chunk_arith [OF assms(2), of "length c" k_file_chunk_size input, folded c, OF refl]
  obtain ct where ct: "sj_file job = Some ct" "input = drop (unat sent) ct"
    and ch: "chunks_of ct (unat (sj_size job)) (unat sent) cs"
    using assms(1) by (auto simp: body_partly_def)
  have tk: "c = take (length c) (drop (unat sent) ct)"
  proof -
    have "take (length (take k input)) input = take k input" for k by (simp add: min_def)
    then show ?thesis unfolding ct(2) [symmetric] c by (rule sym)
  qed
  have small: "length c \<le> k_file_chunk_size" by (simp add: c)
  have lt: "unat sent < unat (sj_size job)" using assms(2) by (simp add: word_less_nat_alt)
  have "chunks_of ct (unat (sj_size job)) (unat sent + length c)
      (cs @ [(c, unat (sj_size job) \<le> unat sent + length c)])"
    by (rule chunks_of_snoc [OF ch lt assms(4) small tk ar(2)])
  then show ?thesis
    using assms(1) ct ar by (simp add: body_partly_def add.commute)
qed

lemma body_partly_done: "body_partly job (sj_size job) input cs \<Longrightarrow> body_sent job cs"
  by (auto simp: body_partly_def body_sent_def)

lemma body_partly_le: "body_partly job sent input cs \<Longrightarrow> sent \<le> sj_size job"
  by (auto simp: body_partly_def chunks_of_def word_le_nat_alt)

lemma body_partly_start:
  "sj_size job \<noteq> 0 \<Longrightarrow> sj_file job = Some input \<Longrightarrow> body_partly job 0 input []"
  by (simp add: body_partly_def chunks_of_def)

lemma send_inv_chunk:
  assumes r: "replies_inv s" and a: "accepted_client s"
    and sends: "client_sends s = sent0 @ (u32_part (encode_file_header (sj_header job)), False) # cs"
    and part: "body_partly job sent input cs"
  shows "send_inv job sent0 (send_chunk E (sj_size job) sent input s)"
proof -
  let ?c = "take (min (unat (sj_size job - sent)) k_file_chunk_size) input"
  have fail: "send_inv job sent0 (send_fail s)" 
    by (rule send_inv_fail [OF r sends]) (use a part in \<open>auto simp: body_prefix_def\<close>)
  have le: "sent \<le> sj_size job" by (rule body_partly_le [OF part])
  consider "sent = sj_size job" | "sent < sj_size job" "?c = []" | "sent < sj_size job" "?c \<noteq> []"
    using le by fastforce
  then show ?thesis
  proof cases
    case 1
    then have "body_sent job cs" using part body_partly_done by simp
    with r a sends 1 show ?thesis
      by (simp add: send_chunk_def send_inv_def send_inv_pc send_progressed_def)
  next
    case 2
    then show ?thesis using fail by (auto simp: send_chunk_def Let_def)
  next
    case 3
    let ?s' = "sent + of_nat (length ?c)"
    obtain ok s1 where b: "stream_send_begin E ?c (?s' \<ge> sj_size job) s = (ok, s1)"
      by (cases "stream_send_begin E ?c (?s' \<ge> sj_size job) s")
    note bc = send_begin_cases [OF b]
    have c32: "u32_part ?c = ?c" by (intro u32_part_small) (simp add: k_file_chunk_size_def)
    have ra: "replies_inv s1" "accepted_client s1" using bc(2) r a by auto
    have eq: "send_chunk E (sj_size job) sent input s
        = (if ok then (Sd_chunk_wait ?s' (drop (length ?c) input), s1) else send_fail s1)"
    proof -
      have "length ?c \<noteq> 0" using 3(2) by (simp only: length_0_conv) simp
      with 3(1) b show ?thesis
        by (simp only: send_chunk_def Let_def if_True if_False prod.case refl)
    qed
    show ?thesis
    proof (cases ok)
      case True
      with bc(1) c32 sends have "client_sends s1
          = sent0 @ (u32_part (encode_file_header (sj_header job)), False) # (cs @ [(?c, ?s' \<ge> sj_size job)])"
        by simp
      with True ra body_partly_next [OF part 3(1) refl 3(2)] show ?thesis
        unfolding eq by (auto simp: send_inv_def send_inv_pc send_progressed_def)
    next
      case False
      with bc(1) sends have "client_sends s1
          = sent0 @ (u32_part (encode_file_header (sj_header job)), False) # cs" by simp
      with False ra part show ?thesis unfolding eq by (auto simp: body_prefix_def intro!: send_inv_fail)
    qed
  qed
qed

lemma send_inv_body:
  assumes r: "replies_inv s" and a: "accepted_client s"
    and sends: "client_sends s = sent0 @ [(u32_part (encode_file_header (sj_header job)), False)]"
  shows "send_inv job sent0 (send_body E job s)"
proof -
  have fail: "send_inv job sent0 (send_fail s)" 
    by (rule send_inv_fail [OF r, of _ _ "[]"]) (simp_all add: sends body_prefix_def)
  show ?thesis
  proof (cases "sj_size job = 0")
    case True
    obtain ok s1 where b: "stream_send_begin E [] True s = (ok, s1)"
      by (cases "stream_send_begin E [] True s")
    note bc = send_begin_cases [OF b]
    have ra: "replies_inv s1" "accepted_client s1" using bc(2) r a by auto
    have "client_sends s1 = sent0 @ (u32_part (encode_file_header (sj_header job)), False)
        # (if ok then [([], True)] else [])"
      using bc(1) sends by (simp add: u32_part_def)
    with True b ra show ?thesis
      by (cases ok) (auto simp: send_body_def send_inv_def send_inv_pc send_progressed_def body_sent_def
          body_prefix_def send_fail_def)
  next
    case False
    show ?thesis
    proof (cases "sj_file job")
      case None
      with False fail show ?thesis by (simp add: send_body_def)
    next
      case (Some input)
      with False send_inv_chunk [OF r a, of sent0 job "[]"] body_partly_start [OF False Some] sends
      show ?thesis by (simp add: send_body_def)
    qed
  qed
qed

lemma report_progress_frame [simp]:
  "replies_inv (report_progress job a b s) = replies_inv s"
  "accepted_client (report_progress job a b s) = accepted_client s"
  "qc_io (report_progress job a b s) = qc_io s"
  "qc_file_ack (report_progress job a b s) = qc_file_ack s"
  by (simp_all add: report_progress_def)

lemma file_ack_grows:
  "starts_with (qc_file_ack s) p \<Longrightarrow> starts_with (qc_file_ack (client_on_stream_event h ev s)) p"
  by (cases ev) (auto simp: client_on_stream_event_def receive_replies_text resolve_decision_def
      client_notify_file_waiter_def notify_send_waiter_def client_call_def starts_with_append Let_def)

lemma send_inv_stream_callback:
  "send_inv job sent0 (pc, s) \<Longrightarrow> send_inv job sent0 (pc, client_on_stream_event h ev s)"
  by (auto simp: send_inv_def replies_stream_event accepted_stream_event file_ack_grows)

lemma send_inv_gives_up:
  assumes "send_inv job sent0 (pc, s)" and "pc \<noteq> Sd_returned False"
  shows "send_inv job sent0 (send_fail s)"
proof -
  obtain cs where "client_sends s = sent0 @ (u32_part (encode_file_header (sj_header job)), False) # cs"
    "cs \<noteq> [] \<longrightarrow> accepted_client s" "replies_inv s" "body_prefix job cs"
    using assms by (auto simp: send_inv_def dest: progressed_prefix)
  then show ?thesis by (intro send_inv_fail)
qed

lemma send_inv_reject:
  "send_inv job sent0 (pc, s) \<Longrightarrow> send_inv job sent0 (pc, s\<lparr>qc_rejected := True\<rparr>)"
  by (simp add: send_inv_def accepted_client_def)

lemma send_inv_step: "send_step job x l y \<Longrightarrow> send_inv job sent0 x \<Longrightarrow> send_inv job sent0 y"
proof (induction rule: send_step.induct)
  case (client_stream_callback pc s h ev)
  then show ?case by (rule send_inv_stream_callback)
next
  case (client_connection_callback pc s c cev)
  then show ?case by (simp add: send_inv_def replies_connection_event)
next
  case (header_sent s)
  then show ?case by (simp add: send_inv_def send_inv_pc send_progressed_def)
next
  case (decision_yes s E)
  then show ?case
    by (intro send_inv_body) (simp_all add: send_inv_def send_progressed_def accepted_client_def)
next
  case (decision_no s)
  then have "send_inv job sent0 (Sd_decision, s\<lparr>qc_rejected := True\<rparr>)" by (intro send_inv_reject)
  then show ?case by (rule send_inv_gives_up) simp
next
  case (chunk_sent s sent input E)
  then obtain cs where "client_sends s = sent0 @ (u32_part (encode_file_header (sj_header job)), False) # cs"
    "body_partly job sent input cs" "replies_inv s" "accepted_client s"
    by (auto simp: send_inv_def send_inv_pc send_progressed_def)
  then show ?case by (intro send_inv_chunk) simp_all
next
  case (empty_sent s)
  then show ?case by (auto simp: send_inv_def send_inv_pc send_progressed_def)
next
  case (ack_arrived s)
  then show ?case
    by (cases "qc_file_ok s")
      (auto simp: send_inv_def send_inv_pc send_progressed_def replies_inv_def body_prefix_def)
next
  case (ack_timeout s)
  then show ?case by (auto simp: send_inv_def send_inv_pc send_progressed_def body_prefix_def)
qed (auto elim!: send_inv_gives_up)

lemma send_inv_run: "send_run job x ls y \<Longrightarrow> send_inv job sent0 x \<Longrightarrow> send_inv job sent0 y"
  by (erule send_invariant) (auto intro: send_inv_step)

text \<open>The start of a call.\<close>

lemma open_stream_sends: "open_stream E s = (ok, s') \<Longrightarrow> client_sends s' = client_sends s"
  by (auto simp: open_stream_def client_call_def io_call_def Let_def split: option.splits if_splits)

lemma open_stream_frame:
  "open_stream E s = (ok, s') \<Longrightarrow> qc_decision_ready s' = qc_decision_ready s
     \<and> qc_file_ok s' = qc_file_ok s \<and> qc_rejected s' = qc_rejected s
     \<and> qc_decision_buf s' = qc_decision_buf s \<and> qc_file_ack s' = qc_file_ack s
     \<and> qc_decision_accepted s' = qc_decision_accepted s \<and> qc_progress s' = qc_progress s"
  by (auto simp: open_stream_def client_call_def Let_def split: option.splits if_splits)

lemma send_inv_start: 
  assumes "sj_header job = h" and "replies_inv s"
  shows "send_inv job (client_sends s) (send_file_internal E h s)"
proof (cases "\<not> qc_connected s \<or> qc_connection s = None \<or> \<not> qc_api s")
  case True
  with assms show ?thesis by (simp add: send_file_internal_def send_inv_def send_inv_pc)
next
  case False
  let ?s1 = "s\<lparr>qc_file_ack := [], qc_rejected := False, qc_decision_buf := [],
                qc_decision_ready := False, qc_decision_accepted := False,
                qc_file_done := False, qc_file_ok := False\<rparr>"
  obtain opened s2 where o: "open_stream E ?s1 = (opened, s2)" by (cases "open_stream E ?s1")
  let ?s2 = "s2\<lparr>qc_awaiting_decision := True\<rparr>"
  obtain ok s3 where b: "stream_send_begin E (encode_file_header h) False ?s2 = (ok, s3)"
    by (cases "stream_send_begin E (encode_file_header h) False ?s2")
  have start: "send_file_internal E h s = (if \<not> opened then (Sd_returned False, s2)
      else if ok then (Sd_header_wait, s3) else send_fail s3)"
    unfolding send_file_internal_def Let_def o prod.case b if_not_P [OF False] by (rule refl)
  have s2: "replies_inv s2" "replies_inv ?s2" "client_sends s2 = client_sends s"
    using open_stream_frame [OF o] open_stream_sends [OF o] by (simp_all add: replies_inv_def)
  have s3: "replies_inv s3" using send_begin_cases(2) [OF b] s2(2) by auto
  have sends: "client_sends s3 = client_sends s @ (if ok then [(u32_part (encode_file_header h), False)] else [])"
    using send_begin_cases(1) [OF b] s2(3) by simp
  show ?thesis
    unfolding start using s2 s3 sends assms(1)
    by (auto simp: send_inv_def send_inv_pc send_progressed_def body_prefix_def send_fail_def)
qed

end
