(* ===== verification/Client_Liveness.thy ===== *)
theory Client_Liveness
  imports Client_Facts
begin

text \<open>
  The sender reaches its end: when msquic accepts and completes every send and the receiver
  answers ACCEPT and then OK, \<open>send_file\<close> has a run that returns true, for files of every
  size. The lemmas build that run step by step; they also give the witnesses of the
  sender's properties.
\<close>

definition good_client :: "handle \<Rightarrow> client_env" where
  "good_client st = \<lparr>ce_stream = Some st, ce_stream_start = True, ce_send = good_send\<rparr>"

definition sending :: "handle \<Rightarrow> quic_client \<Rightarrow> bool" where
  "sending st s \<longleftrightarrow> qc_stream s = Some st \<and> replies_inv s \<and> accepted_client s \<and> qc_file_ack s = []"

lemma good_send_begin:
  assumes "qc_stream s = Some st"
  shows "stream_send_begin (good_client st) d fin s = (True, s\<lparr>qc_send_done := False,
     qc_io := snd (stream_send_copy good_send (Some st) d fin (qc_io s))\<rparr>)"
  using assms by (simp add: stream_send_begin_def good_client_def)

text \<open>A completed send wakes the application thread.\<close>

lemma send_completes [simp]:
  "client_on_stream_event st (SendComplete b) s
     = s\<lparr>qc_io := free_block b (qc_io s), qc_send_done := True\<rparr>"
  by (simp add: client_on_stream_event_def notify_send_waiter_def)

lemma sending_frame [simp]:
  "sending st (s\<lparr>qc_io := io\<rparr>) = sending st s" "sending st (s\<lparr>qc_send_done := x\<rparr>) = sending st s"
  "sending st (report_progress job a b s) = sending st s"
  by (simp_all add: sending_def report_progress_def)

text \<open>Completions of its sends are all the thread needs to get through the body.\<close>

definition own_labels :: "handle \<Rightarrow> client_label set" where
  "own_labels st = {S_stream st (SendComplete 0), S_wake}"

lemma send_loop_completes:
  assumes given: "sj_file job = Some ct" and enough: "unat (sj_size job) \<le> length ct"
  shows "sending st s \<Longrightarrow> sent \<le> sj_size job \<Longrightarrow> input = drop (unat sent) ct \<Longrightarrow>
     \<exists>ls s'. send_run job (send_chunk (good_client st) (sj_size job) sent input s) ls (Sd_ack_wait, s')
       \<and> sending st s' \<and> set ls \<subseteq> own_labels st"
proof (induction "unat (sj_size job) - unat sent" arbitrary: sent input s rule: less_induct)
  case less
  let ?size = "sj_size job"
  show ?case
  proof (cases "sent = ?size")
    case True
    then have "send_chunk (good_client st) ?size sent input s = (Sd_ack_wait, s)"
      by (simp add: send_chunk_def)
    then show ?thesis using less.prems(1) send_nil [of job "(Sd_ack_wait, s)"]
      by (intro exI [of _ "[]"] exI [of _ s]) simp
  next
    case False
    then have lt: "sent < ?size" using less.prems(2) by simp
    let ?c = "take (min (unat (?size - sent)) k_file_chunk_size) input"
    let ?s' = "sent + of_nat (length ?c)" and ?rest = "drop (length ?c) input"
    note ar = chunk_arith [OF lt refl, of k_file_chunk_size input]
    have ne: "?c \<noteq> []"
    proof -
      have "unat sent < length ct" using lt enough by (simp add: word_less_nat_alt)
      moreover have "0 < unat (?size - sent)"
        using lt by (simp add: unat_sub word_less_nat_alt word_le_nat_alt)
      ultimately show ?thesis by (simp add: less.prems(3) k_file_chunk_size_def)
    qed
    define s1 where "s1 = s\<lparr>qc_send_done := False,
      qc_io := snd (stream_send_copy good_send (Some st) ?c (?s' \<ge> ?size) (qc_io s))\<rparr>"
    have st: "qc_stream s = Some st" using less.prems(1) by (simp add: sending_def)
    have l0: "length ?c \<noteq> 0" using ne by (simp only: length_0_conv) simp
    have chunk: "send_chunk (good_client st) ?size sent input s = (Sd_chunk_wait ?s' ?rest, s1)"
      unfolding send_chunk_def Let_def if_P [OF lt] if_not_P [OF l0] good_send_begin [OF st] s1_def
      by simp
    let ?t = "s1\<lparr>qc_io := free_block 0 (qc_io s1), qc_send_done := True\<rparr>"
    let ?u = "report_progress job ?s' (fth_size (sj_header job)) ?t"
    have u: "sending st ?u" using less.prems(1) by (simp add: s1_def)
    have dec: "unat ?size - unat ?s' < unat ?size - unat sent"
      using ar(1,2) l0 by linarith
    have rest: "?rest = drop (unat ?s') ct"
      unfolding ar(1) by (subst (2) less.prems(3)) (simp only: drop_drop add.commute)
    obtain ls s' where run: "send_run job (send_chunk (good_client st) ?size ?s' ?rest ?u) ls (Sd_ack_wait, s')"
      and s': "sending st s'" "set ls \<subseteq> own_labels st"
      using less.hyps [OF dec u _ rest] ar(1,2) by (auto simp: word_le_nat_alt)
    have "send_run job (Sd_chunk_wait ?s' ?rest, s1) (S_stream st (SendComplete 0) # S_wake # ls) (Sd_ack_wait, s')"
      by (rule send_cons [OF client_stream_callback], unfold send_completes,
          rule send_cons [OF chunk_sent run]) simp
    moreover have "set (S_stream st (SendComplete 0) # S_wake # ls) \<subseteq> own_labels st"
      using s'(2) by (simp add: own_labels_def)
    ultimately show ?thesis using s'(1) unfolding chunk by blast
  qed
qed

text \<open>The answer of the receiver: ACCEPT wakes the decision, OK with FIN ends the call.\<close>

lemma accept_received:
  assumes "qc_awaiting_decision s" and "qc_decision_buf s = []" and "qc_stream s = Some st"
    and "qc_file_ack s = []" and "\<not> qc_file_ok s"
  defines "t \<equiv> client_on_stream_event st (Receive [msg_accept]) s"
  shows "sending st t" and "accepted_client t" and "qc_io t = qc_io s"
proof -
  have f: "str_find [NL] msg_accept = Some 6" "starts_with msg_accept ''ACCEPT''" by code_simp+
  have t: "t = s\<lparr>qc_decision_buf := msg_accept, qc_awaiting_decision := False,
      qc_decision_accepted := True, qc_decision_ready := True\<rparr>"
    using assms(1,2) f
    by (simp add: t_def client_on_stream_event_def receive_reply_def resolve_decision_def Let_def)
  show "sending st t" "accepted_client t" "qc_io t = qc_io s"
    using assms(1-5) f by (simp_all add: t sending_def replies_inv_def accepted_client_def)
qed

lemma ok_received:
  assumes "sending st s"
  defines "t \<equiv> client_on_stream_event st PeerSendShutdown (client_on_stream_event st (Receive [msg_ok]) s)"
  shows "qc_file_done t" and "qc_file_ok t"
proof -
  have n: "\<not> qc_awaiting_decision s" "qc_file_ack s = []"
    using assms(1) by (auto simp: sending_def replies_inv_def accepted_client_def)
  have "starts_with msg_ok ''OK''" by code_simp
  with n show "qc_file_done t" "qc_file_ok t"
    by (simp_all add: t_def client_on_stream_event_def receive_reply_def client_notify_file_waiter_def Let_def)
qed

text \<open>A client that can start sending.\<close>

definition ready_client :: "quic_client \<Rightarrow> bool" where
  "ready_client s \<longleftrightarrow> qc_connected s \<and> qc_connection s \<noteq> None \<and> qc_api s"

lemma send_start_good:
  assumes "ready_client s"
  obtains s' where "send_file_internal (good_client st) h s = (Sd_header_wait, s')"
    and "qc_awaiting_decision s'" "qc_decision_buf s' = []" "qc_stream s' = Some st"
    "qc_file_ack s' = []" "\<not> qc_file_ok s'"
proof -
  let ?s1 = "s\<lparr>qc_file_ack := [], qc_rejected := False, qc_decision_buf := [],
                qc_decision_ready := False, qc_decision_accepted := False,
                qc_file_done := False, qc_file_ok := False\<rparr>"
  let ?s2 = "client_call (StreamStart st) ((client_call (StreamOpen st) ?s1)\<lparr>qc_stream := Some st\<rparr>)"
  have o: "open_stream (good_client st) ?s1 = (True, ?s2)"
    by (simp add: open_stream_def good_client_def Let_def)
  have st: "qc_stream (?s2\<lparr>qc_awaiting_decision := True\<rparr>) = Some st" by (simp add: client_call_def)
  let ?s3 = "(?s2\<lparr>qc_awaiting_decision := True\<rparr>)\<lparr>qc_send_done := False,
     qc_io := snd (stream_send_copy good_send (Some st) (encode_file_header h) False
        (qc_io (?s2\<lparr>qc_awaiting_decision := True\<rparr>)))\<rparr>"
  have g: "\<not> (\<not> qc_connected s \<or> qc_connection s = None \<or> \<not> qc_api s)"
    using assms by (simp add: ready_client_def)
  have "send_file_internal (good_client st) h s = (Sd_header_wait, ?s3)"
    unfolding send_file_internal_def Let_def if_not_P [OF g] o prod.case good_send_begin [OF st]
    by simp
  then show ?thesis by (rule that) (simp_all add: client_call_def)
qed

text \<open>The body, from the decision to the wait for the acknowledgement.\<close>

lemma send_body_completes:
  assumes "sending st c" and "sj_size job = 0 \<or> (\<exists>ct. sj_file job = Some ct \<and> unat (sj_size job) \<le> length ct)"
  shows "\<exists>ls u. send_run job (send_body (good_client st) job c) ls (Sd_ack_wait, u) \<and> sending st u
    \<and> set ls \<subseteq> own_labels st"
proof (cases "sj_size job = 0")
  case True
  let ?d = "c\<lparr>qc_send_done := False, qc_io := snd (stream_send_copy good_send (Some st) [] True (qc_io c))\<rparr>"
  have sc: "qc_stream c = Some st" using assms(1) by (simp add: sending_def)
  have e: "send_body (good_client st) job c = (Sd_empty_wait, ?d)"
    unfolding send_body_def if_P [OF True] good_send_begin [OF sc] by simp
  let ?e = "?d\<lparr>qc_io := free_block 0 (qc_io ?d), qc_send_done := True\<rparr>"
  have "send_run job (Sd_empty_wait, ?d) [S_stream st (SendComplete 0), S_wake]
      (Sd_ack_wait, report_progress job 0 0 ?e)"
    by (rule send_cons [OF client_stream_callback], unfold send_completes,
        rule send_cons [OF empty_sent send_nil]) simp
  moreover have "sending st (report_progress job 0 0 ?e)" using assms(1) by simp
  moreover have "set [S_stream st (SendComplete 0), S_wake] \<subseteq> own_labels st" by (simp add: own_labels_def)
  ultimately show ?thesis unfolding e by blast
next
  case False
  then obtain ct where ct: "sj_file job = Some ct" "unat (sj_size job) \<le> length ct"
    using assms(2) by blast
  have e: "send_body (good_client st) job c = send_chunk (good_client st) (sj_size job) 0 ct c"
    using False ct by (simp add: send_body_def)
  show ?thesis unfolding e
    by (rule send_loop_completes [OF ct assms(1)]) simp_all
qed

text \<open>The successful run.\<close>

lemma send_run_to_ack:
  assumes "ready_client s" and "sj_header job = h"
    and "sj_size job = 0 \<or> (\<exists>ct. sj_file job = Some ct \<and> unat (sj_size job) \<le> length ct)"
  shows "\<exists>ls u. send_run job (send_file_internal (good_client st) h s) ls (Sd_ack_wait, u) \<and> sending st u"
proof -
  obtain a where start: "send_file_internal (good_client st) h s = (Sd_header_wait, a)"
    and a: "qc_awaiting_decision a" "qc_decision_buf a = []" "qc_stream a = Some st"
      "qc_file_ack a = []" "\<not> qc_file_ok a"
    using send_start_good [OF assms(1)] by blast
  let ?b = "a\<lparr>qc_io := free_block 0 (qc_io a), qc_send_done := True\<rparr>"
  let ?c = "client_on_stream_event st (Receive [msg_accept]) ?b"
  have c: "sending st ?c" "accepted_client ?c"
    by (rule accept_received; simp add: a)+
  obtain ls u where u: "send_run job (send_body (good_client st) job ?c) ls (Sd_ack_wait, u)" "sending st u"
    using send_body_completes [OF c(1) assms(3)] by blast
  have first: "send_run job (Sd_header_wait, a)
      [S_stream st (SendComplete 0), S_wake, S_stream st (Receive [msg_accept]), S_wake]
      (send_body (good_client st) job ?c)"
  proof (rule send_cons [OF client_stream_callback], unfold send_completes, rule send_cons [OF header_sent])
    show "qc_send_done ?b" by simp
    show "send_run job (Sd_decision, ?b) [S_stream st (Receive [msg_accept]), S_wake]
        (send_body (good_client st) job ?c)"
      by (rule send_cons [OF client_stream_callback], rule send_cons [OF decision_yes send_nil])
        (use c(2) in \<open>simp_all add: accepted_client_def\<close>)
  qed
  from send_run_append [OF first u(1)] start u(2) show ?thesis by metis
qed

lemma send_run_success:
  assumes "ready_client s" and "sj_header job = h"
    and "sj_size job = 0 \<or> (\<exists>ct. sj_file job = Some ct \<and> unat (sj_size job) \<le> length ct)"
  shows "\<exists>ls t. send_run job (send_file_internal (good_client st) h s) ls (Sd_returned True, t)"
proof -
  obtain ls u where u: "send_run job (send_file_internal (good_client st) h s) ls (Sd_ack_wait, u)" "sending st u"
    using send_run_to_ack [OF assms, of st] by blast
  let ?v = "client_on_stream_event st PeerSendShutdown (client_on_stream_event st (Receive [msg_ok]) u)"
  have v: "qc_file_done ?v" "qc_file_ok ?v" using ok_received [OF u(2)] by blast+
  have "send_step job (Sd_ack_wait, ?v) S_wake (Sd_returned True, ?v)"
    using ack_arrived [OF v(1), of job] v(2) by simp
  then have fin: "send_run job (Sd_ack_wait, u)
      [S_stream st (Receive [msg_ok]), S_stream st PeerSendShutdown, S_wake] (Sd_returned True, ?v)"
    by (intro send_cons [OF client_stream_callback] send_cons [OF _ send_nil])
  from send_run_append [OF u(1) fin] show ?thesis by blast
qed

end
