(* ===== verification/Client_Properties.thy ===== *)
theory Client_Properties
  imports Client_Liveness
begin

text \<open>
  The sender's properties: what it may send and when, what its result means, that it can
  succeed, and where it falls short (stale results, events it does not look at).
\<close>

section \<open>Rejection\<close>

definition rejection_inv :: "(bytes \<times> bool) list \<Rightarrow> send_pc \<times> quic_client \<Rightarrow> bool" where
  "rejection_inv sends x \<longleftrightarrow> replies_inv (snd x)
     \<and> (fst x = Sd_decision \<or> fst x = Sd_header_wait \<longrightarrow> client_sends (snd x) = sends)
     \<and> (qc_rejected (snd x) \<longrightarrow> fst x = Sd_returned False \<and> client_sends (snd x) = sends
          \<and> qc_decision_ready (snd x) \<and> \<not> qc_decision_accepted (snd x))"

lemma decided_stays:
  "replies_inv s \<Longrightarrow> qc_decision_ready s \<Longrightarrow>
   qc_decision_ready (client_on_stream_event h ev s)
   \<and> qc_decision_accepted (client_on_stream_event h ev s) = qc_decision_accepted s"
  by (cases ev) (auto simp: client_on_stream_event_def replies_inv_def notify_send_waiter_def
      client_notify_file_waiter_def client_call_def Let_def)

lemma send_begin_rejected:
  "qc_rejected (snd (stream_send_begin E d f s)) = qc_rejected s"
  "replies_inv (snd (stream_send_begin E d f s)) = replies_inv s"
  by (simp_all add: stream_send_begin_def case_prod_beta)

lemma not_rejected_later:
  assumes "replies_inv s" and "\<not> qc_rejected s"
  shows "rejection_inv sends (send_chunk E n sent input s) \<and> rejection_inv sends (send_body E job s)
    \<and> rejection_inv sends (send_fail s)"
proof -
  have f: "rejection_inv sends (send_fail t)" if "replies_inv t" "\<not> qc_rejected t" for t
    using that by (simp add: send_fail_def rejection_inv_def)
  have c: "rejection_inv sends (send_chunk E n sent input s)" for n sent input
    using assms f by (simp add: send_chunk_def case_prod_beta Let_def send_begin_rejected)
      (simp add: rejection_inv_def send_begin_rejected)
  have "rejection_inv sends (send_body E job s)"
    using assms f c by (simp add: send_body_def case_prod_beta send_begin_rejected split: option.splits)
      (simp add: rejection_inv_def send_begin_rejected)
  with c f assms show ?thesis by blast
qed

lemma rejection_step: "send_step job x l y \<Longrightarrow> rejection_inv sends x \<Longrightarrow> rejection_inv sends y"
proof (induction rule: send_step.induct)
  case (client_stream_callback pc s h ev)
  then show ?case by (auto simp: rejection_inv_def replies_stream_event decided_stays)
next
  case (decision_no s)
  then show ?case by (simp add: rejection_inv_def send_fail_def)
next
  case (decision_yes s E)
  then show ?case using not_rejected_later [of s] by (simp add: rejection_inv_def)
next
  case (chunk_sent s sent input E)
  have "\<not> qc_rejected (report_progress job sent (fth_size (sj_header job)) s)"
    using chunk_sent by (auto simp: rejection_inv_def report_progress_def)
  with chunk_sent show ?case using not_rejected_later [of "report_progress job sent (fth_size (sj_header job)) s"]
    by (simp add: rejection_inv_def)
qed (auto simp: rejection_inv_def send_fail_def report_progress_def replies_connection_event)

lemma rejection_run: "send_run job x ls y \<Longrightarrow> rejection_inv sends x \<Longrightarrow> rejection_inv sends y"
  by (erule send_invariant) (auto intro: rejection_step)

lemma rejection_start:
  assumes "ready_client s" and "replies_inv s"
    and "send_file_internal E h s = (pc, s')"
  shows "rejection_inv (client_sends s') (pc, s')"
proof -
  have "\<not> qc_rejected s'"
  proof -
    let ?s1 = "s\<lparr>qc_file_ack := [], qc_rejected := False, qc_decision_buf := [],
                  qc_decision_ready := False, qc_decision_accepted := False,
                  qc_file_done := False, qc_file_ok := False\<rparr>"
    obtain opened s2 where o: "open_stream E ?s1 = (opened, s2)" by (cases "open_stream E ?s1")
    have n: "\<not> qc_rejected s2" using open_stream_frame [OF o] by simp
    have g: "\<not> (\<not> qc_connected s \<or> qc_connection s = None \<or> \<not> qc_api s)"
      using assms(1) by (simp add: ready_client_def)
    show ?thesis
      using assms(3) n unfolding send_file_internal_def Let_def o prod.case if_not_P [OF g]
      by (auto simp: case_prod_beta send_begin_rejected send_fail_def split: if_splits)
  qed
  moreover have "replies_inv s'"
    using send_inv_start [of "\<lparr>sj_header = h, sj_size = 0, sj_file = None, sj_progress = False\<rparr>" h s E]
      assms(2,3) by (simp add: send_inv_def)
  ultimately show ?thesis by (simp add: rejection_inv_def)
qed

section \<open>A concrete client\<close>

definition demo_client :: quic_client where
  "demo_client = new_client\<lparr>qc_connected := True, qc_api := True, qc_connection := Some 1\<rparr>"

definition demo_job :: send_job where
  "demo_job = \<lparr>sj_header = \<lparr>fth_name = ''a.txt'', fth_size = 3, fth_sha256_hex = concat (replicate 32 ''26'')\<rparr>,
     sj_size = 3, sj_file = Some ''abc'', sj_progress = True\<rparr>"

lemma demo_ready: "ready_client demo_client" "replies_inv demo_client"
  by (simp_all add: ready_client_def replies_inv_def demo_client_def new_client_def)

lemma demo_run:
  "\<exists>ls t. send_run demo_job (send_file_internal (good_client 2) (sj_header demo_job) demo_client) ls
     (Sd_returned True, t)"
  by (rule send_run_success [OF demo_ready(1) refl]) (simp add: demo_job_def)

section \<open>Properties\<close>

text \<open>
  C9: The sender's protocol, at every moment of a call of \<open>send_file_internal\<close> and on every
  interleaving with msquic's events. The header comes first, without FIN; a byte of the
  body goes out only after the receiver's reply began with \<open>ACCEPT\<close>; the body is cut into
  chunks of at most 64 KiB that carry the file from its start, in order and without gaps,
  at most the announced number of bytes, and FIN is on a chunk only if it is the last one
  of a complete body.
\<close>

theorem send_protocol:
  assumes "send_run job (send_file_internal E (sj_header job) s0) ls (pc, s)"
    and "replies_inv s0" and "sj_size job \<noteq> 0"
  shows "(pc = Sd_returned False \<and> client_sends s = client_sends s0)
    \<or> (\<exists>cs. client_sends s = client_sends s0 @ (u32_part (encode_file_header (sj_header job)), False) # cs
       \<and> (cs = [] \<or> (\<exists>content n. starts_with (qc_decision_buf s) ''ACCEPT''
            \<and> sj_file job = Some content \<and> n \<le> unat (sj_size job)
            \<and> concat (map fst cs) = take n content
            \<and> (\<forall>c \<in> set cs. fst c \<noteq> [] \<and> length (fst c) \<le> 65536)
            \<and> (\<forall>c \<in> set (butlast cs). \<not> snd c)
            \<and> snd (last cs) = (n = unat (sj_size job)))))"
proof -
  have inv: "send_inv job (client_sends s0) (pc, s)"
    by (rule send_inv_run [OF assms(1) send_inv_start [OF refl assms(2)]])
  then consider "pc = Sd_returned False" "client_sends s = client_sends s0"
    | cs where "client_sends s = client_sends s0 @ (u32_part (encode_file_header (sj_header job)), False) # cs"
        "cs \<noteq> [] \<longrightarrow> accepted_client s" "body_prefix job cs"
    by (auto simp: send_inv_def dest: progressed_prefix)
  then show ?thesis
  proof cases
    case 1
    then show ?thesis by blast
  next
    case (2 cs)
    show ?thesis
    proof (cases "cs = []")
      case True
      then show ?thesis using 2(1) by blast
    next
      case False
      have acc: "starts_with (qc_decision_buf s) ''ACCEPT''"
        using 2(2) False inv by (auto simp: send_inv_def replies_inv_def accepted_client_def)
      obtain content n where "sj_file job = Some content" "chunks_of content (unat (sj_size job)) n cs"
        using 2(3) False assms(3) by (auto simp: body_prefix_def body_sent_def body_partly_def)
      then show ?thesis using 2(1) acc False
        by (intro disjI2 exI [of _ cs] conjI disjI2 exI [of _ content] exI [of _ n])
          (auto simp: chunks_of_def k_file_chunk_size_def)
    qed
  qed
qed

theorem send_protocol_witness:
  "\<exists>ls t. send_run demo_job (send_file_internal (good_client 2) (sj_header demo_job) demo_client) ls
       (Sd_returned True, t)
     \<and> (\<exists>cs. client_sends t = (u32_part (encode_file_header (sj_header demo_job)), False) # cs
         \<and> (\<forall>c \<in> set (butlast cs). \<not> snd c))"
proof -
  obtain ls t where r: "send_run demo_job (send_file_internal (good_client 2) (sj_header demo_job) demo_client) ls
       (Sd_returned True, t)" using demo_run by blast
  have "sj_size demo_job \<noteq> 0" by (simp add: demo_job_def)
  moreover have "client_sends demo_client = []" by (simp add: demo_client_def new_client_def io_init_def)
  ultimately show ?thesis using send_protocol [OF r demo_ready(2)] r by fastforce
qed

text \<open>
  What a result of true means. When \<open>send_file_internal\<close> returns true, the receiver's
  decision began with \<open>ACCEPT\<close>, its final reply with \<open>OK\<close>, and exactly the announced number
  of bytes of the file went out between the two, with FIN once, on the last send; a file
  of length zero is an empty send with FIN.
\<close>

theorem internal_true_delivered:
  assumes "send_run job (send_file_internal E (sj_header job) s0) ls (Sd_returned True, s)"
    and "replies_inv s0"
  shows "starts_with (qc_decision_buf s) ''ACCEPT'' \<and> starts_with (qc_file_ack s) ''OK''
    \<and> (\<exists>cs. client_sends s = client_sends s0 @ (u32_part (encode_file_header (sj_header job)), False) # cs
       \<and> cs \<noteq> [] \<and> snd (last cs) \<and> (\<forall>c \<in> set (butlast cs). \<not> snd c)
       \<and> (if sj_size job = 0 then cs = [([], True)]
          else \<exists>content. sj_file job = Some content \<and> unat (sj_size job) \<le> length content
                 \<and> concat (map fst cs) = take (unat (sj_size job)) content))"
proof -
  have inv: "send_inv job (client_sends s0) (Sd_returned True, s)"
    by (rule send_inv_run [OF assms(1) send_inv_start [OF refl assms(2)]])
  then obtain cs where cs: "client_sends s
        = client_sends s0 @ (u32_part (encode_file_header (sj_header job)), False) # cs"
      "body_sent job cs"
    by (auto simp: send_inv_def send_progressed_def)
  have ack: "starts_with (qc_decision_buf s) ''ACCEPT''" "starts_with (qc_file_ack s) ''OK''"
    using inv by (auto simp: send_inv_def send_inv_pc replies_inv_def accepted_client_def)
  have "cs \<noteq> [] \<and> snd (last cs) \<and> (\<forall>c \<in> set (butlast cs). \<not> snd c)
       \<and> (if sj_size job = 0 then cs = [([], True)]
          else \<exists>content. sj_file job = Some content \<and> unat (sj_size job) \<le> length content
                 \<and> concat (map fst cs) = take (unat (sj_size job)) content)"
  proof (cases "sj_size job = 0")
    case True
    then show ?thesis using cs(2) by (simp add: body_sent_def)
  next
    case False
    then obtain ct where ct: "sj_file job = Some ct"
        "chunks_of ct (unat (sj_size job)) (unat (sj_size job)) cs"
      using cs(2) by (auto simp: body_sent_def)
    have "0 < unat (sj_size job)" using False by (simp add: unat_gt_0)
    with ct(2) have "cs \<noteq> []" by (auto simp: chunks_of_def)
    with ct False show ?thesis by (auto simp: chunks_of_def)
  qed
  with cs(1) ack show ?thesis by blast
qed

theorem internal_true_delivered_witness:
  "\<exists>ls t. send_run demo_job (send_file_internal (good_client 2) (sj_header demo_job) demo_client) ls
       (Sd_returned True, t)
     \<and> starts_with (qc_file_ack t) ''OK''"
  using demo_run internal_true_delivered [OF _ demo_ready(2)] by blast

text \<open>
  The sender can finish. For a file of any size below 2^64, when the file can be hashed
  and opened and still has the size it was announced with, and the client is connected,
  there is a run of \<open>send_file\<close>, with msquic completing every send and the receiver answering
  ACCEPT and OK, that returns true: the loop over the chunks ends.
\<close>

theorem send_file_can_succeed:
  assumes "qc_connected s \<and> qc_connection s \<noteq> None \<and> qc_api s"
    and "sha256_file evp fs file_path [] 0 = (True, hash, live)"
    and "fs file_path = Some content" and "length content < 2 ^ 64"
  shows "\<exists>ls t. send_run
     \<lparr>sj_header = \<lparr>fth_name = path_filename file_path, fth_size = of_nat (length content),
                   fth_sha256_hex = hash\<rparr>,
      sj_size = of_nat (length content), sj_file = fs file_path, sj_progress = prog\<rparr>
     (send_file evp (good_client st)
        \<lparr>pi_exists = True, pi_directory = False, pi_regular = True,
         pi_size = Some (of_nat (length content))\<rparr> fs file_path s)
     ls (Sd_returned True, t)"
proof -
  let ?h = "\<lparr>fth_name = path_filename file_path, fth_size = of_nat (length content), fth_sha256_hex = hash\<rparr>"
  let ?job = "\<lparr>sj_header = ?h, sj_size = of_nat (length content), sj_file = fs file_path, sj_progress = prog\<rparr>"
  have len: "unat (of_nat (length content) :: u64) = length content"
    using assms(4) by (intro unat_of_nat_u64) simp
  have "\<exists>ls t. send_run ?job (send_file_internal (good_client st) ?h s) ls (Sd_returned True, t)"
    by (rule send_run_success) (use assms len in \<open>auto simp: ready_client_def\<close>)
  moreover have "send_file evp (good_client st)
        \<lparr>pi_exists = True, pi_directory = False, pi_regular = True,
         pi_size = Some (of_nat (length content))\<rparr> fs file_path s
      = send_file_internal (good_client st) ?h s"
    using assms(1,2) by (auto simp: send_file_def)
  ultimately show ?thesis by simp
qed

lemma abc_hash: "sha256_file toy_evp [''d/a.txt'' \<mapsto> ''abc''] ''d/a.txt'' [] 0
  = (True, digest_to_hex 32 (replicate 32 (char_of (294::nat))), 0)"
proof -
  have "file_contents [''d/a.txt'' \<mapsto> ''abc''] ''d/a.txt'' = Some ''abc''"
    by (simp add: file_contents_def)
  from sha256_file_bytes [OF toy_evp_streaming this] show ?thesis
    by (simp add: sha256_bytes_def toy_evp_def)
qed

theorem send_file_can_succeed_witness:
  "\<exists>job ls t. send_run job
     (send_file toy_evp (good_client 2)
        \<lparr>pi_exists = True, pi_directory = False, pi_regular = True, pi_size = Some 3\<rparr>
        [''d/a.txt'' \<mapsto> ''abc''] ''d/a.txt'' demo_client)
     ls (Sd_returned True, t)"
proof -
  have c: "qc_connected demo_client \<and> qc_connection demo_client \<noteq> None \<and> qc_api demo_client"
    using demo_ready(1) by (simp add: ready_client_def)
  have f: "[''d/a.txt'' \<mapsto> ''abc''] ''d/a.txt'' = Some ''abc''" by simp
  have l: "length ''abc'' < 2 ^ 64" by simp
  have w3: "(of_nat (length ''abc'') :: u64) = 3" by simp
  show ?thesis
    using send_file_can_succeed [OF c abc_hash f l, of False 2] unfolding w3 by blast
qed

text \<open>
  \<open>was_rejected\<close> is only set by a rejection. On a connected client, when a call of
  \<open>send_file_internal\<close> leaves the flag set, the call has returned false, the decision was
  read from a reply that does not begin with \<open>ACCEPT\<close>, and no byte of the file was sent.
\<close>

theorem rejected_means_declined:
  assumes "send_file_internal E (sj_header job) s0 = (pc0, s1)"
    and "send_run job (pc0, s1) ls (pc, s)"
    and "qc_connected s0 \<and> qc_connection s0 \<noteq> None \<and> qc_api s0" and "replies_inv s0"
    and "qc_rejected s"
  shows "pc = Sd_returned False \<and> \<not> starts_with (qc_decision_buf s) ''ACCEPT''
    \<and> client_sends s = client_sends s1"
proof -
  have "rejection_inv (client_sends s1) (pc0, s1)"
    by (rule rejection_start [OF _ assms(4,1)]) (use assms(3) in \<open>simp add: ready_client_def\<close>)
  then have "rejection_inv (client_sends s1) (pc, s)" by (rule rejection_run [OF assms(2)])
  with assms(5) show ?thesis by (auto simp: rejection_inv_def replies_inv_def)
qed

lemma demo_reject_run:
  "\<exists>s1 t ls. send_file_internal (good_client 2) (sj_header demo_job) demo_client = (Sd_header_wait, s1)
     \<and> send_run demo_job (Sd_header_wait, s1) ls (Sd_returned False, t) \<and> qc_rejected t"
proof -
  obtain a where start: "send_file_internal (good_client 2) (sj_header demo_job) demo_client = (Sd_header_wait, a)"
    and a: "qc_awaiting_decision a" "qc_decision_buf a = []"
    using send_start_good [OF demo_ready(1)] by blast
  let ?b = "a\<lparr>qc_io := free_block 0 (qc_io a), qc_send_done := True\<rparr>"
  let ?c = "client_on_stream_event 2 (Receive [msg_reject]) ?b"
  have "str_find [NL] msg_reject = Some 6" "\<not> starts_with msg_reject ''ACCEPT''" by code_simp+
  then have c: "qc_decision_ready ?c" "\<not> qc_decision_accepted ?c"
    using a by (simp_all add: client_on_stream_event_def receive_reply_def resolve_decision_def Let_def)
  let ?d = "?c\<lparr>qc_rejected := True\<rparr>"
  have "send_run demo_job (Sd_header_wait, a)
      [S_stream 2 (SendComplete 0), S_wake, S_stream 2 (Receive [msg_reject]), S_wake] (send_fail ?d)"
  proof (rule send_cons [OF client_stream_callback], unfold send_completes, rule send_cons [OF header_sent])
    show "qc_send_done ?b" by simp
    show "send_run demo_job (Sd_decision, ?b) [S_stream 2 (Receive [msg_reject]), S_wake] (send_fail ?d)"
      by (rule send_cons [OF client_stream_callback], rule send_cons [OF decision_no send_nil])
        (use c in simp_all)
  qed
  moreover have "send_fail ?d = (Sd_returned False, abort_stream ?d)" "qc_rejected (abort_stream ?d)"
    by (simp_all add: send_fail_def)
  ultimately show ?thesis using start by metis
qed

theorem rejected_means_declined_witness:
  "\<exists>s1 t ls. send_run demo_job (Sd_header_wait, s1) ls (Sd_returned False, t) \<and> qc_rejected t
     \<and> \<not> starts_with (qc_decision_buf t) ''ACCEPT''"
proof -
  obtain s1 t ls where r: "send_file_internal (good_client 2) (sj_header demo_job) demo_client = (Sd_header_wait, s1)"
      "send_run demo_job (Sd_header_wait, s1) ls (Sd_returned False, t)" "qc_rejected t"
    using demo_reject_run by blast
  have c: "qc_connected demo_client \<and> qc_connection demo_client \<noteq> None \<and> qc_api demo_client"
    using demo_ready(1) by (simp add: ready_client_def)
  from rejected_means_declined [OF r(1,2) c demo_ready(2) r(3)] r show ?thesis by blast
qed

section \<open>Where the sender falls short\<close>

definition connection_lost :: "handle \<Rightarrow> handle \<Rightarrow> quic_client \<Rightarrow> quic_client" where
  "connection_lost c h s =
     client_on_connection_event c (C_shutdown_complete False)
       (client_on_stream_event h (StreamShutdownComplete False)
         (client_on_stream_event h PeerReceiveAborted
           (client_on_stream_event h PeerSendAborted
             (client_on_connection_event c C_shutdown_by_peer s))))"

text \<open>
  A stale rejection. After a rejected transfer, a call of \<open>send_file\<close> that fails before
  it opens a stream, here for a file that does not exist, still reports the transfer as
  rejected, although the header file documents the flag as being about the most recent
  call and not about I/O errors.
\<close>

theorem stale_rejection_reported:
  assumes "qc_rejected s" and "\<not> pi_exists info"
  shows "fst (send_file evp E info fs file_path s) = Sd_returned False
    \<and> qc_rejected (snd (send_file evp E info fs file_path s))"
  using assms by (simp add: send_file_def)

theorem stale_rejection_reported_witness:
  "\<exists>s1 t ls. send_run demo_job (Sd_header_wait, s1) ls (Sd_returned False, t)
     \<and> qc_rejected (snd (send_file toy_evp (good_client 2)
          \<lparr>pi_exists = False, pi_directory = False, pi_regular = False, pi_size = None\<rparr>
          Map.empty ''missing'' t))"
proof -
  obtain s1 t ls where r: "send_run demo_job (Sd_header_wait, s1) ls (Sd_returned False, t)" "qc_rejected t"
    using demo_reject_run by blast
  have "\<not> pi_exists \<lparr>pi_exists = False, pi_directory = False, pi_regular = False, pi_size = None\<rparr>"
    by simp
  from stale_rejection_reported [OF r(2) this] r(1) show ?thesis by blast
qed

text \<open>
  Replies are not matched to their stream. While the sender waits for the decision on
  its stream, the end of any other stream, for instance a late event of an earlier
  transfer that was aborted, ends the call as rejected although the receiver has not
  answered.
\<close>

theorem foreign_stream_rejects:
  assumes "qc_awaiting_decision s" and "\<not> starts_with (qc_decision_buf s) ''ACCEPT''"
    and "qc_stream s = Some st" and "other \<noteq> st"
  shows "\<exists>t. send_run job (Sd_decision, s) [S_stream other PeerSendShutdown, S_wake]
      (Sd_returned False, t) \<and> qc_rejected t"
proof -
  let ?u = "client_on_stream_event other PeerSendShutdown s"
  have u: "qc_decision_ready ?u" "\<not> qc_decision_accepted ?u"
    using assms(1,2) by (simp_all add: client_on_stream_event_def resolve_decision_def)
  have "send_run job (Sd_decision, s) [S_stream other PeerSendShutdown, S_wake]
      (send_fail (?u\<lparr>qc_rejected := True\<rparr>))"
    by (intro send_cons [OF client_stream_callback] send_cons [OF decision_no send_nil] u)
  then show ?thesis by (auto simp: send_fail_def)
qed

theorem foreign_stream_rejects_witness:
  "\<exists>s t. qc_stream s = Some 2
     \<and> send_run demo_job (Sd_decision, s) [S_stream 7 PeerSendShutdown, S_wake] (Sd_returned False, t)
     \<and> qc_rejected t"
proof -
  obtain s :: quic_client where s: "qc_awaiting_decision s" "qc_decision_buf s = []" "qc_stream s = Some 2"
    using send_start_good [OF demo_ready(1), of 2] by blast
  then have "\<not> starts_with (qc_decision_buf s) ''ACCEPT''" by (simp add: starts_with_def)
  from foreign_stream_rejects [OF s(1) this s(3), of 7] s(3) show ?thesis by auto
qed

text \<open>
  A lost connection is not noticed. When the peer aborts the stream and the connection
  shuts down while the sender waits for the decision or for the final reply, none of the
  events ends the wait: the only step left to the application thread is its timeout.
\<close>

theorem lost_connection_waits_for_timeout:
  assumes "pc = Sd_decision \<and> \<not> qc_decision_ready s \<or> pc = Sd_ack_wait \<and> \<not> qc_file_done s"
    and "send_step job (pc, connection_lost c h s) l y"
    and "l = S_wake \<or> l = S_timeout"
  shows "l = S_timeout \<and> fst y = Sd_returned False"
proof -
  have lost: "qc_decision_ready (connection_lost c h s) = qc_decision_ready s"
    "qc_file_done (connection_lost c h s) = qc_file_done s"
    by (simp_all add: connection_lost_def) (simp_all add: client_on_stream_event_def client_call_def)
  show ?thesis
    using assms(2,1,3) lost by (cases rule: send_step.cases) (auto simp: send_fail_def)
qed

theorem lost_connection_waits_for_timeout_witness:
  "send_step demo_job (Sd_ack_wait, connection_lost 1 2 demo_client) S_timeout
     (Sd_returned False, connection_lost 1 2 demo_client)
   \<and> (\<forall>y. \<not> send_step demo_job (Sd_ack_wait, connection_lost 1 2 demo_client) S_wake y)"
proof -
  have n: "Sd_ack_wait = Sd_decision \<and> \<not> qc_decision_ready demo_client
      \<or> Sd_ack_wait = Sd_ack_wait \<and> \<not> qc_file_done demo_client"
    by (simp add: demo_client_def new_client_def)
  have "\<not> qc_file_done (connection_lost 1 2 demo_client)"
    by (simp add: connection_lost_def client_on_stream_event_def client_call_def demo_client_def new_client_def)
  then have st: "send_step demo_job (Sd_ack_wait, connection_lost 1 2 demo_client) S_timeout
     (Sd_returned False, connection_lost 1 2 demo_client)" by (rule ack_timeout)
  have "\<not> send_step demo_job (Sd_ack_wait, connection_lost 1 2 demo_client) S_wake y" for y
    using lost_connection_waits_for_timeout [OF n, of demo_job 1 2 S_wake y] by blast
  with st show ?thesis by blast
qed

end
