(* ===== verification/End_To_End.thy ===== *)
theory End_To_End
  imports Server_Races Client_Properties
begin

text \<open>
  A whole transfer: the sender of \<open>Client_Session\<close>, a stream that delivers the bytes in order
  in any pieces, and the receiver of \<open>Quic_Server\<close>. The only thing assumed of the network is
  that the concatenation of what arrives is the concatenation of what was sent.
\<close>

lemma encode_normalise: "encode_file_header (normalise_header h) = encode_file_header h"
proof -
  have l: "map to_lower (map to_lower s) = map to_lower s" for s by simp
  show ?thesis
    using safe_sanitize [of "fth_name h"] sanitize_safe_id [OF safe_sanitize [of "fth_name h"]] l
    by (simp add: encode_file_header_def normalise_header_def Let_def)
qed

text \<open>All the bytes of a completed sender.\<close>

lemma sender_bytes:
  assumes run: "send_run job (send_file_internal E (sj_header job) s0) ls (Sd_ack_wait, s)"
    and "replies_inv s0" and "sj_file job = Some content" and "unat (sj_size job) = length content"
    and "client_sends s = client_sends s0 @ sent"
    and "length (encode_file_header (sj_header job)) \<le> k_max_header_bytes"
  shows "concat (map fst sent) = encode_file_header (sj_header job) @ content"
proof -
  have "send_inv job (client_sends s0) (Sd_ack_wait, s)"
    by (rule send_inv_run [OF run send_inv_start [OF refl assms(2)]])
  then obtain cs where cs: "client_sends s
        = client_sends s0 @ (u32_part (encode_file_header (sj_header job)), False) # cs" "body_sent job cs"
    by (auto simp: send_inv_def send_progressed_def)
  have h: "u32_part (encode_file_header (sj_header job)) = encode_file_header (sj_header job)"
    using assms(6) by (intro u32_part_small) (simp add: k_max_header_bytes_def)
  have "concat (map fst cs) = content"
  proof (cases "sj_size job = 0")
    case True
    then show ?thesis using cs(2) assms(4) by (simp add: body_sent_def)
  next
    case False
    then show ?thesis using cs(2) assms(3,4) by (auto simp: body_sent_def chunks_of_def)
  qed
  with cs(1) assms(5) h show ?thesis by simp
qed

text \<open>
  End to end. A file is sent with the header \<open>send_file\<close> builds for it and received by an
  automatically accepting receiver into a directory. If the sender has sent everything
  (it waits for the final reply), then, however the stream was cut on its way, the receiver
  has stored exactly the file's contents under the sanitised name in that directory, says
  so to its caller and has answered OK.
\<close>

theorem transfer_end_to_end:
  assumes "evp_streaming evp" and "evp_sized evp"
    and "fs file_path = Some content" and "sha256_file evp fs file_path [] 0 = (True, hash, live)"
    and "length content < 2 ^ 64"
    and header: "header = \<lparr>fth_name = path_filename file_path, fth_size = of_nat (length content),
                    fth_sha256_hex = hash\<rparr>"
    and "length (encode_file_header header) \<le> k_max_header_bytes"
    and job: "job = \<lparr>sj_header = header, sj_size = of_nat (length content), sj_file = Some content,
                sj_progress = prog\<rparr>"
    and "send_run job (send_file_internal E header s0) ls (Sd_ack_wait, s)" and "replies_inv s0"
    and "client_sends s = client_sends s0 @ sent"
    and "concat (concat events) = concat (map fst sent)"
    and "\<forall>d \<in> set (concat events). length d < 4294967296"
    and "looks_like_dir is_dir dir"
    and r: "r = receiver_run evp good_env c st events (receive_begin is_dir dir False g r0)"
  shows "qs_files r (path_append dir (sanitize_file_name (path_filename file_path))) = Some content
    \<and> frr_success (qs_file_result r)
    \<and> last (sends_of (io_calls (qs_io r))) = (msg_ok, True)"
proof -
  have len: "unat (of_nat (length content) :: u64) = length content"
    using assms(5) by (intro unat_of_nat_u64) simp
  let ?h = "normalise_header header" and ?s = "receive_begin is_dir dir False g r0"
  have hash: "sha256_bytes evp content [] 0 = (True, hash, live)"
    using assms(1,3,4) sha256_file_bytes [OF assms(1), of fs file_path content "[]" 0]
    by (simp add: file_contents_def)
  have live: "live = 0"
    using hash by (auto simp: sha256_bytes_def Let_def split: option.splits)
  note form = sha256_bytes_form [OF assms(2) hash]
  have wf: "wf_header ?h" by (rule wf_normalise) (simp add: header form)
  have bytes: "concat (concat events) = encode_file_header ?h @ content"
    using sender_bytes [of job E s0 ls s content sent] assms len
    by (simp add: job encode_normalise)
  have short: "length (encode_file_header ?h) \<le> k_max_header_bytes"
    using assms(7) by (simp add: encode_normalise)
  have spec: "receive_spec evp ?h content"
    using hash live form len by (simp add: receive_spec_def normalise_header_def header)
  have target: "target_path ?s ?h = path_append dir (sanitize_file_name (path_filename file_path))"
    using assms(14) by (simp add: target_path_def receive_begin_def normalise_header_def header Let_def)
  have size_all: "take (unat (fth_size ?h)) content = content"
    by (simp add: normalise_header_def header len)
  from receiver_result [OF assms(1) wf bytes short assms(13) refl r] spec
  show ?thesis unfolding target size_all by simp
qed

lemma toy_sized: "evp_sized toy_evp"
  by (auto simp: evp_sized_def toy_evp_def)

theorem transfer_end_to_end_witness:
  "\<exists>ls s r. send_run demo_job (send_file_internal (good_client 2) (sj_header demo_job) demo_client) ls (Sd_ack_wait, s)
     \<and> r = receiver_run toy_evp good_env 1 2 [[concat (map fst (client_sends s))]]
            (receive_begin (\<lambda>_. False) ''in/'' False False (new_server 4433 Map.empty))
     \<and> qs_files r ''in/a.txt'' = Some ''abc'' \<and> frr_success (qs_file_result r)"
proof -
  obtain ls s where run: "send_run demo_job (send_file_internal (good_client 2) (sj_header demo_job) demo_client) ls
      (Sd_ack_wait, s)"
    using send_run_to_ack [OF demo_ready(1) refl, of demo_job 2] by (auto simp: demo_job_def)
  let ?fs = "[''d/a.txt'' \<mapsto> ''abc'']"
  have name: "path_filename ''d/a.txt'' = ''a.txt''" "sanitize_file_name ''a.txt'' = ''a.txt''"
    "path_append ''in/'' ''a.txt'' = ''in/a.txt''" by code_simp+
  have hex: "digest_to_hex 32 (replicate 32 (char_of (294::nat))) = concat (replicate 32 ''26'')"
    using abc_spec abc_hash sha256_file_bytes [OF toy_evp_streaming, of ?fs "''d/a.txt''" "''abc''" "[]" 0]
    by (simp add: receive_spec_def abc_header_def file_contents_def)
  have hash: "sha256_file toy_evp ?fs ''d/a.txt'' [] 0 = (True, concat (replicate 32 ''26''), 0)"
    using abc_hash by (simp only: hex)
  have header: "sj_header demo_job = \<lparr>fth_name = path_filename ''d/a.txt'', fth_size = of_nat (length ''abc''),
      fth_sha256_hex = concat (replicate 32 ''26'')\<rparr>"
    by (simp add: demo_job_def name)
  have job: "demo_job = \<lparr>sj_header = sj_header demo_job, sj_size = of_nat (length ''abc''), sj_file = Some ''abc'',
      sj_progress = True\<rparr>" by (simp add: demo_job_def)
  have h: "sj_header demo_job = abc_header" by (simp add: demo_job_def abc_header_def)
  have short: "length (encode_file_header (sj_header demo_job)) \<le> k_max_header_bytes"
    by (simp add: h abc_short k_max_header_bytes_def)
  have none: "client_sends s = client_sends demo_client @ client_sends s"
    by (simp add: demo_client_def new_client_def io_init_def)
  have bytes: "concat (map fst (client_sends s)) = encode_file_header (sj_header demo_job) @ ''abc''"
    by (rule sender_bytes [OF run demo_ready(2) _ _ none short]) (simp_all add: demo_job_def)
  have small: "\<forall>d \<in> set (concat [[concat (map fst (client_sends s))]]). length d < 4294967296"
    unfolding bytes by (simp add: h abc_short)
  have dir: "looks_like_dir (\<lambda>_. False) ''in/''" by (simp add: looks_like_dir_def)
  let ?r = "receiver_run toy_evp good_env 1 2 [[concat (map fst (client_sends s))]]
      (receive_begin (\<lambda>_. False) ''in/'' False False (new_server 4433 Map.empty))"
  have "qs_files ?r (path_append ''in/'' (sanitize_file_name (path_filename ''d/a.txt''))) = Some ''abc''
    \<and> frr_success (qs_file_result ?r) \<and> last (sends_of (io_calls (qs_io ?r))) = (msg_ok, True)"
    by (rule transfer_end_to_end [OF toy_evp_streaming toy_sized _ hash _ header short job run
          demo_ready(2) none _ small dir refl]) simp_all
  with run show ?thesis unfolding name by blast
qed

end
