(* ===== verification/Teardown.thy ===== *)
theory Teardown
  imports Quic_Api
begin

text \<open>
  Opening and closing the objects of msquic. An owner holds a stack of objects, the
  innermost first; a log is balanced with a stack when every close in it closed the
  innermost object then open and the objects left open are the stack. The locale
  \<open>teardown\<close> is the contract of the endpoints' release functions; \<open>Server_Lifecycle\<close> and
  \<open>Client_Lifecycle\<close> interpret it.
\<close>

section \<open>Balanced logs\<close>

datatype msquic_object =
    Obj_api
  | Obj_registration handle
  | Obj_configuration handle
  | Obj_listener handle
  | Obj_connection handle

text \<open>Streams belong to a call and are closed by their own callbacks; they are not counted here.\<close>

fun opens_object :: "quic_call \<Rightarrow> msquic_object option" where
  "opens_object MsQuicOpen2 = Some Obj_api"
| "opens_object (RegistrationOpen h) = Some (Obj_registration h)"
| "opens_object (ConfigurationOpen h) = Some (Obj_configuration h)"
| "opens_object (ListenerOpen h) = Some (Obj_listener h)"
| "opens_object (ConnectionOpen h) = Some (Obj_connection h)"
| "opens_object _ = None"

fun closes_object :: "quic_call \<Rightarrow> msquic_object option" where
  "closes_object MsQuicClose = Some Obj_api"
| "closes_object (RegistrationClose h) = Some (Obj_registration h)"
| "closes_object (ConfigurationClose h) = Some (Obj_configuration h)"
| "closes_object (ListenerClose h) = Some (Obj_listener h)"
| "closes_object (ConnectionClose h) = Some (Obj_connection h)"
| "closes_object _ = None"

text \<open>
  Which objects an owner answers for. The client opens its connection and answers for every object;
  the server is given the connections of its peers by msquic and opens none.
\<close>

fun any_object :: "msquic_object \<Rightarrow> bool" where
  "any_object x = True"

fun no_connection :: "msquic_object \<Rightarrow> bool" where
  "no_connection (Obj_connection h) = False"
| "no_connection x = True"

definition track_call ::
  "(msquic_object \<Rightarrow> bool) \<Rightarrow> quic_call \<Rightarrow> msquic_object list option \<Rightarrow> msquic_object list option" where
  "track_call K c st =
     Option.bind st (\<lambda>objs.
       case opens_object c of
         Some x \<Rightarrow> Some (if K x then x # objs else objs)
       | None \<Rightarrow>
           (case closes_object c of
              None \<Rightarrow> Some objs
            | Some x \<Rightarrow> if \<not> K x then Some objs else if objs \<noteq> [] \<and> hd objs = x then Some (tl objs) else None))"

definition track :: "(msquic_object \<Rightarrow> bool) \<Rightarrow> quic_call list \<Rightarrow> msquic_object list option" where
  "track K cs = fold (track_call K) cs (Some [])"

definition balanced :: "(msquic_object \<Rightarrow> bool) \<Rightarrow> quic_call list \<Rightarrow> msquic_object list \<Rightarrow> bool" where
  "balanced K cs objs \<longleftrightarrow> track K cs = Some objs"

lemma balanced_nil [simp]: "balanced K [] []"
  by (simp add: balanced_def track_def)

lemma balanced_open:
  "balanced K cs objs \<Longrightarrow> opens_object c = Some x \<Longrightarrow> K x \<Longrightarrow> balanced K (cs @ [c]) (x # objs)"
  by (simp add: balanced_def track_def track_call_def)

lemma balanced_close:
  "balanced K cs (x # objs) \<Longrightarrow> opens_object c = None \<Longrightarrow> closes_object c = Some x \<Longrightarrow> K x \<Longrightarrow>
   balanced K (cs @ [c]) objs"
  by (simp add: balanced_def track_def track_call_def)

lemma balanced_other:
  "balanced K cs objs \<Longrightarrow> opens_object c = None \<Longrightarrow> closes_object c = None \<Longrightarrow>
   balanced K (cs @ [c]) objs"
  by (simp add: balanced_def track_def track_call_def)

section \<open>The contract of a release function\<close>

locale teardown =
  fixes owned :: "msquic_object \<Rightarrow> bool"
    and release :: "'s \<Rightarrow> 's"
    and held :: "'s \<Rightarrow> msquic_object list"
    and calls :: "'s \<Rightarrow> quic_call list"
    and nested :: "'s \<Rightarrow> bool" \<comment> \<open>an object is held only inside the API\<close>
  assumes releases: "nested s \<Longrightarrow> held (release s) = []"
    and closes_inner_first: "nested s \<Longrightarrow> balanced owned (calls s) (held s) \<Longrightarrow> balanced owned (calls (release s)) []"
    and stays_nested: "nested s \<Longrightarrow> nested (release s)"
    and nothing_to_release: "nested s \<Longrightarrow> held s = [] \<Longrightarrow> balanced owned (calls s) [] \<Longrightarrow> calls (release s) = calls s"
begin

lemma release_twice:
  assumes "nested s" and "balanced owned (calls s) (held s)"
  shows "calls (release (release s)) = calls (release s) \<and> held (release (release s)) = []"
proof -
  note n = stays_nested [OF assms(1)] and h = releases [OF assms(1)]
    and b = closes_inner_first [OF assms]
  show ?thesis using nothing_to_release [OF n h b] releases [OF n] by simp
qed

end

end
