(* ===== verification/Server_Lifecycle.thy ===== *)
theory Server_Lifecycle
  imports Quic_Server Teardown
begin

text \<open>
  \<open>QuicServer::start\<close> and \<open>stop\<close>, with \<open>open_configuration\<close> and \<open>open_listener\<close>. The
  environment of a start says which calls of msquic succeed and which handles they give;
  only calls that succeed are logged.
\<close>

section \<open>Starting\<close>

record start_env =
  st_open :: bool
  st_registration :: "handle option"
  st_cert_exists :: bool
  st_key_exists :: bool
  st_configuration :: "handle option"
  st_credential :: bool
  st_listener :: "handle option"
  st_host_ok :: bool
  st_listener_start :: bool

definition open_configuration :: "start_env \<Rightarrow> quic_server \<Rightarrow> bool \<times> quic_server" where
  "open_configuration E s =
     (if \<not> st_cert_exists E \<or> \<not> st_key_exists E then (False, s)
      else
        case st_configuration E of
          None \<Rightarrow> (False, s\<lparr>qs_configuration := None\<rparr>)
        | Some h \<Rightarrow>
            let s1 = (api_call (ConfigurationOpen h) s)\<lparr>qs_configuration := Some h\<rparr>
            in if \<not> st_credential E
               then (False, (api_call (ConfigurationClose h) s1)\<lparr>qs_configuration := None\<rparr>)
               else (True, api_call (ConfigurationLoadCredential h) s1))"

definition open_listener :: "start_env \<Rightarrow> quic_server \<Rightarrow> bool \<times> quic_server" where
  "open_listener E s =
     (case st_listener E of
        None \<Rightarrow> (False, s\<lparr>qs_listener := None\<rparr>)
      | Some h \<Rightarrow>
          let s1 = (api_call (ListenerOpen h) s)\<lparr>qs_listener := Some h\<rparr>
          in if \<not> st_host_ok E
             then (False, (api_call (ListenerClose h) s1)\<lparr>qs_listener := None\<rparr>)
             else if \<not> st_listener_start E
             then (False, (api_call (ListenerClose h) s1)\<lparr>qs_listener := None\<rparr>)
             else (True, api_call (ListenerStart h) s1))"

definition stop :: "quic_server \<Rightarrow> quic_server" where
  "stop s =
     (let s1 = s\<lparr>qs_receiving_file := False\<rparr>;
          s2 = (if qs_api s1 then
                  (case qs_client_connection s1 of
                     None \<Rightarrow> s1 | Some c \<Rightarrow> api_call (ConnectionShutdown c) s1)
                else s1);
          s3 = (case qs_listener s2 of
                  Some h \<Rightarrow> if qs_api s2
                    then (api_call (ListenerClose h) (api_call (ListenerStop h) s2))\<lparr>qs_listener := None\<rparr>
                    else s2
                | None \<Rightarrow> s2);
          s4 = (case qs_configuration s3 of
                  Some h \<Rightarrow> if qs_api s3 then (api_call (ConfigurationClose h) s3)\<lparr>qs_configuration := None\<rparr>
                            else s3
                | None \<Rightarrow> s3);
          s5 = (case qs_registration s4 of
                  Some h \<Rightarrow> if qs_api s4 then (api_call (RegistrationClose h) s4)\<lparr>qs_registration := None\<rparr>
                            else s4
                | None \<Rightarrow> s4);
          s6 = (if qs_api s5 then (api_call MsQuicClose s5)\<lparr>qs_api := False\<rparr> else s5)
      in s6\<lparr>qs_running := False\<rparr>)"

definition start :: "start_env \<Rightarrow> bytes \<Rightarrow> quic_server \<Rightarrow> bool \<times> quic_server" where
  "start E host s =
     (if qs_running s then (True, s)
      else
        let s1 = s\<lparr>qs_bind_host := host\<rparr>
        in if \<not> st_open E then (False, s1\<lparr>qs_api := False\<rparr>)
           else
             let s2 = (api_call MsQuicOpen2 s1)\<lparr>qs_api := True\<rparr>
             in case st_registration E of
                  None \<Rightarrow> (False, stop (s2\<lparr>qs_registration := None\<rparr>))
                | Some r \<Rightarrow>
                    let s3 = (api_call (RegistrationOpen r) s2)\<lparr>qs_registration := Some r\<rparr>
                    in case open_configuration E s3 of
                         (ok, s4) \<Rightarrow>
                           if \<not> ok then (False, stop s4)
                           else
                             case open_listener E s4 of
                               (ok', s5) \<Rightarrow>
                                 if \<not> ok' then (False, stop s5)
                                 else (True, s5\<lparr>qs_running := True\<rparr>))"

section \<open>What a server holds\<close>

definition server_held :: "quic_server \<Rightarrow> msquic_object list" where
  "server_held s =
     (case qs_listener s of None \<Rightarrow> [] | Some h \<Rightarrow> [Obj_listener h])
     @ (case qs_configuration s of None \<Rightarrow> [] | Some h \<Rightarrow> [Obj_configuration h])
     @ (case qs_registration s of None \<Rightarrow> [] | Some h \<Rightarrow> [Obj_registration h])
     @ (if qs_api s then [Obj_api] else [])"

definition server_nested :: "quic_server \<Rightarrow> bool" where
  "server_nested s \<longleftrightarrow>
     qs_api s \<or> qs_listener s = None \<and> qs_configuration s = None \<and> qs_registration s = None"

abbreviation server_calls :: "quic_server \<Rightarrow> quic_call list" where
  "server_calls s \<equiv> io_calls (qs_io s)"

lemma api_call_log [simp]: "server_calls (api_call c s) = server_calls s @ [c]"
  by (simp add: api_call_def io_call_def)

lemma api_call_frame [simp]:
  "qs_api (api_call c s) = qs_api s" "qs_listener (api_call c s) = qs_listener s"
  "qs_configuration (api_call c s) = qs_configuration s"
  "qs_registration (api_call c s) = qs_registration s" "qs_running (api_call c s) = qs_running s"
  "qs_client_connection (api_call c s) = qs_client_connection s"
  by (simp_all add: api_call_def)

lemma stop_log:
  assumes "server_nested s"
  shows "server_calls (stop s) = server_calls s
     @ (if qs_api s then
          (case qs_client_connection s of None \<Rightarrow> [] | Some c \<Rightarrow> [ConnectionShutdown c])
          @ (case qs_listener s of None \<Rightarrow> [] | Some h \<Rightarrow> [ListenerStop h, ListenerClose h])
          @ (case qs_configuration s of None \<Rightarrow> [] | Some h \<Rightarrow> [ConfigurationClose h])
          @ (case qs_registration s of None \<Rightarrow> [] | Some h \<Rightarrow> [RegistrationClose h])
          @ [MsQuicClose] else [])"
  using assms by (simp add: stop_def server_nested_def Let_def split: option.splits)

lemma stop_released:
  assumes "server_nested s"
  shows "\<not> qs_api (stop s)" "qs_listener (stop s) = None" "qs_configuration (stop s) = None"
    "qs_registration (stop s) = None" "\<not> qs_running (stop s)" "\<not> qs_receiving_file (stop s)"
  using assms
  by (cases "qs_listener s"; cases "qs_configuration s"; cases "qs_registration s";
      cases "qs_client_connection s"; cases "qs_api s";
      simp add: stop_def server_nested_def api_call_def Let_def)+

lemma stop_balanced:
  assumes "server_nested s" and "balanced no_connection (server_calls s) (server_held s)"
  shows "balanced no_connection (server_calls (stop s)) []"
  using assms
  by (auto simp: stop_log server_held_def server_nested_def balanced_def track_def track_call_def
      split: option.splits if_splits)

interpretation server_teardown: teardown no_connection stop server_held server_calls server_nested
proof
  fix s assume n: "server_nested s"
  show "server_held (stop s) = []" using stop_released [OF n] by (simp add: server_held_def)
  show "server_nested (stop s)" using stop_released [OF n] by (simp add: server_nested_def)
  show "balanced no_connection (server_calls (stop s)) []" if "balanced no_connection (server_calls s) (server_held s)"
    using stop_balanced [OF n that] .
  show "server_calls (stop s) = server_calls s" if "server_held s = []"
    using that n by (simp add: stop_log server_held_def split: option.splits if_splits)
qed

section \<open>Outcomes of a start\<close>

definition idle_server :: "quic_server \<Rightarrow> bool" where
  "idle_server s \<longleftrightarrow> \<not> qs_running s \<and> server_nested s \<and> server_held s = []
     \<and> balanced no_connection (server_calls s) []"

definition start_succeeds :: "start_env \<Rightarrow> bool" where
  "start_succeeds E \<longleftrightarrow> st_open E \<and> st_registration E \<noteq> None
     \<and> st_cert_exists E \<and> st_key_exists E \<and> st_configuration E \<noteq> None \<and> st_credential E
     \<and> st_listener E \<noteq> None \<and> st_host_ok E \<and> st_listener_start E"

lemma idle_new: "idle_server (new_server port fs)"
  by (simp add: idle_server_def new_server_def server_nested_def server_held_def io_init_def)

lemma idle_fields:
  "idle_server s \<Longrightarrow> \<not> qs_running s \<and> \<not> qs_api s \<and> qs_listener s = None
     \<and> qs_configuration s = None \<and> qs_registration s = None"
  by (auto simp: idle_server_def server_held_def split: if_splits option.splits)

lemma idle_after_stop:
  "server_nested s \<Longrightarrow> balanced no_connection (server_calls s) (server_held s) \<Longrightarrow> idle_server (stop s)"
  using stop_released [of s] server_teardown.releases [of s] server_teardown.stays_nested [of s]
    server_teardown.closes_inner_first [of s]
  by (simp add: idle_server_def)

text \<open>The state between the steps of a start: what is open is what the log says.\<close>

definition accounted :: "quic_server \<Rightarrow> bool" where
  "accounted s \<longleftrightarrow> qs_api s \<and> balanced no_connection (server_calls s) (server_held s)"

lemma accounted_stop: "accounted s \<Longrightarrow> idle_server (stop s)"
  by (intro idle_after_stop) (simp_all add: accounted_def server_nested_def)

lemma open_configuration_cases:
  assumes "accounted s" and "qs_configuration s = None" and "qs_listener s = None"
    and "open_configuration E s = (ok, s')"
  shows "accounted s'" and "ok \<longleftrightarrow> st_cert_exists E \<and> st_key_exists E \<and> st_configuration E \<noteq> None \<and> st_credential E"
    and "qs_listener s' = None" and "qs_registration s' = qs_registration s"
    and "qs_configuration s' = (if ok then st_configuration E else None)"
  using assms
  by (auto simp: open_configuration_def accounted_def server_held_def balanced_def track_def
      track_call_def Let_def split: if_splits option.splits)

lemma open_listener_cases:
  assumes "accounted s" and "qs_listener s = None" and "open_listener E s = (ok, s')"
  shows "accounted s'" and "ok \<longleftrightarrow> st_listener E \<noteq> None \<and> st_host_ok E \<and> st_listener_start E"
    and "qs_registration s' = qs_registration s" and "qs_configuration s' = qs_configuration s"
    and "qs_listener s' = (if ok then st_listener E else None)"
  using assms
  by (auto simp: open_listener_def accounted_def server_held_def balanced_def track_def
      track_call_def Let_def split: if_splits option.splits)

text \<open>The part of a start behind the registration.\<close>

lemma start_registered:
  assumes a3: "accounted s3" "qs_configuration s3 = None" "qs_listener s3 = None"
    and r: "qs_registration s3 = Some r" "st_open E" "st_registration E = Some r"
    and c: "open_configuration E s3 = (ok4, s4)" and l: "open_listener E s4 = (ok5, s5)"
    and res: "(ok, s') = (if \<not> ok4 then (False, stop s4) else if \<not> ok5 then (False, stop s5)
          else (True, s5\<lparr>qs_running := True\<rparr>))"
  shows "(ok \<longleftrightarrow> start_succeeds E)
    \<and> (ok \<longrightarrow> qs_running s' \<and> balanced no_connection (server_calls s') (server_held s')
         \<and> server_held s' = [Obj_listener (the (st_listener E)), Obj_configuration (the (st_configuration E)),
              Obj_registration (the (st_registration E)), Obj_api])
    \<and> (\<not> ok \<longrightarrow> idle_server s')"
proof -
  note cc = open_configuration_cases [OF a3 c]
  note lc = open_listener_cases [OF cc(1) cc(3) l]
  have same: "server_held (s5\<lparr>qs_running := True\<rparr>) = server_held s5" by (simp add: server_held_def)
  have run: "balanced no_connection (server_calls (s5\<lparr>qs_running := True\<rparr>)) (server_held (s5\<lparr>qs_running := True\<rparr>))"
    using lc(1) same by (simp add: accounted_def)
  have held: "ok4 \<Longrightarrow> ok5 \<Longrightarrow> server_held (s5\<lparr>qs_running := True\<rparr>)
      = [Obj_listener (the (st_listener E)), Obj_configuration (the (st_configuration E)),
         Obj_registration (the (st_registration E)), Obj_api]"
    using lc cc r by (auto simp: server_held_def accounted_def)
  show ?thesis
    using res run held cc(2) lc(2) r accounted_stop [OF cc(1)] accounted_stop [OF lc(1)]
    by (auto simp: start_succeeds_def split: if_splits)
qed

section \<open>Properties\<close>

text \<open>
  C36: Starting is all or nothing. Whatever calls of msquic fail, a start of an idle server
  ends in one of two states: it reports success and the server runs and holds exactly its
  API, registration, configuration and listener; or it reports failure and the server is
  idle again, with everything it opened closed, innermost first. It succeeds exactly when
  every step does.
\<close>

theorem start_all_or_nothing:
  assumes "idle_server s" and "start E host s = (ok, s')"
  shows "(ok \<longleftrightarrow> start_succeeds E)
    \<and> (ok \<longrightarrow> qs_running s' \<and> balanced no_connection (server_calls s') (server_held s')
         \<and> server_held s' = [Obj_listener (the (st_listener E)), Obj_configuration (the (st_configuration E)),
              Obj_registration (the (st_registration E)), Obj_api])
    \<and> (\<not> ok \<longrightarrow> idle_server s')"
proof -
  note idle = idle_fields [OF assms(1)]
  let ?s2 = "(api_call MsQuicOpen2 (s\<lparr>qs_bind_host := host\<rparr>))\<lparr>qs_api := True\<rparr>"
  have b: "balanced no_connection (server_calls s) []" using assms(1) by (simp add: idle_server_def)
  have a2: "accounted (?s2\<lparr>qs_registration := None\<rparr>)"
    using balanced_open [OF b, of MsQuicOpen2] idle by (simp add: accounted_def server_held_def)
  show ?thesis
  proof (cases "st_open E")
    case False
    then show ?thesis
      using assms idle by (auto simp: start_def idle_server_def start_succeeds_def server_nested_def server_held_def)
  next
    case opened: True
    show ?thesis
    proof (cases "st_registration E")
      case None
      with assms(2) idle opened accounted_stop [OF a2] show ?thesis
        by (simp add: start_def start_succeeds_def Let_def)
    next
      case (Some r)
      let ?s3 = "(api_call (RegistrationOpen r) ?s2)\<lparr>qs_registration := Some r\<rparr>"
      have a3: "accounted ?s3" "qs_configuration ?s3 = None" "qs_listener ?s3 = None"
        using balanced_open [OF balanced_open [OF b, of MsQuicOpen2], of _ "RegistrationOpen r"] idle
        by (simp_all add: accounted_def server_held_def)
      obtain ok4 s4 where c: "open_configuration E ?s3 = (ok4, s4)" by (cases "open_configuration E ?s3")
      obtain ok5 s5 where l: "open_listener E s4 = (ok5, s5)" by (cases "open_listener E s4")
      show ?thesis
        by (rule start_registered [OF a3 _ opened Some c l])
           (use assms(2) idle opened Some c l in \<open>cases ok4; cases ok5; simp add: start_def Let_def\<close>)+
    qed
  qed
qed

definition demo_start :: start_env where
  "demo_start = \<lparr>st_open = True, st_registration = Some 1, st_cert_exists = True, st_key_exists = True,
     st_configuration = Some 2, st_credential = True, st_listener = Some 3, st_host_ok = True,
     st_listener_start = False\<rparr>"

theorem start_all_or_nothing_witness:
  "\<not> fst (start demo_start ''0.0.0.0'' (new_server 4433 Map.empty))
   \<and> idle_server (snd (start demo_start ''0.0.0.0'' (new_server 4433 Map.empty)))
   \<and> fst (start (demo_start\<lparr>st_listener_start := True\<rparr>) ''0.0.0.0'' (new_server 4433 Map.empty))"
  using start_all_or_nothing [OF idle_new surjective_pairing, of demo_start "''0.0.0.0''" 4433 Map.empty]
    start_all_or_nothing [OF idle_new surjective_pairing,
      of "demo_start\<lparr>st_listener_start := True\<rparr>" "''0.0.0.0''" 4433 Map.empty]
  by (simp add: start_succeeds_def demo_start_def)

text \<open>
  Stopping releases everything, once. After a stop of a server that holds what its log
  says, running or half started, with or without a client, nothing is held and the log is
  balanced, with every object closed inside the ones opened before it; a further stop,
  such as the one of the destructor, calls nothing.
\<close>

theorem stop_releases_once:
  assumes "balanced no_connection (server_calls s) (server_held s)"
    and "qs_api s \<or> qs_listener s = None \<and> qs_configuration s = None \<and> qs_registration s = None"
  shows "server_held (stop s) = [] \<and> balanced no_connection (server_calls (stop s)) []
    \<and> \<not> qs_running (stop s) \<and> \<not> qs_receiving_file (stop s)
    \<and> server_calls (stop (stop s)) = server_calls (stop s)"
proof -
  have n: "server_nested s" using assms(2) by (simp add: server_nested_def)
  show ?thesis
    using server_teardown.releases [OF n] server_teardown.closes_inner_first [OF n assms(1)]
      server_teardown.release_twice [OF n assms(1)] stop_released [OF n]
    by simp
qed

theorem stop_releases_once_witness:
  "server_calls (stop ((api_call MsQuicOpen2 (new_server 4433 Map.empty))\<lparr>qs_api := True\<rparr>))
     = [MsQuicOpen2, MsQuicClose]
   \<and> balanced no_connection [MsQuicOpen2, MsQuicClose] []"
proof -
  let ?s = "(api_call MsQuicOpen2 (new_server 4433 Map.empty))\<lparr>qs_api := True\<rparr>"
  have b: "balanced no_connection (server_calls ?s) (server_held ?s)"
    using balanced_open [OF balanced_nil, of MsQuicOpen2]
    by (simp add: server_held_def new_server_def io_init_def api_call_def io_call_def)
  have n: "qs_api ?s \<or> qs_listener ?s = None \<and> qs_configuration ?s = None \<and> qs_registration ?s = None"
    by simp
  have log: "server_calls (stop ?s) = [MsQuicOpen2, MsQuicClose]"
    by (simp add: stop_log server_nested_def new_server_def io_init_def)
  from stop_releases_once [OF b n] log show ?thesis by metis
qed

end
