(* ===== verification/Client_Lifecycle.thy ===== *)
theory Client_Lifecycle
  imports Quic_Client Teardown
begin

text \<open>
  \<open>QuicClient::connect\<close> and \<open>disconnect\<close>. Both block on callbacks, so they are programs with
  waits: \<open>connect\<close> runs up to the wait for the handshake, and gives up through
  \<open>disconnect\<close>, whose own wait is for the shutdown of the connection. The relation
  \<open>connect_step\<close> interleaves them with the callbacks.
\<close>

section \<open>Connecting\<close>

record connect_env =
  cn_open :: bool
  cn_registration :: "handle option"
  cn_configuration :: "handle option"
  cn_credential :: bool
  cn_connection :: "handle option"
  cn_connection_start :: bool

datatype connect_pc =
    Cn_wait
  | Cn_closing bool \<comment> \<open>the result once the shutdown is over\<close>
  | Cn_returned bool

definition client_open_configuration :: "connect_env \<Rightarrow> quic_client \<Rightarrow> bool \<times> quic_client" where
  "client_open_configuration E s =
     (case cn_configuration E of
        None \<Rightarrow> (False, s\<lparr>qc_configuration := None\<rparr>)
      | Some h \<Rightarrow>
          let s1 = (client_call (ConfigurationOpen h) s)\<lparr>qc_configuration := Some h\<rparr>
          in if \<not> cn_credential E
             then (False, (client_call (ConfigurationClose h) s1)\<lparr>qc_configuration := None\<rparr>)
             else (True, client_call (ConfigurationLoadCredential h) s1))"

text \<open>\<open>disconnect\<close> before its wait (which only happens when there is a connection) and after.\<close>

definition disconnect_finish :: "quic_client \<Rightarrow> quic_client" where
  "disconnect_finish s =
     (let s1 = (case qc_configuration s of
                  Some h \<Rightarrow> if qc_api s then (client_call (ConfigurationClose h) s)\<lparr>qc_configuration := None\<rparr>
                            else s
                | None \<Rightarrow> s);
          s2 = (case qc_registration s1 of
                  Some h \<Rightarrow> if qc_api s1 then (client_call (RegistrationClose h) s1)\<lparr>qc_registration := None\<rparr>
                            else s1
                | None \<Rightarrow> s1);
          s3 = (if qc_api s2 then (client_call MsQuicClose s2)\<lparr>qc_api := False\<rparr> else s2)
      in s3\<lparr>qc_connected := False, qc_connect_done := False, qc_connect_ok := False,
            qc_shutdown_complete := False\<rparr>)"

definition disconnect :: "bool \<Rightarrow> quic_client \<Rightarrow> connect_pc \<times> quic_client" where
  "disconnect result s =
     (case qc_connection s of
        Some c \<Rightarrow>
          if qc_api s then
            (Cn_closing result, client_call (ConnectionShutdown c) (s\<lparr>qc_shutdown_complete := False\<rparr>))
          else (Cn_returned result, disconnect_finish s)
      | None \<Rightarrow> (Cn_returned result, disconnect_finish s))"

definition client_connect :: "connect_env \<Rightarrow> bytes \<Rightarrow> u16 \<Rightarrow> quic_client \<Rightarrow> connect_pc \<times> quic_client" where
  "client_connect E host port s =
     (if qc_connected s then (Cn_returned True, s)
      else
        let s1 = s\<lparr>qc_host := host, qc_port := port, qc_connect_done := False, qc_connect_ok := False,
                   qc_shutdown_complete := False\<rparr>
        in if \<not> cn_open E then (Cn_returned False, s1\<lparr>qc_api := False\<rparr>)
           else
             let s2 = (client_call MsQuicOpen2 s1)\<lparr>qc_api := True\<rparr>
             in case cn_registration E of
                  None \<Rightarrow> disconnect False (s2\<lparr>qc_registration := None\<rparr>)
                | Some r \<Rightarrow>
                    let s3 = (client_call (RegistrationOpen r) s2)\<lparr>qc_registration := Some r\<rparr>
                    in case client_open_configuration E s3 of
                         (ok, s4) \<Rightarrow>
                           if \<not> ok then disconnect False s4
                           else
                             case cn_connection E of
                               None \<Rightarrow> disconnect False (s4\<lparr>qc_connection := None\<rparr>)
                             | Some c \<Rightarrow>
                                 let s5 = (client_call (ConnectionOpen c) s4)\<lparr>qc_connection := Some c\<rparr>
                                 in if \<not> cn_connection_start E then disconnect False s5
                                    else (Cn_wait, client_call (ConnectionStart c) s5))"

datatype connect_label =
    K_connection handle client_connection_event
  | K_wake
  | K_timeout

inductive connect_step ::
  "connect_pc \<times> quic_client \<Rightarrow> connect_label \<Rightarrow> connect_pc \<times> quic_client \<Rightarrow> bool" where
  connect_callback:
    "connect_step (pc, s) (K_connection c ev) (pc, client_on_connection_event c ev s)"
| connect_ok:
    "qc_connect_done s \<Longrightarrow> qc_connect_ok s \<Longrightarrow> connect_step (Cn_wait, s) K_wake (Cn_returned True, s)"
| connect_failed:
    "qc_connect_done s \<Longrightarrow> \<not> qc_connect_ok s \<Longrightarrow>
     connect_step (Cn_wait, s) K_wake (disconnect False s)"
| connect_timeout:
    "\<not> qc_connect_done s \<Longrightarrow> connect_step (Cn_wait, s) K_timeout (disconnect False s)"
| closing_done:
    "qc_shutdown_complete s \<Longrightarrow>
     connect_step (Cn_closing b, s) K_wake (Cn_returned b, disconnect_finish s)"
| closing_timeout:
    "\<not> qc_shutdown_complete s \<Longrightarrow>
     connect_step (Cn_closing b, s) K_timeout (Cn_returned b, disconnect_finish s)"

inductive connect_run ::
  "connect_pc \<times> quic_client \<Rightarrow> connect_label list \<Rightarrow> connect_pc \<times> quic_client \<Rightarrow> bool" where
  connect_nil: "connect_run x [] x"
| connect_cons: "connect_step x l y \<Longrightarrow> connect_run y ls z \<Longrightarrow> connect_run x (l # ls) z"

lemma connect_invariant:
  assumes "connect_run x ls y" and "P x"
    and "\<And>x l y. connect_step x l y \<Longrightarrow> P x \<Longrightarrow> P y"
  shows "P y"
  using assms by (induction rule: connect_run.induct) auto

lemma connect_run_append:
  "connect_run x ls y \<Longrightarrow> connect_run y ms z \<Longrightarrow> connect_run x (ls @ ms) z"
  by (induction rule: connect_run.induct) (auto intro: connect_cons)

text \<open>
  What msquic documents of the events of a connection \<open>h\<close>: they carry its handle, SHUTDOWN_COMPLETE is
  the last of them, and \<open>AppCloseInProgress\<close> is set in it only for an application that called
  \<open>ConnectionClose\<close> beforehand, which this one never does. \<open>h\<close> is None when there is no connection.
\<close>

fun reported_by :: "handle option \<Rightarrow> connect_label list \<Rightarrow> bool" where
  "reported_by h [] = True"
| "reported_by h (K_connection c ev # ls) \<longleftrightarrow> h = Some c \<and> ev \<noteq> C_shutdown_complete True
     \<and> reported_by (if ev = C_shutdown_complete False then None else h) ls"
| "reported_by h (K_wake # ls) = reported_by h ls"
| "reported_by h (K_timeout # ls) = reported_by h ls"

section \<open>What a client holds\<close>

definition held_connection :: "quic_client \<Rightarrow> msquic_object list" where
  "held_connection s = (case qc_connection s of None \<Rightarrow> [] | Some h \<Rightarrow> [Obj_connection h])"

definition client_held :: "quic_client \<Rightarrow> msquic_object list" where
  "client_held s = held_connection s
     @ (case qc_configuration s of None \<Rightarrow> [] | Some h \<Rightarrow> [Obj_configuration h])
     @ (case qc_registration s of None \<Rightarrow> [] | Some h \<Rightarrow> [Obj_registration h])
     @ (if qc_api s then [Obj_api] else [])"

definition client_inside :: "quic_client \<Rightarrow> bool" where
  "client_inside s \<longleftrightarrow> qc_api s \<or> qc_configuration s = None \<and> qc_registration s = None"

text \<open>What \<open>disconnect\<close> needs after its wait: the connection is gone.\<close>

definition client_nested :: "quic_client \<Rightarrow> bool" where
  "client_nested s \<longleftrightarrow> client_inside s \<and> qc_connection s = None"

abbreviation client_calls :: "quic_client \<Rightarrow> quic_call list" where
  "client_calls s \<equiv> io_calls (qc_io s)"

abbreviation client_balanced :: "quic_client \<Rightarrow> msquic_object list \<Rightarrow> bool" where
  "client_balanced s objs \<equiv> balanced any_object (client_calls s) objs"

lemma client_call_log [simp]: "client_calls (client_call c s) = client_calls s @ [c]"
  by (simp add: client_call_def io_call_def)

lemma client_call_frame [simp]:
  "qc_api (client_call c s) = qc_api s" "qc_configuration (client_call c s) = qc_configuration s"
  "qc_registration (client_call c s) = qc_registration s"
  "qc_connection (client_call c s) = qc_connection s" "qc_connected (client_call c s) = qc_connected s"
  "qc_shutdown_complete (client_call c s) = qc_shutdown_complete s"
  by (simp_all add: client_call_def)

lemma client_held_frame [simp]:
  "client_held (client_call c s) = client_held s"
  "client_held (s\<lparr>qc_shutdown_complete := b\<rparr>) = client_held s"
  "client_held (s\<lparr>qc_connected := b\<rparr>) = client_held s"
  by (simp_all add: client_held_def held_connection_def)

lemma finish_log:
  assumes "client_inside s"
  shows "client_calls (disconnect_finish s) = client_calls s
     @ (if qc_api s then
          (case qc_configuration s of None \<Rightarrow> [] | Some h \<Rightarrow> [ConfigurationClose h])
          @ (case qc_registration s of None \<Rightarrow> [] | Some h \<Rightarrow> [RegistrationClose h])
          @ [MsQuicClose] else [])"
  using assms
  by (cases "qc_configuration s"; cases "qc_registration s"; cases "qc_api s";
      simp add: disconnect_finish_def client_inside_def Let_def)

lemma finish_released:
  assumes "client_inside s"
  shows "\<not> qc_api (disconnect_finish s)" "qc_configuration (disconnect_finish s) = None"
    "qc_registration (disconnect_finish s) = None" "\<not> qc_connected (disconnect_finish s)"
    "qc_connection (disconnect_finish s) = qc_connection s"
  using assms
  by (cases "qc_configuration s"; cases "qc_registration s"; cases "qc_api s";
      simp add: disconnect_finish_def client_inside_def client_call_def Let_def)+

text \<open>Whatever \<open>disconnect\<close> finds, only a connection that is still open stays behind.\<close>

lemma finish_held: "client_inside s \<Longrightarrow> client_held (disconnect_finish s) = held_connection s"
  using finish_released [of s] by (simp add: client_held_def held_connection_def)

lemma finish_balanced:
  assumes "client_nested s" and "client_balanced s (client_held s)"
  shows "client_balanced (disconnect_finish s) []"
proof -
  have i: "client_inside s" and c: "qc_connection s = None" using assms(1) by (simp_all add: client_nested_def)
  show ?thesis using assms(2) i c unfolding finish_log [OF i]
    by (auto simp: client_held_def held_connection_def client_inside_def balanced_def track_def track_call_def
        split: option.splits if_splits)
qed

interpretation client_teardown: teardown any_object disconnect_finish client_held client_calls client_nested
proof
  fix s assume n: "client_nested s"
  then have i: "client_inside s" and c: "qc_connection s = None" by (simp_all add: client_nested_def)
  show "client_held (disconnect_finish s) = []" using finish_held [OF i] c by (simp add: held_connection_def)
  show "client_nested (disconnect_finish s)"
    using finish_released [OF i] c by (simp add: client_nested_def client_inside_def)
  show "client_balanced (disconnect_finish s) []" if "client_balanced s (client_held s)"
    using finish_balanced [OF n that] .
  show "client_calls (disconnect_finish s) = client_calls s" if "client_held s = []"
    using that i by (simp add: finish_log client_held_def split: option.splits if_splits)
qed

section \<open>The invariant of connecting\<close>

definition accounted_client :: "quic_client \<Rightarrow> bool" where
  "accounted_client s \<longleftrightarrow> qc_api s \<and> client_balanced s (client_held s)"

definition full_client :: "quic_client \<Rightarrow> bool" where
  "full_client s \<longleftrightarrow> accounted_client s \<and> qc_configuration s \<noteq> None \<and> qc_registration s \<noteq> None"

definition connect_inv :: "connect_pc \<times> quic_client \<Rightarrow> bool" where
  "connect_inv x \<longleftrightarrow>
     (case fst x of
        Cn_wait \<Rightarrow> full_client (snd x)
      | Cn_closing b \<Rightarrow> accounted_client (snd x) \<and> \<not> b
          \<and> (qc_connection (snd x) = None \<longleftrightarrow> qc_shutdown_complete (snd x))
      | Cn_returned b \<Rightarrow>
          if b then full_client (snd x)
          else client_held (snd x) = [] \<and> client_balanced (snd x) [])"

lemma accounted_call:
  "accounted_client s \<Longrightarrow> opens_object c = None \<Longrightarrow> closes_object c = None \<Longrightarrow>
   accounted_client (client_call c s)"
  by (simp add: accounted_client_def balanced_other)

lemma accounted_inside: "accounted_client s \<Longrightarrow> client_inside s"
  by (simp add: accounted_client_def client_inside_def)

text \<open>An event of the connection the client holds: its end closes the connection.\<close>

lemma connection_event_accounted:
  assumes "accounted_client s" and "qc_connection s = Some c" and "ev \<noteq> C_shutdown_complete True"
  shows "accounted_client (client_on_connection_event c ev s)"
    and "qc_configuration (client_on_connection_event c ev s) = qc_configuration s"
    and "qc_registration (client_on_connection_event c ev s) = qc_registration s"
    and "qc_connection (client_on_connection_event c ev s) = (if ev = C_shutdown_complete False then None else Some c)"
    and "qc_shutdown_complete (client_on_connection_event c ev s)
           = (ev = C_shutdown_complete False \<or> qc_shutdown_complete s)"
proof -
  have "accounted_client ((client_call (ConnectionClose c) (s\<lparr>qc_connected := False\<rparr>))
      \<lparr>qc_connection := None, qc_shutdown_complete := True\<rparr>)"
    using assms(1,2) balanced_close [of any_object "client_calls s" "Obj_connection c" _ "ConnectionClose c"]
    by (auto simp: accounted_client_def client_held_def held_connection_def)
  then show "accounted_client (client_on_connection_event c ev s)" using assms
    by (cases ev) (auto simp: client_on_connection_event_def notify_connect_waiter_def Let_def,
        auto simp: accounted_client_def client_held_def held_connection_def)
qed (use assms in \<open>cases ev; auto simp: client_on_connection_event_def notify_connect_waiter_def Let_def\<close>)+

lemma finish_accounted:
  "accounted_client s \<Longrightarrow> qc_connection s = None \<Longrightarrow>
   client_held (disconnect_finish s) = [] \<and> client_balanced (disconnect_finish s) []"
  using client_teardown.releases [of s] client_teardown.closes_inner_first [of s] accounted_inside [of s]
  by (simp add: accounted_client_def client_nested_def)

lemma disconnect_inv: "accounted_client s \<Longrightarrow> connect_inv (disconnect False s)"
  by (auto simp: disconnect_def connect_inv_def finish_accounted accounted_client_def balanced_other
      split: option.splits)

lemma disconnect_keeps:
  "accounted_client s \<Longrightarrow> qc_connection (snd (disconnect b s)) = qc_connection s"
  using finish_released(5) [OF accounted_inside, of s] by (simp add: disconnect_def split: option.splits)

lemma connect_returned_stays: "connect_run (Cn_returned b, s) ls (Cn_returned b', t) \<Longrightarrow> b' = b"
proof -
  assume r: "connect_run (Cn_returned b, s) ls (Cn_returned b', t)"
  have "fst (Cn_returned b', t) = Cn_returned b"
    by (rule connect_invariant [OF r, where P = "\<lambda>x. fst x = Cn_returned b"]) (auto elim: connect_step.cases)
  then show ?thesis by simp
qed

text \<open>Only a shutdown that does not complete in time breaks the invariant.\<close>

lemma connect_inv_step:
  assumes "connect_step x l y" and "connect_inv x" and "reported_by (qc_connection (snd x)) (l # ls)"
  shows "connect_inv y \<and> reported_by (qc_connection (snd y)) ls
    \<or> (\<exists>u. x = (Cn_closing False, u) \<and> l = K_timeout \<and> qc_connection u \<noteq> None
        \<and> y = (Cn_returned False, disconnect_finish u))"
  using assms
proof (induction rule: connect_step.induct)
  case (connect_callback pc s c ev)
  then have c: "qc_connection s = Some c" "ev \<noteq> C_shutdown_complete True" by auto
  have acc: "accounted_client s"
    using connect_callback(1) c(1) by (auto simp: connect_inv_def full_client_def client_held_def held_connection_def
        split: connect_pc.splits if_splits)
  note ev = connection_event_accounted [OF acc c]
  show ?case using connect_callback c ev
    by (auto simp: connect_inv_def full_client_def client_held_def held_connection_def split: connect_pc.splits if_splits)
next
  case (connect_failed s)
  then show ?case using disconnect_inv [of s] disconnect_keeps [of s False]
    by (simp add: connect_inv_def full_client_def)
next
  case (connect_timeout s)
  then show ?case using disconnect_inv [of s] disconnect_keeps [of s False]
    by (simp add: connect_inv_def full_client_def)
next
  case (closing_done s b)
  then have "accounted_client s" "qc_connection s = None" "\<not> b" by (simp_all add: connect_inv_def)
  with closing_done(3) show ?case
    using finish_accounted [of s] finish_released(5) [OF accounted_inside] by (simp add: connect_inv_def)
next
  case (closing_timeout s b)
  then show ?case by (simp add: connect_inv_def)
qed (simp add: connect_inv_def)

text \<open>The shutdown did not complete in time: the call returns with the connection open.\<close>

definition shutdown_missed ::
  "connect_pc \<times> quic_client \<Rightarrow> connect_label list \<Rightarrow> connect_pc \<times> quic_client \<Rightarrow> bool" where
  "shutdown_missed x ls y \<longleftrightarrow>
     (\<exists>ls1 ls2 u k. ls = ls1 @ K_timeout # ls2 \<and> connect_run x ls1 (Cn_closing False, u)
        \<and> client_balanced u (client_held u) \<and> qc_connection u = Some k
        \<and> client_held (disconnect_finish u) = [Obj_connection k]
        \<and> connect_run (Cn_returned False, disconnect_finish u) ls2 y)"

lemma connect_inv_run:
  "connect_run x ls y \<Longrightarrow> connect_inv x \<Longrightarrow> reported_by (qc_connection (snd x)) ls \<Longrightarrow>
   connect_inv y \<or> shutdown_missed x ls y"
proof (induction rule: connect_run.induct)
  case (connect_cons x l y ls z)
  show ?case
  proof (cases "connect_inv y \<and> reported_by (qc_connection (snd y)) ls")
    case True
    with connect_cons.IH have "connect_inv z \<or> shutdown_missed y ls z" by blast
    moreover have "shutdown_missed x (l # ls) z" if "shutdown_missed y ls z"
    proof -
      from that obtain ls1 ls2 u k where m: "ls = ls1 @ K_timeout # ls2" "connect_run y ls1 (Cn_closing False, u)"
        "client_balanced u (client_held u)" "qc_connection u = Some k"
        "client_held (disconnect_finish u) = [Obj_connection k]"
        "connect_run (Cn_returned False, disconnect_finish u) ls2 z"
        unfolding shutdown_missed_def by blast
      have "connect_run x (l # ls1) (Cn_closing False, u)" using connect_cons.hyps(1) m(2) by (rule connect_run.connect_cons)
      moreover have "l # ls = (l # ls1) @ K_timeout # ls2" by (simp add: m(1))
      ultimately show ?thesis unfolding shutdown_missed_def using m(3-6) by blast
    qed
    ultimately show ?thesis by blast
  next
    case False
    with connect_inv_step [OF connect_cons.hyps(1) connect_cons.prems] obtain u k where
      u: "x = (Cn_closing False, u)" "l = K_timeout" "qc_connection u = Some k"
        "y = (Cn_returned False, disconnect_finish u)" by auto
    then have acc: "accounted_client u" using connect_cons.prems(1) by (simp add: connect_inv_def)
    then have "client_held (disconnect_finish u) = [Obj_connection k]"
      using finish_held [OF accounted_inside [OF acc]] u(3) by (simp add: held_connection_def)
    moreover have "connect_run x [] (Cn_closing False, u)" by (simp add: u(1) connect_nil)
    moreover have "l # ls = [] @ K_timeout # ls" by (simp add: u(2))
    moreover have "client_balanced u (client_held u)" using acc by (simp add: accounted_client_def)
    ultimately have "shutdown_missed x (l # ls) z"
      unfolding shutdown_missed_def using u(3) connect_cons.hyps(2) [unfolded u(4)] by blast
    then show ?thesis ..
  qed
qed simp

definition idle_client :: "quic_client \<Rightarrow> bool" where
  "idle_client s \<longleftrightarrow> \<not> qc_connected s \<and> \<not> qc_api s \<and> qc_configuration s = None
     \<and> qc_registration s = None \<and> qc_connection s = None \<and> client_balanced s []"

lemma client_configuration_cases:
  assumes "accounted_client s" and "qc_configuration s = None" and "qc_connection s = None"
    and "client_open_configuration E s = (ok, s')"
  shows "accounted_client s'" and "qc_registration s' = qc_registration s" and "qc_connection s' = None"
    and "ok \<Longrightarrow> qc_configuration s' \<noteq> None"
  using assms
  by (auto simp: client_open_configuration_def accounted_client_def client_held_def held_connection_def balanced_def
      track_def track_call_def Let_def split: if_splits option.splits)

lemma connect_inv_start:
  assumes "idle_client s"
  shows "connect_inv (client_connect E host port s)"
proof (cases "cn_open E")
  case False
  with assms show ?thesis
    by (auto simp: client_connect_def idle_client_def connect_inv_def client_held_def held_connection_def Let_def)
next
  case opened: True
  let ?s1 = "s\<lparr>qc_host := host, qc_port := port, qc_connect_done := False, qc_connect_ok := False,
                qc_shutdown_complete := False\<rparr>"
  let ?s2 = "(client_call MsQuicOpen2 ?s1)\<lparr>qc_api := True\<rparr>"
  have b: "client_balanced s []" using assms by (simp add: idle_client_def)
  note held = client_held_def held_connection_def
  show ?thesis
  proof (cases "cn_registration E")
    case None
    have "accounted_client (?s2\<lparr>qc_registration := None\<rparr>)"
      using balanced_open [OF b, of MsQuicOpen2] assms
      by (simp add: accounted_client_def held idle_client_def)
    then have "connect_inv (disconnect False (?s2\<lparr>qc_registration := None\<rparr>))" by (rule disconnect_inv)
    with None opened assms show ?thesis by (simp add: client_connect_def idle_client_def Let_def)
  next
    case (Some r)
    let ?s3 = "(client_call (RegistrationOpen r) ?s2)\<lparr>qc_registration := Some r\<rparr>"
    have a3: "accounted_client ?s3" "qc_configuration ?s3 = None" "qc_connection ?s3 = None"
      using balanced_open [OF balanced_open [OF b, of MsQuicOpen2], of _ "RegistrationOpen r"] assms
      by (simp_all add: accounted_client_def held idle_client_def)
    obtain ok s4 where c: "client_open_configuration E ?s3 = (ok, s4)"
      by (cases "client_open_configuration E ?s3")
    note cc = client_configuration_cases [OF a3 c]
    have none: "accounted_client (s4\<lparr>qc_connection := None\<rparr>)"
      using cc(1,3) by (auto simp: accounted_client_def held)
    have conn: "accounted_client ((client_call (ConnectionOpen h) s4)\<lparr>qc_connection := Some h\<rparr>)" for h
      using cc(1,3) balanced_open [of any_object "client_calls s4" "client_held s4" "ConnectionOpen h"]
      by (auto simp: accounted_client_def held)
    have wait: "connect_inv (Cn_wait, client_call (ConnectionStart h)
        ((client_call (ConnectionOpen h) s4)\<lparr>qc_connection := Some h\<rparr>))" if ok for h
      using accounted_call [OF conn [of h], of "ConnectionStart h"] cc(2) cc(4) [OF that]
      by (simp add: connect_inv_def full_client_def)
    have "client_connect E host port s =
      (if \<not> ok then disconnect False s4
       else case cn_connection E of
              None \<Rightarrow> disconnect False (s4\<lparr>qc_connection := None\<rparr>)
            | Some h \<Rightarrow>
                if \<not> cn_connection_start E
                then disconnect False ((client_call (ConnectionOpen h) s4)\<lparr>qc_connection := Some h\<rparr>)
                else (Cn_wait, client_call (ConnectionStart h)
                       ((client_call (ConnectionOpen h) s4)\<lparr>qc_connection := Some h\<rparr>)))"
      using assms opened Some c
      by (cases "cn_connection E"; simp add: client_connect_def idle_client_def Let_def)
    then show ?thesis
      using disconnect_inv [OF cc(1)] disconnect_inv [OF none] disconnect_inv [OF conn] wait
      by (simp split: option.splits)
  qed
qed

section \<open>Properties\<close>

text \<open>
  C37: Connecting is all or nothing, except when the connection does not shut down in time. On every
  run of \<open>connect\<close> from an idle client, whatever calls fail and whatever events msquic reports for the
  connection, the handshake succeeding, failing or timing out: a result of true leaves the API,
  registration and configuration open, and the connection unless its end was reported, in which case
  it was closed; a result of false leaves nothing open, with everything that was opened, the
  connection included, closed once and innermost first. The exception is a call that gives up and
  whose wait of three seconds for SHUTDOWN_COMPLETE runs out: it releases everything around the
  connection and returns false with that connection still open and its handle kept.
\<close>

theorem connect_all_or_nothing:
  assumes "idle_client s0" and "connect_run (client_connect E host port s0) ls (Cn_returned b, s)"
    and "reported_by (qc_connection (snd (client_connect E host port s0))) ls"
  shows "(b \<longrightarrow> client_balanced s (client_held s)
      \<and> (\<exists>c r. client_held s = (case qc_connection s of None \<Rightarrow> [] | Some k \<Rightarrow> [Obj_connection k])
           @ [Obj_configuration c, Obj_registration r, Obj_api]))
    \<and> (\<not> b \<longrightarrow> client_held s = [] \<and> client_balanced s []
        \<or> (\<exists>ls1 ls2 u k. ls = ls1 @ K_timeout # ls2
             \<and> connect_run (client_connect E host port s0) ls1 (Cn_closing False, u)
             \<and> client_balanced u (client_held u) \<and> qc_connection u = Some k
             \<and> client_held (disconnect_finish u) = [Obj_connection k]
             \<and> connect_run (Cn_returned False, disconnect_finish u) ls2 (Cn_returned b, s)))"
proof -
  from connect_inv_run [OF assms(2) connect_inv_start [OF assms(1)] assms(3)]
  consider "connect_inv (Cn_returned b, s)" | "shutdown_missed (client_connect E host port s0) ls (Cn_returned b, s)" by blast
  then show ?thesis
  proof cases
    case 1
    then show ?thesis
      by (auto simp: connect_inv_def full_client_def accounted_client_def client_held_def held_connection_def split: if_splits)
  next
    case 2
    then have "\<not> b" using connect_returned_stays unfolding shutdown_missed_def by blast
    with 2 show ?thesis unfolding shutdown_missed_def by blast
  qed
qed

definition demo_connect :: connect_env where
  "demo_connect = \<lparr>cn_open = True, cn_registration = Some 1, cn_configuration = Some 2,
     cn_credential = True, cn_connection = Some 3, cn_connection_start = True\<rparr>"

lemma idle_new_client: "idle_client new_client"
  by (simp add: idle_client_def new_client_def io_init_def)

lemma demo_connect_wait: "fst (client_connect demo_connect ''h'' 4433 new_client) = Cn_wait"
  by (simp add: client_connect_def demo_connect_def new_client_def client_open_configuration_def
      client_call_def Let_def)

text \<open>The handshake fails and the connection shuts down.\<close>

lemma demo_connect_fails:
  "\<exists>s. connect_run (client_connect demo_connect ''h'' 4433 new_client)
     [K_timeout, K_connection 3 (C_shutdown_complete False), K_wake] (Cn_returned False, s)"
proof -
  let ?w = "snd (client_connect demo_connect ''h'' 4433 new_client)"
  have w: "client_connect demo_connect ''h'' 4433 new_client = (Cn_wait, ?w)"
    using demo_connect_wait by (metis prod.collapse)
  have f: "\<not> qc_connect_done ?w" "qc_connection ?w = Some 3" "qc_api ?w"
    by (simp_all add: client_connect_def demo_connect_def new_client_def client_open_configuration_def
        client_call_def Let_def)
  let ?c = "client_call (ConnectionShutdown 3) (?w\<lparr>qc_shutdown_complete := False\<rparr>)"
  have d: "disconnect False ?w = (Cn_closing False, ?c)" using f by (simp add: disconnect_def)
  have t: "connect_step (Cn_wait, ?w) K_timeout (Cn_closing False, ?c)"
    using connect_timeout [OF f(1)] unfolding d .
  have done_flag: "qc_shutdown_complete (client_on_connection_event 3 (C_shutdown_complete False) ?c)"
    by (simp add: client_on_connection_event_def Let_def)
  have "connect_run (Cn_wait, ?w)
     [K_timeout, K_connection 3 (C_shutdown_complete False), K_wake]
     (Cn_returned False, disconnect_finish (client_on_connection_event 3 (C_shutdown_complete False) ?c))"
    by (intro connect_cons [OF t] connect_cons [OF connect_callback]
        connect_cons [OF closing_done [OF done_flag]] connect_nil)
  then show ?thesis unfolding w [symmetric] by blast
qed

theorem connect_all_or_nothing_witness:
  "\<exists>s. connect_run (client_connect demo_connect ''h'' 4433 new_client)
     [K_timeout, K_connection 3 (C_shutdown_complete False), K_wake] (Cn_returned False, s)
     \<and> client_held s = [] \<and> client_balanced s []"
proof -
  let ?start = "client_connect demo_connect ''h'' 4433 new_client"
  let ?ls = "[K_timeout, K_connection 3 (C_shutdown_complete False), K_wake]"
  obtain s where s: "connect_run ?start ?ls (Cn_returned False, s)"
    using demo_connect_fails by blast
  have "qc_connection (snd ?start) = Some 3"
    by (simp add: client_connect_def demo_connect_def new_client_def client_open_configuration_def
        client_call_def Let_def)
  then have r: "reported_by (qc_connection (snd ?start)) ?ls" by simp
  have early: "\<not> connect_run ?start ls1 (Cn_closing False, u)" if "?ls = ls1 @ K_timeout # ls2" for ls1 ls2 u
  proof
    assume c: "connect_run ?start ls1 (Cn_closing False, u)"
    have "ls1 = []" using that by (auto simp: Cons_eq_append_conv)
    with c demo_connect_wait show False by (auto elim: connect_run.cases)
  qed
  from connect_all_or_nothing [OF idle_new_client s r] early s show ?thesis by blast
qed

text \<open>
  The exception exists. When all calls of \<open>connect\<close> succeed, nothing is reported within its ten seconds, and
  the shutdown is not reported within three more, \<open>connect\<close> returns false, has closed the configuration, the
  registration and the API, and still holds the handle of a connection that was opened and not closed.
\<close>

theorem shutdown_timeout_leaks:
  assumes "idle_client s0" and "cn_open E" "cn_registration E = Some r" "cn_configuration E = Some c" "cn_credential E"
    "cn_connection E = Some k" "cn_connection_start E"
  shows "\<exists>s. connect_run (client_connect E host port s0) [K_timeout, K_timeout] (Cn_returned False, s)
    \<and> client_held s = [Obj_connection k]
    \<and> client_calls s = client_calls s0 @ [MsQuicOpen2, RegistrationOpen r, ConfigurationOpen c,
        ConfigurationLoadCredential c, ConnectionOpen k, ConnectionStart k, ConnectionShutdown k,
        ConfigurationClose c, RegistrationClose r, MsQuicClose]"
proof -
  obtain w where w: "client_connect E host port s0 = (Cn_wait, w)" "\<not> qc_connect_done w" "qc_api w"
    "qc_connection w = Some k" "qc_configuration w = Some c" "qc_registration w = Some r"
    "client_calls w = client_calls s0 @ [MsQuicOpen2, RegistrationOpen r, ConfigurationOpen c,
        ConfigurationLoadCredential c, ConnectionOpen k, ConnectionStart k]"
    using assms by (simp add: client_connect_def client_open_configuration_def idle_client_def client_call_def io_call_def Let_def)
  let ?u = "client_call (ConnectionShutdown k) (w\<lparr>qc_shutdown_complete := False\<rparr>)"
  have i: "client_inside ?u" using w(3) by (simp add: client_inside_def)
  have "disconnect False w = (Cn_closing False, ?u)" using w by (simp add: disconnect_def)
  with connect_timeout [OF w(2)] have t: "connect_step (Cn_wait, w) K_timeout (Cn_closing False, ?u)" by simp
  have "connect_run (client_connect E host port s0) [K_timeout, K_timeout] (Cn_returned False, disconnect_finish ?u)"
    unfolding w(1) by (intro connect_cons [OF t] connect_cons [OF closing_timeout] connect_nil) simp
  moreover have "client_held (disconnect_finish ?u) = [Obj_connection k]"
    using finish_held [OF i] w(4) by (simp add: held_connection_def)
  ultimately show ?thesis using finish_log [OF i] w by (intro exI [of _ "disconnect_finish ?u"]) simp
qed

text \<open>
  Reconnecting leaks. A client that lost its connection still holds the other objects of its
  first \<open>connect\<close>. When \<open>connect\<close> is called again without \<open>disconnect\<close>, it overwrites the
  handles: after that connect, the end of its connection and a later release the client believes it
  holds nothing, but the first configuration, registration and API were never closed.
\<close>

theorem reconnect_leaks:
  assumes "\<not> qc_connected s" and "qc_api s" and "qc_connection s = None"
    and "qc_configuration s = Some c" and "qc_registration s = Some r"
    and "client_balanced s (client_held s)"
    and "cn_open E" "cn_registration E = Some r'" "cn_configuration E = Some c'" "cn_credential E"
      "cn_connection E = Some k" "cn_connection_start E"
    and "client_connect E host port s = (pc, t)"
    and "t' = client_on_connection_event k (C_shutdown_complete False) t"
  shows "pc = Cn_wait \<and> client_held (disconnect_finish t') = []
    \<and> client_balanced (disconnect_finish t') [Obj_configuration c, Obj_registration r, Obj_api]"
proof -
  have log: "client_calls t' = client_calls s @ [MsQuicOpen2, RegistrationOpen r', ConfigurationOpen c',
      ConfigurationLoadCredential c', ConnectionOpen k, ConnectionStart k, ConnectionClose k]"
    and t: "pc = Cn_wait" "qc_api t'" "qc_configuration t' = Some c'" "qc_registration t' = Some r'"
      "qc_connection t' = None"
    using assms(1,7-14)
    by (auto simp: client_connect_def client_open_configuration_def client_call_def io_call_def
        client_on_connection_event_def Let_def)
  have i: "client_inside t'" using t by (simp add: client_inside_def)
  have held: "client_held s = [Obj_configuration c, Obj_registration r, Obj_api]"
    using assms(2-5) by (simp add: client_held_def held_connection_def)
  have "client_balanced (disconnect_finish t') [Obj_configuration c, Obj_registration r, Obj_api]"
    using assms(6) t unfolding finish_log [OF i] log held
    by (simp add: balanced_def track_def track_call_def)
  then show ?thesis using t(1,5) finish_held [OF i] by (simp add: held_connection_def)
qed

theorem reconnect_leaks_witness:
  "let s = client_on_connection_event 3 (C_shutdown_complete False)
       (snd (client_connect demo_connect ''h'' 4433 new_client));
     t = snd (client_connect (demo_connect\<lparr>cn_registration := Some 11, cn_configuration := Some 12\<rparr>) ''h'' 4433 s);
     t' = client_on_connection_event 3 (C_shutdown_complete False) t
   in client_held (disconnect_finish t') = []
      \<and> client_balanced (disconnect_finish t') [Obj_configuration 2, Obj_registration 1, Obj_api]"
proof -
  let ?w = "snd (client_connect demo_connect ''h'' 4433 new_client)"
  let ?s = "client_on_connection_event 3 (C_shutdown_complete False) ?w"
  let ?E = "demo_connect\<lparr>cn_registration := Some 11, cn_configuration := Some 12\<rparr>"
  have "connect_inv (Cn_wait, ?w)"
    using connect_inv_start [OF idle_new_client, of demo_connect "''h''" 4433] demo_connect_wait
    by (metis prod.collapse)
  then have a: "accounted_client ?w" by (simp add: connect_inv_def full_client_def)
  have f: "\<not> qc_connected ?s" "qc_api ?s" "qc_connection ?s = None" "qc_configuration ?s = Some 2"
    "qc_registration ?s = Some 1" and w: "qc_connection ?w = Some 3"
    by (simp_all add: client_connect_def demo_connect_def new_client_def client_open_configuration_def
        client_call_def client_on_connection_event_def Let_def)
  have b: "client_balanced ?s (client_held ?s)"
    using connection_event_accounted(1) [OF a w, of "C_shutdown_complete False"] by (simp add: accounted_client_def)
  have e: "cn_open ?E" "cn_registration ?E = Some 11" "cn_configuration ?E = Some 12" "cn_credential ?E"
    "cn_connection ?E = Some 3" "cn_connection_start ?E" by (simp_all add: demo_connect_def)
  show ?thesis
    using reconnect_leaks [OF f b e surjective_pairing refl, of "''h''" 4433] by (simp add: Let_def)
qed

end
