(* ===== verification/Mdns.thy ===== *)
theory Mdns
  imports LFT_Prelude
begin

text \<open>
  LAN discovery, \<open>src/net/mdns.cpp\<close>. The DNS-SD library, the sockets and the clock are not
  under src/: what they deliver is an argument. A browse or a resolve pumps a socket until
  its deadline; its argument is the list of pumps, each with the time left before it, the
  replies it dispatches to the callback and its result, and the list ends where the
  deadline is reached. A null \<open>char*\<close> is \<open>None\<close>; comparing a \<open>std::string\<close> with it is
  undefined behaviour, which is the result \<open>None\<close> of \<open>on_browse\<close>.
\<close>

section \<open>Ports in network order\<close>

unbundle bit_operations_syntax

text \<open>\<open>htons\<close> and \<open>ntohs\<close> on a little-endian host.\<close>

definition htons :: "u16 \<Rightarrow> u16" where
  "htons p = (push_bit 8 p OR drop_bit 8 p)"

definition ntohs :: "u16 \<Rightarrow> u16" where
  "ntohs p = (push_bit 8 p OR drop_bit 8 p)"

section \<open>Browsing\<close>

record found_service =
  fs_name :: bytes
  fs_regtype :: bytes
  fs_domain :: bytes
  fs_interface_index :: u32

record browse_reply =
  br_no_error :: bool
  br_add :: bool
  br_interface :: u32
  br_name :: "bytes option"
  br_regtype :: "bytes option"
  br_domain :: "bytes option"

definition or_empty :: "bytes option \<Rightarrow> bytes" where
  "or_empty s = (case s of None \<Rightarrow> [] | Some t \<Rightarrow> t)"

definition on_browse :: "browse_reply \<Rightarrow> found_service list \<Rightarrow> found_service list option" where
  "on_browse r items =
     (if \<not> br_no_error r \<or> \<not> br_add r then Some items
      else
        case br_name r of
          None \<Rightarrow>
            if items \<noteq> [] then None
            else Some [\<lparr>fs_name = [], fs_regtype = or_empty (br_regtype r),
                        fs_domain = or_empty (br_domain r), fs_interface_index = br_interface r\<rparr>]
        | Some name \<Rightarrow>
            if list_ex (\<lambda>existing. fs_name existing = name) items then Some items
            else Some (items @ [\<lparr>fs_name = name, fs_regtype = or_empty (br_regtype r),
                         fs_domain = or_empty (br_domain r), fs_interface_index = br_interface r\<rparr>]))"

record 'r pump_result =
  pu_time_left :: bool
  pu_replies :: "'r list"
  pu_ok :: bool

fun dispatch :: "browse_reply list \<Rightarrow> found_service list \<Rightarrow> found_service list option" where
  "dispatch [] items = Some items"
| "dispatch (r # rs) items =
     (case on_browse r items of None \<Rightarrow> None | Some items' \<Rightarrow> dispatch rs items')"

text \<open>The loop of \<open>browse\<close>.\<close>

fun browse_loop :: "browse_reply pump_result list \<Rightarrow> found_service list \<Rightarrow> found_service list option" where
  "browse_loop [] items = Some items"
| "browse_loop (p # ps) items =
     (if \<not> pu_time_left p then Some items
      else
        case dispatch (pu_replies p) items of
          None \<Rightarrow> None
        | Some items' \<Rightarrow> if \<not> pu_ok p then Some items' else browse_loop ps items')"

text \<open>The loop of \<open>find_by_name\<close>: the match, and the pumps it did not need.\<close>

fun find_loop ::
  "bytes \<Rightarrow> browse_reply pump_result list \<Rightarrow> found_service list \<Rightarrow> found_service option option" where
  "find_loop name [] items = Some None"
| "find_loop name (p # ps) items =
     (if \<not> pu_time_left p then Some None
      else
        case dispatch (pu_replies p) items of
          None \<Rightarrow> None
        | Some items' \<Rightarrow>
            if \<not> pu_ok p then Some None
            else
              (case find (\<lambda>service. fs_name service = name) items' of
                 Some service \<Rightarrow> Some (Some service)
               | None \<Rightarrow> find_loop name ps items'))"

section \<open>Resolving\<close>

record resolve_reply =
  re_no_error :: bool
  re_host_target :: "bytes option"
  re_port_net :: u16

record resolve_context =
  rc_done :: bool
  rc_host_target :: bytes
  rc_port :: u16

definition on_resolve :: "resolve_reply \<Rightarrow> resolve_context \<Rightarrow> resolve_context" where
  "on_resolve r ctx =
     (if \<not> re_no_error r then ctx\<lparr>rc_done := True\<rparr>
      else ctx\<lparr>rc_host_target := or_empty (re_host_target r), rc_port := ntohs (re_port_net r),
               rc_done := True\<rparr>)"

fun resolve_loop :: "resolve_reply pump_result list \<Rightarrow> resolve_context \<Rightarrow> resolve_context" where
  "resolve_loop [] ctx = ctx"
| "resolve_loop (p # ps) ctx =
     (if rc_done ctx then ctx
      else if \<not> pu_time_left p then ctx
      else let ctx' = fold on_resolve (pu_replies p) ctx
           in if \<not> pu_ok p then ctx' else resolve_loop ps ctx')"

text \<open>\<open>getaddrinfo\<close>: the addresses of a host, each with its family and its text form.\<close>

record address =
  ad_inet :: bool
  ad_text :: "bytes option"

definition resolve_hostname_ipv4 :: "address list option \<Rightarrow> bytes option" where
  "resolve_hostname_ipv4 result =
     (case result of
        None \<Rightarrow> None
      | Some ads \<Rightarrow>
          Option.bind (find (\<lambda>a. ad_inet a \<and> ad_text a \<noteq> None) ads) ad_text)"

record peer_info =
  pe_name :: bytes
  pe_host :: bytes
  pe_port :: u16

text \<open>What the outside answers to a resolve: did it start, the pumps, and the addresses.\<close>

record resolve_env =
  rv_started :: bool
  rv_pumps :: "resolve_reply pump_result list"

definition resolve_service ::
  "(found_service \<Rightarrow> resolve_env) \<Rightarrow> (bytes \<Rightarrow> address list option) \<Rightarrow> found_service \<Rightarrow> peer_info option" where
  "resolve_service resolver addrs service =
     (if \<not> rv_started (resolver service) then None
      else
        let ctx = resolve_loop (rv_pumps (resolver service))
                    \<lparr>rc_done = False, rc_host_target = [], rc_port = 0\<rparr>
        in if \<not> rc_done ctx \<or> rc_host_target ctx = [] then None
           else case resolve_hostname_ipv4 (addrs (rc_host_target ctx)) of
                  None \<Rightarrow> None
                | Some ip \<Rightarrow> Some \<lparr>pe_name = fs_name service, pe_host = ip, pe_port = rc_port ctx\<rparr>)"

section \<open>The browser\<close>

definition browse ::
  "(found_service \<Rightarrow> resolve_env) \<Rightarrow> (bytes \<Rightarrow> address list option) \<Rightarrow> bool \<Rightarrow>
   browse_reply pump_result list \<Rightarrow> peer_info list option" where
  "browse resolver addrs started pumps =
     (if \<not> started then Some []
      else map_option (List.map_filter (resolve_service resolver addrs)) (browse_loop pumps []))"

definition find_by_name ::
  "(found_service \<Rightarrow> resolve_env) \<Rightarrow> (bytes \<Rightarrow> address list option) \<Rightarrow> bool \<Rightarrow>
   browse_reply pump_result list \<Rightarrow> bytes \<Rightarrow> peer_info option option" where
  "find_by_name resolver addrs started pumps name =
     (if \<not> started then Some None
      else
        case find_loop name pumps [] of
          None \<Rightarrow> None
        | Some None \<Rightarrow> Some None
        | Some (Some service) \<Rightarrow> Some (resolve_service resolver addrs service))"

section \<open>The advertiser\<close>

datatype dns_call = Register "bytes option" u16 nat | Deallocate nat | Join

record advertiser =
  av_ref :: "nat option"
  av_thread :: bool
  av_running :: bool
  av_calls :: "dns_call list"

definition new_advertiser :: advertiser where
  "new_advertiser = \<lparr>av_ref = None, av_thread = False, av_running = False, av_calls = []\<rparr>"

text \<open>\<open>registered\<close> is the reference \<open>DNSServiceRegister\<close> gives, if it succeeds.\<close>

definition advertiser_start :: "nat option \<Rightarrow> bytes \<Rightarrow> u16 \<Rightarrow> advertiser \<Rightarrow> bool \<times> advertiser" where
  "advertiser_start registered service_name port a =
     (if av_running a then (False, a)
      else
        case registered of
          None \<Rightarrow> (False, a\<lparr>av_ref := None\<rparr>)
        | Some r \<Rightarrow>
            (True, a\<lparr>av_ref := Some r, av_running := True, av_thread := True,
                     av_calls := av_calls a
                       @ [Register (if service_name = [] then None else Some service_name) (htons port) r]\<rparr>))"

text \<open>The thread: results processed until it is told to stop, has no socket or fails. Each
  tick is whether it still runs, whether the socket is ready, and the result.\<close>

fun advertiser_run :: "bool \<Rightarrow> (bool \<times> bool \<times> bool) list \<Rightarrow> nat" where
  "advertiser_run fd_ok [] = 0"
| "advertiser_run fd_ok ((running, ready, processed) # ts) =
     (if \<not> running then 0
      else if \<not> fd_ok then 0
      else if ready then (if \<not> processed then 1 else Suc (advertiser_run fd_ok ts))
      else advertiser_run fd_ok ts)"

definition advertiser_stop :: "advertiser \<Rightarrow> advertiser" where
  "advertiser_stop a =
     (let a1 = a\<lparr>av_running := False\<rparr>;
          a2 = (if av_thread a1 then a1\<lparr>av_thread := False, av_calls := av_calls a1 @ [Join]\<rparr> else a1)
      in case av_ref a2 of
           None \<Rightarrow> a2
         | Some r \<Rightarrow> a2\<lparr>av_ref := None, av_calls := av_calls a2 @ [Deallocate r]\<rparr>)"

section \<open>Lemmas\<close>

lemma ntohs_htons: "ntohs (htons p) = p"
  by (rule bit_word_eqI) (auto simp: htons_def ntohs_def bit_simps dest: bit_imp_le_length)

definition added_names :: "browse_reply list \<Rightarrow> bytes option list" where
  "added_names rs = map br_name (filter (\<lambda>r. br_no_error r \<and> br_add r) rs)"

text \<open>The replies dispatched before the loop of \<open>browse\<close> ends.\<close>

fun pumped :: "'r pump_result list \<Rightarrow> 'r list" where
  "pumped [] = []"
| "pumped (p # ps) = (if \<not> pu_time_left p then []
     else if \<not> pu_ok p then pu_replies p else pu_replies p @ pumped ps)"

lemma added_names_append [simp]: "added_names (xs @ ys) = added_names xs @ added_names ys"
  by (simp add: added_names_def)

definition names_of :: "found_service list \<Rightarrow> bytes set" where
  "names_of items = fs_name ` set items"

lemma on_browse_named:
  assumes "None \<notin> set (added_names [r])"
  shows "\<exists>items'. on_browse r items = Some items'
    \<and> Some ` names_of items' = Some ` names_of items \<union> set (added_names [r])
    \<and> (distinct (map fs_name items) \<longrightarrow> distinct (map fs_name items'))"
proof (cases "br_no_error r \<and> br_add r")
  case False
  then show ?thesis by (auto simp: on_browse_def added_names_def)
next
  case True
  then obtain n where n: "br_name r = Some n"
    using assms by (cases "br_name r") (auto simp: added_names_def)
  show ?thesis
  proof (cases "list_ex (\<lambda>e. fs_name e = n) items")
    case found: True
    then have "n \<in> names_of items" by (auto simp: names_of_def list_ex_iff)
    with True n found show ?thesis by (auto simp: on_browse_def added_names_def)
  next
    case False
    then have "n \<notin> fs_name ` set items" by (auto simp: list_ex_iff)
    with True n False show ?thesis by (auto simp: on_browse_def added_names_def names_of_def)
  qed
qed

lemma dispatch_named:
  "None \<notin> set (added_names rs) \<Longrightarrow>
   \<exists>items'. dispatch rs items = Some items'
     \<and> Some ` names_of items' = Some ` names_of items \<union> set (added_names rs)
     \<and> (distinct (map fs_name items) \<longrightarrow> distinct (map fs_name items'))"
proof (induction rs arbitrary: items)
  case Nil
  then show ?case by (simp add: added_names_def)
next
  case (Cons r rs)
  have split: "added_names (r # rs) = added_names [r] @ added_names rs"
    using added_names_append [of "[r]" rs] by simp
  then have n: "None \<notin> set (added_names [r])" "None \<notin> set (added_names rs)"
    using Cons.prems by auto
  obtain a where a: "on_browse r items = Some a"
    "Some ` names_of a = Some ` names_of items \<union> set (added_names [r])"
    "distinct (map fs_name items) \<longrightarrow> distinct (map fs_name a)"
    using on_browse_named [OF n(1)] by blast
  obtain b where b: "dispatch rs a = Some b" "Some ` names_of b = Some ` names_of a \<union> set (added_names rs)"
    "distinct (map fs_name a) \<longrightarrow> distinct (map fs_name b)"
    using Cons.IH [OF n(2), of a] by blast
  show ?case using a b by (auto simp: split)
qed

lemma browse_loop_named:
  "None \<notin> set (added_names (pumped ps)) \<Longrightarrow>
   \<exists>items'. browse_loop ps items = Some items'
     \<and> Some ` names_of items' = Some ` names_of items \<union> set (added_names (pumped ps))
     \<and> (distinct (map fs_name items) \<longrightarrow> distinct (map fs_name items'))"
proof (induction ps arbitrary: items)
  case Nil
  then show ?case by (simp add: added_names_def)
next
  case (Cons p ps)
  show ?case
  proof (cases "pu_time_left p")
    case False
    then show ?thesis by (simp add: added_names_def)
  next
    case left: True
    then have "None \<notin> set (added_names (pu_replies p))" using Cons.prems by (simp split: if_splits)
    from dispatch_named [OF this, of items] obtain a where a: "dispatch (pu_replies p) items = Some a"
      "Some ` names_of a = Some ` names_of items \<union> set (added_names (pu_replies p))"
      "distinct (map fs_name items) \<longrightarrow> distinct (map fs_name a)" by blast
    show ?thesis
    proof (cases "pu_ok p")
      case False
      with left a show ?thesis by simp
    next
      case True
      then have "None \<notin> set (added_names (pumped ps))" using Cons.prems left by simp
      from Cons.IH [OF this, of a] a left True show ?thesis by auto
    qed
  qed
qed

lemma find_loop_complete:
  "\<forall>p \<in> set ps. pu_time_left p \<and> pu_ok p \<Longrightarrow> None \<notin> set (added_names (pumped ps)) \<Longrightarrow>
   name \<notin> names_of items \<Longrightarrow>
   (if Some name \<in> set (added_names (pumped ps))
    then \<exists>service. find_loop name ps items = Some (Some service) \<and> fs_name service = name
    else find_loop name ps items = Some None)"
proof (induction ps arbitrary: items)
  case Nil
  then show ?case by (simp add: added_names_def)
next
  case (Cons p ps)
  have p: "pu_time_left p" "pu_ok p" using Cons.prems(1) by auto
  have n: "None \<notin> set (added_names (pu_replies p))" "None \<notin> set (added_names (pumped ps))"
    using Cons.prems(2) p by auto
  obtain a where a: "dispatch (pu_replies p) items = Some a"
    "Some ` names_of a = Some ` names_of items \<union> set (added_names (pu_replies p))"
    using dispatch_named [OF n(1), of items] by blast
  show ?case
  proof (cases "name \<in> names_of a")
    case True
    then have "Some name \<in> set (added_names (pu_replies p))" using a(2) Cons.prems(3) by blast
    moreover obtain service where "find (\<lambda>s. fs_name s = name) a = Some service"
      using True by (cases "find (\<lambda>s. fs_name s = name) a") (auto simp: names_of_def find_None_iff)
    moreover from this have "fs_name service = name" by (auto simp: find_Some_iff)
    ultimately show ?thesis using p a(1) by simp
  next
    case False
    then have "Some name \<notin> set (added_names (pu_replies p))" using a(2) by blast
    moreover have "find (\<lambda>s. fs_name s = name) a = None"
      using False by (auto simp: names_of_def find_None_iff)
    ultimately show ?thesis using Cons.IH [OF _ n(2) False] Cons.prems(1) p a(1) by auto
  qed
qed

section \<open>Properties\<close>

text \<open>
  Browsing records every receiver once. When all announced names are non-null, the
  services recorded until the deadline have distinct names, and these are exactly the
  names of the additions reported in time: repeated announcements on several interfaces,
  removals and errors add nothing.
\<close>

theorem browse_records_each_name_once:
  assumes "None \<notin> set (added_names (pumped ps))"
  shows "\<exists>items. browse_loop ps [] = Some items \<and> distinct (map fs_name items)
    \<and> Some ` set (map fs_name items) = set (added_names (pumped ps))"
  using browse_loop_named [OF assms, of "[]"] by (auto simp: names_of_def)

definition demo_reply :: "bytes \<Rightarrow> u32 \<Rightarrow> browse_reply" where
  "demo_reply n i = \<lparr>br_no_error = True, br_add = True, br_interface = i, br_name = Some n,
     br_regtype = Some ''_lft._udp'', br_domain = Some ''local.''\<rparr>"

definition demo_pumps :: "browse_reply pump_result list" where
  "demo_pumps = [\<lparr>pu_time_left = True, pu_replies = [demo_reply ''mac'' 1, demo_reply ''mac'' 2], pu_ok = True\<rparr>,
     \<lparr>pu_time_left = True, pu_replies = [demo_reply ''pc'' 1], pu_ok = True\<rparr>]"

theorem browse_records_each_name_once_witness:
  "\<exists>items. browse_loop demo_pumps [] = Some items \<and> length items = 2
     \<and> Some ` set (map fs_name items) = {Some ''mac'', Some ''pc''}"
proof -
  have n: "added_names (pumped demo_pumps) = [Some ''mac'', Some ''mac'', Some ''pc'']" by code_simp
  then have "None \<notin> set (added_names (pumped demo_pumps))" by simp
  from browse_records_each_name_once [OF this] obtain items where
    i: "browse_loop demo_pumps [] = Some items" "distinct (map fs_name items)"
      "Some ` set (map fs_name items) = {Some ''mac'', Some ''pc''}" by (auto simp: n)
  have "card (set (map fs_name items)) = card (Some ` set (map fs_name items))"
    by (rule card_image [symmetric]) simp
  also have "\<dots> = 2" unfolding i(3) by simp
  finally have "length items = 2" using distinct_card [OF i(2)] by simp
  with i show ?thesis by blast
qed

text \<open>
  Finding a device by name. While pumps succeed before the deadline, the device is
  found exactly when its name is announced, whatever else is; then exactly that service is
  resolved, and the result, if any, carries the name asked for.
\<close>

theorem find_by_name_finds:
  assumes "\<forall>p \<in> set ps. pu_time_left p \<and> pu_ok p" and "None \<notin> set (added_names (pumped ps))"
  shows "if Some name \<in> set (added_names (pumped ps))
    then \<exists>service. fs_name service = name
           \<and> find_by_name resolver addrs True ps name = Some (resolve_service resolver addrs service)
           \<and> (\<forall>peer. resolve_service resolver addrs service = Some peer \<longrightarrow> pe_name peer = name)
    else find_by_name resolver addrs True ps name = Some None"
proof -
  have r: "pe_name peer = fs_name service"
    if "resolve_service resolver addrs service = Some peer" for service peer
    using that by (auto simp: resolve_service_def Let_def split: if_splits option.splits)
  show ?thesis
    using find_loop_complete [OF assms, of name "[]"] r
    by (auto simp: find_by_name_def names_of_def split: if_splits)
qed

theorem find_by_name_finds_witness:
  "\<exists>service. fs_name service = ''pc''
     \<and> find_by_name (\<lambda>_. \<lparr>rv_started = False, rv_pumps = []\<rparr>) (\<lambda>_. None) True demo_pumps ''pc''
        = Some (resolve_service (\<lambda>_. \<lparr>rv_started = False, rv_pumps = []\<rparr>) (\<lambda>_. None) service)"
proof -
  have n: "added_names (pumped demo_pumps) = [Some ''mac'', Some ''mac'', Some ''pc'']" by code_simp
  have a: "\<forall>p \<in> set demo_pumps. pu_time_left p \<and> pu_ok p" by (simp add: demo_pumps_def)
  have b: "None \<notin> set (added_names (pumped demo_pumps))" by (simp add: n)
  have "Some ''pc'' \<in> set (added_names (pumped demo_pumps))" by (simp add: n)
  then show ?thesis
    using find_by_name_finds [OF a b, of "''pc''" "\<lambda>_. \<lparr>rv_started = False, rv_pumps = []\<rparr>" "\<lambda>_. None"]
    by auto
qed

text \<open>
  The advertised port is the port found. When a receiver registers a port and the
  responder hands that registration to a sender, the resolved peer has the host's first
  IPv4 address and exactly that port, in spite of the two conversions of byte order.
\<close>

theorem advertised_port_found:
  assumes "advertiser_start (Some ref) service_name port new_advertiser = (True, a)"
    and "av_calls a = [Register shown net ref']"
    and "resolver service = \<lparr>rv_started = True,
          rv_pumps = [\<lparr>pu_time_left = True,
             pu_replies = [\<lparr>re_no_error = True, re_host_target = Some target, re_port_net = net\<rparr>],
             pu_ok = True\<rparr>]\<rparr>"
    and "target \<noteq> []"
    and "addrs target = Some (\<lparr>ad_inet = True, ad_text = Some ip\<rparr> # others)"
  shows "resolve_service resolver addrs service
    = Some \<lparr>pe_name = fs_name service, pe_host = ip, pe_port = port\<rparr>"
proof -
  have "net = htons port"
    using assms(1,2) by (auto simp: advertiser_start_def new_advertiser_def)
  with assms(3-5) show ?thesis
    by (simp add: resolve_service_def on_resolve_def resolve_hostname_ipv4_def or_empty_def ntohs_htons)
qed

theorem advertised_port_found_witness:
  "resolve_service
     (\<lambda>_. \<lparr>rv_started = True, rv_pumps = [\<lparr>pu_time_left = True,
        pu_replies = [\<lparr>re_no_error = True, re_host_target = Some ''pc.local.'', re_port_net = htons 53317\<rparr>],
        pu_ok = True\<rparr>]\<rparr>)
     (\<lambda>_. Some [\<lparr>ad_inet = True, ad_text = Some ''10.0.0.2''\<rparr>])
     \<lparr>fs_name = ''pc'', fs_regtype = ''_lft._udp'', fs_domain = ''local.'', fs_interface_index = 1\<rparr>
   = Some \<lparr>pe_name = ''pc'', pe_host = ''10.0.0.2'', pe_port = 53317\<rparr>"
  using advertised_port_found [of 7 "''pc''" 53317
      "snd (advertiser_start (Some 7) ''pc'' 53317 new_advertiser)" "Some ''pc''" "htons 53317" 7
      "\<lambda>_. \<lparr>rv_started = True, rv_pumps = [\<lparr>pu_time_left = True,
        pu_replies = [\<lparr>re_no_error = True, re_host_target = Some ''pc.local.'', re_port_net = htons 53317\<rparr>],
        pu_ok = True\<rparr>]\<rparr>"
      "\<lparr>fs_name = ''pc'', fs_regtype = ''_lft._udp'', fs_domain = ''local.'', fs_interface_index = 1\<rparr>"
      "''pc.local.''" "\<lambda>_. Some [\<lparr>ad_inet = True, ad_text = Some ''10.0.0.2''\<rparr>]" "''10.0.0.2''" "[]"]
  by (simp add: advertiser_start_def new_advertiser_def)

end
