(* ===== verification/Format_Bytes.thy ===== *)
theory Format_Bytes
  imports Cxx_Text
begin

text \<open>
  \<open>src/common/format.cpp\<close>: a byte count for people. The C++ code computes with \<open>double\<close>;
  the model is exact about it: the conversion from \<open>uint64_t\<close> rounds to 53 bits, half to
  even, a division by 1024 changes only the exponent, and printing with one decimal rounds
  the binary value, half to even. A \<open>double\<close> is a numerator over a power of 1024.
\<close>

section \<open>Rounding\<close>

definition round_half_even :: "nat \<Rightarrow> nat \<Rightarrow> nat" where
  "round_half_even a b =
     (let q = a div b; r = a mod b
      in if 2 * r < b \<or> 2 * r = b \<and> even q then q else Suc q)"

text \<open>The number of bits of \<open>n\<close> beyond 53.\<close>

fun excess_bits :: "nat \<Rightarrow> nat" where
  "excess_bits n = (if n < 9007199254740992 then 0 else Suc (excess_bits (n div 2)))"

declare excess_bits.simps [simp del]

definition double_of_u64 :: "u64 \<Rightarrow> nat" where
  "double_of_u64 n = (let e = 2 ^ excess_bits (unat n) in round_half_even (unat n) e * e)"

section \<open>Printing\<close>

definition units :: "bytes list" where
  "units = [''KB'', ''MB'', ''GB'', ''TB'']"

text \<open>The loop: \<open>value / 1024 ^ (unit + 1)\<close> with \<open>unit\<close> starting at -1; \<open>den\<close> is the power
  and \<open>k\<close> counts the divisions.\<close>

function scale_loop :: "nat \<Rightarrow> nat \<Rightarrow> nat \<Rightarrow> nat \<times> nat" where
  "scale_loop v den k =
     (if v \<ge> 1024 * den \<and> k < 4 then scale_loop v (den * 1024) (Suc k) else (den, k))"
  by pat_completeness auto
termination
  by (relation "measure (\<lambda>(v, den, k). 4 - k)") auto

declare scale_loop.simps [simp del]

definition format_bytes :: "u64 \<Rightarrow> bytes" where
  "format_bytes n =
     (if n < 1024 then nat_to_dec (unat n) @ '' B''
      else
        case scale_loop (double_of_u64 n) 1 0 of
          (den, k) \<Rightarrow>
            let tenths = round_half_even (10 * double_of_u64 n) den
            in nat_to_dec (tenths div 10) @ ''.'' @ nat_to_dec (tenths mod 10) @ '' '' @ units ! (k - 1))"

section \<open>Lemmas\<close>

lemma round_half_even_near:
  assumes "0 < b"
  shows "2 * a \<le> 2 * b * round_half_even a b + b" and "2 * b * round_half_even a b \<le> 2 * a + b"
proof -
  define q r where "q = a div b" and "r = a mod b"
  have "a = b * q + r" by (simp add: q_def r_def)
  then have a: "2 * a = 2 * b * q + 2 * r" by simp
  have m: "r < b" using assms by (simp add: r_def)
  have e: "round_half_even a b = (if 2 * r < b \<or> 2 * r = b \<and> even q then q else Suc q)"
    by (simp add: round_half_even_def q_def r_def Let_def)
  have s: "2 * b * Suc q = 2 * b * q + 2 * b" by simp
  show "2 * a \<le> 2 * b * round_half_even a b + b"
    using m unfolding e a by (auto simp: s simp del: mult_Suc_right)
  show "2 * b * round_half_even a b \<le> 2 * a + b"
    using m unfolding e a by (auto simp: s simp del: mult_Suc_right)
qed

lemma round_exact: "round_half_even n (Suc 0) = n"
  by (simp add: round_half_even_def)

lemma double_exact: "unat n < 9007199254740992 \<Longrightarrow> double_of_u64 n = unat n"
  by (simp add: double_of_u64_def excess_bits.simps round_exact)

text \<open>At most eleven bits of a 64-bit number are lost, so the conversion is off by at most 1024.\<close>

lemma excess_bits_bound: "n < 9007199254740992 * 2 ^ k \<Longrightarrow> excess_bits n \<le> k"
proof (induction k arbitrary: n)
  case (Suc k)
  show ?case
  proof (cases "n < 9007199254740992")
    case False
    have "n div 2 < 9007199254740992 * 2 ^ k" using Suc.prems by simp
    from Suc.IH [OF this] False show ?thesis by (subst excess_bits.simps) simp
  qed (simp add: excess_bits.simps)
qed (simp add: excess_bits.simps)

definition double_error :: "nat \<Rightarrow> nat" where
  "double_error n = (if n < 2 ^ 53 then 0 else 1024)"

lemma double_near:
  "unat n \<le> double_of_u64 n + double_error (unat n)" "double_of_u64 n \<le> unat n + double_error (unat n)"
proof -
  define e :: nat where "e = 2 ^ excess_bits (unat n)"
  have d: "double_of_u64 n = round_half_even (unat n) e * e" by (simp add: double_of_u64_def e_def Let_def)
  have "unat n < 9007199254740992 * 2 ^ 11" using unat_u64_bound [of n] by simp
  then have "excess_bits (unat n) \<le> 11" by (rule excess_bits_bound)
  then have e: "0 < e" "e \<le> 2 ^ 11" unfolding e_def by (simp, intro power_increasing) simp_all
  note near = round_half_even_near [OF e(1), of "unat n"]
  have eq: "2 * e * round_half_even (unat n) e = 2 * double_of_u64 n" by (simp add: d)
  have small: "unat n < 2 ^ 53 \<Longrightarrow> double_of_u64 n = unat n" by (intro double_exact) simp
  show "unat n \<le> double_of_u64 n + double_error (unat n)" "double_of_u64 n \<le> unat n + double_error (unat n)"
    using near e(2) small unfolding eq double_error_def by auto
qed

lemma scale_loop_result:
  "k \<le> 4 \<Longrightarrow> den = 1024 ^ k \<Longrightarrow> scale_loop v den k = (d, j) \<Longrightarrow>
   d = 1024 ^ j \<and> k \<le> j \<and> j \<le> 4 \<and> (j < 4 \<longrightarrow> v < 1024 * d) \<and> (k < j \<longrightarrow> d \<le> v)"
proof (induction v den k rule: scale_loop.induct)
  case (1 v den k)
  show ?case
  proof (cases "v \<ge> 1024 * den \<and> k < 4")
    case True
    then have "scale_loop v (den * 1024) (Suc k) = (d, j)"
      using "1.prems"(3) by (subst (asm) scale_loop.simps) simp
    moreover have "Suc k \<le> 4" "den * 1024 = 1024 ^ Suc k" using True "1.prems"(2) by simp_all
    ultimately
    have ih: "d = 1024 ^ j \<and> Suc k \<le> j \<and> j \<le> 4 \<and> (j < 4 \<longrightarrow> v < 1024 * d) \<and> (Suc k < j \<longrightarrow> d \<le> v)"
      by (intro "1.IH" [OF True])
    then show ?thesis
      using "1.prems"(2) True by (cases "j = Suc k") auto
  next
    case False
    then have "den = d \<and> k = j" using "1.prems"(3) by (subst (asm) scale_loop.simps) auto
    with False "1.prems" show ?thesis by auto
  qed
qed

section \<open>Properties\<close>

text \<open>
  C40: The printed size is the size, for every 64-bit size. Below 1024 the number is exact. Above,
  the text is a number of tenths of the largest of KB, MB, GB and TB that is not larger than the
  size, and it differs from the size by at most half a tenth of that unit; from 2^53 on, where a
  \<open>double\<close> no longer holds every integer, by at most 1024 bytes more. That much is needed:
  18015223143202815 bytes are printed as 16384.8 TB although 16384.7 is nearer.
\<close>

theorem format_bytes_accurate:
  "(n < 1024 \<longrightarrow> format_bytes n = nat_to_dec (unat n) @ '' B'')
    \<and> (\<not> n < 1024 \<longrightarrow> (\<exists>k tenths. 1 \<le> k \<and> k \<le> 4
        \<and> format_bytes n = nat_to_dec (tenths div 10) @ ''.'' @ nat_to_dec (tenths mod 10)
             @ '' '' @ [''KB'', ''MB'', ''GB'', ''TB''] ! (k - 1)
        \<and> 1024 ^ k \<le> unat n \<and> (k < 4 \<longrightarrow> unat n < 1024 ^ (k + 1))
        \<and> 2 * (10 * unat n) \<le> 2 * 1024 ^ k * tenths + 1024 ^ k + 20 * double_error (unat n)
        \<and> 2 * 1024 ^ k * tenths \<le> 2 * (10 * unat n) + 1024 ^ k + 20 * double_error (unat n)))"
proof (cases "n < 1024")
  case True
  then show ?thesis by (simp add: format_bytes_def)
next
  case False
  then have big: "1024 \<le> unat n" by (simp add: word_less_nat_alt)
  let ?v = "double_of_u64 n"
  note near = double_near [of n]
  have v: "?v = unat n \<or> 2 ^ 53 \<le> unat n \<and> 2 ^ 52 \<le> ?v" using near by (auto simp: double_error_def split: if_splits)
  obtain d k where l: "scale_loop ?v 1 0 = (d, k)" by (cases "scale_loop ?v 1 0")
  have s: "d = 1024 ^ k" "k \<le> 4" "k < 4 \<longrightarrow> ?v < 1024 * d" "0 < k \<longrightarrow> d \<le> ?v"
    using scale_loop_result [of 0 1 ?v d k] l by auto
  have k: "1 \<le> k" using s big v by (cases k) auto
  have top: "k = 4" if "2 ^ 52 \<le> ?v"
  proof (rule ccontr)
    assume "k \<noteq> 4"
    then have "k \<le> 3" "?v < 1024 ^ Suc k" using s by simp_all
    then have "?v < 1024 ^ 4" using power_increasing [of "Suc k" 4 "1024 :: nat"] by simp
    with that show False by simp
  qed
  have unit: "1024 ^ k \<le> unat n" "k < 4 \<longrightarrow> unat n < 1024 ^ (k + 1)"
    using v top s k by auto
  define tenths where "tenths = round_half_even (10 * ?v) d"
  have "0 < d" by (simp add: s(1))
  note round = round_half_even_near [OF this, of "10 * ?v", folded tenths_def]
  have "format_bytes n = nat_to_dec (tenths div 10) @ ''.'' @ nat_to_dec (tenths mod 10)
      @ '' '' @ [''KB'', ''MB'', ''GB'', ''TB''] ! (k - 1)"
    using False l by (simp add: format_bytes_def tenths_def units_def Let_def)
  moreover have "2 * (10 * unat n) \<le> 2 * 1024 ^ k * tenths + 1024 ^ k + 20 * double_error (unat n)"
    "2 * 1024 ^ k * tenths \<le> 2 * (10 * unat n) + 1024 ^ k + 20 * double_error (unat n)"
    using round near s(1) by simp_all
  ultimately show ?thesis using False k s(2) unit by blast
qed

theorem format_bytes_accurate_witness:
  "format_bytes 1536 = ''1.5 KB'' \<and> format_bytes 1048575 = ''1024.0 KB''
   \<and> format_bytes 18015223143202815 = ''16384.8 TB''
   \<and> (\<exists>k tenths. 1 \<le> k \<and> k \<le> (4::nat) \<and> 1024 ^ k \<le> unat (1048575 :: u64)
        \<and> 2 * 1024 ^ k * tenths \<le> 2 * (10 * unat (1048575 :: u64)) + 1024 ^ k)"
proof -
  have n: "\<not> (1048575 :: u64) < 1024" by simp
  have e: "double_error (unat (1048575 :: u64)) = 0" by (simp add: double_error_def)
  have big: "double_of_u64 18015223143202815 = 18015223143202816"
    by (simp add: double_of_u64_def excess_bits.simps round_half_even_def Let_def)
  have "format_bytes 1536 = nat_to_dec 1 @ ''.'' @ nat_to_dec 5 @ '' '' @ ''KB''"
    "format_bytes 1048575 = nat_to_dec 1024 @ ''.'' @ nat_to_dec 0 @ '' '' @ ''KB''"
    "format_bytes 18015223143202815 = nat_to_dec 16384 @ ''.'' @ nat_to_dec 8 @ '' '' @ ''TB''"
    by (simp_all add: format_bytes_def big double_exact scale_loop.simps round_half_even_def units_def Let_def)
  moreover have "nat_to_dec 1 = ''1''" "nat_to_dec 5 = ''5''" "nat_to_dec 1024 = ''1024''" "nat_to_dec 0 = ''0''"
    "nat_to_dec 16384 = ''16384''" "nat_to_dec 8 = ''8''"
    by (simp_all add: nat_to_dec.simps char_of_def bit_numeral_rec bit_0)
  ultimately have f: "format_bytes 1536 = ''1.5 KB''" "format_bytes 1048575 = ''1024.0 KB''"
    "format_bytes 18015223143202815 = ''16384.8 TB''" by simp_all
  from format_bytes_accurate [of 1048575] n e f show ?thesis by auto
qed

end
