(* ===== verification/Cli.thy ===== *)
theory Cli
  imports Format_Bytes Mdns Transfer_Protocol
begin

text \<open>
  The command line, \<open>src/main.cpp\<close>: the parsing of flags and ports, the progress line, and
  the commands with their exit codes. What a command asks of the transfer engine, of
  discovery and of the file system is logged as actions, and the answers are its
  environment. The flag map is an association list with distinct keys. The texts the commands
  print are in \<open>Cli_Console\<close>.
\<close>

section \<open>Progress\<close>

definition progress_pct :: "u64 \<Rightarrow> u64 \<Rightarrow> int" where
  "progress_pct finished of_total =
     (if of_total = 0 then 100 else sint (ucast ((finished * 100) div of_total) :: 32 word))"

text \<open>The callback: it keeps the last percentage, and redraws only when it changes.\<close>

definition progress_tick :: "u64 \<times> u64 \<Rightarrow> int \<times> int list \<Rightarrow> int \<times> int list" where
  "progress_tick t st =
     (case st of (last_pct, drawn) \<Rightarrow>
        let pct = progress_pct (fst t) (snd t)
        in if pct = last_pct then (last_pct, drawn) else (pct, drawn @ [pct]))"

definition progress_draws :: "bool \<Rightarrow> (u64 \<times> u64) list \<Rightarrow> int list" where
  "progress_draws is_tty ticks = (if \<not> is_tty then [] else snd (fold progress_tick ticks (-1, [])))"

section \<open>Flags\<close>

type_synonym flags = "(bytes \<times> bytes) list"

text \<open>A flag token without its dashes, split at the first equals sign.\<close>

fun parse_flags_from :: "bytes list \<Rightarrow> flags \<Rightarrow> flags option" where
  "parse_flags_from [] flags = Some flags"
| "parse_flags_from (arg # rest) flags =
     (if length arg < 3 \<or> substr arg 0 2 \<noteq> ''--'' then None
      else
        let tok = drop 2 arg
        in case str_find ''='' tok of
             Some eq \<Rightarrow>
               let key = substr tok 0 eq; val = drop (eq + 1) tok
               in if key \<in> fst ` set flags then None
                  else parse_flags_from rest (flags @ [(key, val)])
           | None \<Rightarrow>
               (case rest of
                  [] \<Rightarrow> None
                | val # rest' \<Rightarrow>
                    if tok \<in> fst ` set flags then None
                    else parse_flags_from rest' (flags @ [(tok, val)])))"

definition parse_flags :: "bytes list \<Rightarrow> flags option" where
  "parse_flags args = parse_flags_from args []"

text \<open>True when every flag is allowed.\<close>

definition reject_unknown_flags :: "flags \<Rightarrow> bytes list \<Rightarrow> bool" where
  "reject_unknown_flags flags allowed_flags =
     list_all (\<lambda>kv. list_ex (\<lambda>a. fst kv = a) allowed_flags) flags"

definition flag_or :: "flags \<Rightarrow> bytes \<Rightarrow> bytes \<Rightarrow> bytes" where
  "flag_or flags key fallback = (case map_of flags key of None \<Rightarrow> fallback | Some v \<Rightarrow> v)"

text \<open>A flag that is given and not empty.\<close>

definition flag_set :: "flags \<Rightarrow> bytes \<Rightarrow> bool" where
  "flag_set flags key \<longleftrightarrow> map_of flags key \<noteq> None \<and> map_of flags key \<noteq> Some []"

section \<open>Ports\<close>

text \<open>\<open>strtol\<close> in base 10 with a 64-bit \<open>long\<close>: the value and the rest of the text; no digits,
  no progress.\<close>

definition clamp_long :: "int \<Rightarrow> int" where
  "clamp_long v = max (- 9223372036854775808) (min 9223372036854775807 v)"

definition strtol10 :: "bytes \<Rightarrow> int \<times> bytes" where
  "strtol10 s =
     (let t = dropWhile is_space s;
          neg = (t \<noteq> [] \<and> hd t = CHR ''-'');
          signed = (t \<noteq> [] \<and> (hd t = CHR ''-'' \<or> hd t = CHR ''+''));
          u = (if signed then tl t else t);
          ds = takeWhile is_digit u
      in if ds = [] then (0, s)
         else (clamp_long (if neg then - int (dec_value ds) else int (dec_value ds)), dropWhile is_digit u))"

definition parse_port :: "bytes \<Rightarrow> u16 option" where
  "parse_port s =
     (case strtol10 s of
        (v, rest) \<Rightarrow>
          if rest = s \<or> rest \<noteq> [] \<or> v < 1 \<or> v > 65535 then None else Some (of_int v))"

definition k_default_port :: u16 where
  "k_default_port = 53317"

section \<open>Commands\<close>

datatype cli_action =
    Act_usage
  | Act_start_server u16
  | Act_advertise bytes u16
  | Act_receive path
  | Act_stop_server
  | Act_find bytes
  | Act_browse
  | Act_connect bytes u16
  | Act_send_file path
  | Act_disconnect

record cli_env =
  cv_is_directory :: "path \<Rightarrow> bool"
  cv_exists :: "path \<Rightarrow> bool"
  cv_start :: "u16 \<Rightarrow> bool"
  cv_receive :: "path \<Rightarrow> bool \<times> file_receive_result"
  cv_find :: "bytes \<Rightarrow> peer_info option"
  cv_browse :: "peer_info list"
  cv_connect :: "bytes \<Rightarrow> u16 \<Rightarrow> bool"
  cv_send :: "path \<Rightarrow> bool"

text \<open>The answer to the prompt; \<open>None\<close> is the end of the input.\<close>

definition on_offer :: "bytes option \<Rightarrow> bool" where
  "on_offer answer =
     (case answer of
        None \<Rightarrow> False
      | Some a \<Rightarrow> a = ''y'' \<or> a = ''Y'' \<or> a = ''yes'' \<or> a = ''Yes'')"

definition run_recv :: "cli_env \<Rightarrow> bytes list \<Rightarrow> int \<times> cli_action list" where
  "run_recv E args =
     (case parse_flags args of
        None \<Rightarrow> (2, [])
      | Some flags \<Rightarrow>
          if \<not> reject_unknown_flags flags [''port'', ''out'', ''name''] then (2, [])
          else
            case parse_port (flag_or flags ''port'' (nat_to_dec (unat k_default_port))) of
              None \<Rightarrow> (2, [])
            | Some port \<Rightarrow>
                if \<not> flag_set flags ''out'' then (2, [])
                else
                  let out_dir = flag_or flags ''out'' []
                  in if \<not> cv_is_directory E out_dir then (1, [])
                     else if \<not> cv_start E port then (1, [Act_start_server port])
                     else
                       let actions = [Act_start_server port,
                             Act_advertise (flag_or flags ''name'' []) port,
                             Act_receive out_dir, Act_stop_server]
                       in case cv_receive E out_dir of
                            (ok, result) \<Rightarrow>
                              if \<not> ok then (if frr_rejected result then (0, actions) else (1, actions))
                              else (0, actions))"

definition run_send :: "cli_env \<Rightarrow> bytes list \<Rightarrow> int \<times> cli_action list" where
  "run_send E args =
     (case parse_flags args of
        None \<Rightarrow> (2, [])
      | Some flags \<Rightarrow>
          if \<not> reject_unknown_flags flags [''host'', ''to'', ''port'', ''file''] then (2, [])
          else
            let has_host = flag_set flags ''host''; has_to = flag_set flags ''to''
            in if has_host = has_to then (2, [])
               else if \<not> flag_set flags ''file'' then (2, [])
               else
                 let file_path = flag_or flags ''file'' []
                 in if \<not> cv_exists E file_path \<or> cv_is_directory E file_path then (1, [])
                    else
                      let target =
                            (if has_to then
                               let name = flag_or flags ''to'' []
                               in case cv_find E name of
                                    None \<Rightarrow> Inl (1, [Act_find name])
                                  | Some peer \<Rightarrow> Inr (pe_host peer, pe_port peer, [Act_find name])
                             else
                               case parse_port (flag_or flags ''port'' (nat_to_dec (unat k_default_port))) of
                                 None \<Rightarrow> Inl (2, [])
                               | Some port \<Rightarrow> Inr (flag_or flags ''host'' [], port, []))
                      in case target of
                           Inl r \<Rightarrow> r
                         | Inr (host, port, actions) \<Rightarrow>
                             if \<not> cv_connect E host port then (1, actions @ [Act_connect host port])
                             else
                               let actions' = actions @ [Act_connect host port, Act_send_file file_path,
                                                         Act_disconnect]
                               in if \<not> cv_send E file_path then (1, actions') else (0, actions'))"

definition run_list :: "cli_env \<Rightarrow> bytes list \<Rightarrow> int \<times> cli_action list" where
  "run_list E args =
     (case parse_flags args of
        None \<Rightarrow> (2, [])
      | Some flags \<Rightarrow> if \<not> reject_unknown_flags flags [] then (2, []) else (0, [Act_browse]))"

definition cli_main :: "cli_env \<Rightarrow> bytes list \<Rightarrow> int \<times> cli_action list" where
  "cli_main E args =
     (if args = [] \<or> hd args = ''-h'' \<or> hd args = ''--help''
      then (if args = [] then 2 else 0, [Act_usage])
      else if hd args = ''recv'' then run_recv E (tl args)
      else if hd args = ''send'' then run_send E (tl args)
      else if hd args = ''list'' then run_list E (tl args)
      else (2, [Act_usage]))"

section \<open>Lemmas\<close>

text \<open>Every single flag, in the two forms of the command line.\<close>

fun flag_tokens :: "(bool \<times> bytes \<times> bytes) list \<Rightarrow> bytes list" where
  "flag_tokens [] = []"
| "flag_tokens ((joined, key, val) # fs) =
     (if joined then [''--'' @ key @ ''='' @ val] else [''--'' @ key, val]) @ flag_tokens fs"

lemma str_find_no_char: "c \<notin> set k \<Longrightarrow> str_find [c] k = None"
  by (induction k) auto

lemma parse_flags_tokens:
  "\<forall>f \<in> set fs. fst (snd f) \<noteq> [] \<and> CHR ''='' \<notin> set (fst (snd f)) \<Longrightarrow>
   distinct (map fst flags @ map (\<lambda>f. fst (snd f)) fs) \<Longrightarrow>
   parse_flags_from (flag_tokens fs) flags = Some (flags @ map snd fs)"
proof (induction fs arbitrary: flags)
  case Nil
  then show ?case by simp
next
  case (Cons f fs)
  obtain joined key val where f: "f = (joined, key, val)" by (cases f)
  have key: "key \<noteq> []" "CHR ''='' \<notin> set key" using Cons.prems(1) by (simp_all add: f)
  have new: "key \<notin> fst ` set flags" using Cons.prems(2) by (auto simp: f)
  have "distinct (map fst (flags @ [(key, val)]) @ map (\<lambda>f. fst (snd f)) fs)"
    using Cons.prems(2) by (auto simp: f)
  then have rest: "parse_flags_from (flag_tokens fs) (flags @ [(key, val)])
      = Some ((flags @ [(key, val)]) @ map snd fs)"
    using Cons.prems(1) by (intro Cons.IH) auto
  have len: "0 < length key" using key(1) by simp
  show ?case
  proof (cases joined)
    case True
    have "str_find ''='' (key @ ''='' @ val) = Some (length key)" using str_find_char_append [OF key(2)] by simp
    with True new rest len show ?thesis by (simp add: f substr_def Let_def)
  next
    case False
    have "str_find ''='' key = None" by (rule str_find_no_char [OF key(2)])
    with False new rest len show ?thesis by (simp add: f substr_def Let_def)
  qed
qed

lemma space_not_sign:
  "is_space c \<Longrightarrow> c \<noteq> CHR ''-'' \<and> c \<noteq> CHR ''+'' \<and> \<not> is_digit c"
  by (auto simp: is_space_def is_digit_def)

lemma digit_not_sign: "is_digit c \<Longrightarrow> c \<noteq> CHR ''-'' \<and> c \<noteq> CHR ''+'' \<and> \<not> is_space c"
  using space_not_sign [of c] by (auto simp: is_digit_def)

lemma strtol10_text:
  assumes "\<forall>c \<in> set ws. is_space c" and "ds \<noteq> []" and "\<forall>c \<in> set ds. is_digit c"
  shows "strtol10 (ws @ ds) = (clamp_long (int (dec_value ds)), [])"
    and "strtol10 (ws @ CHR ''+'' # ds) = (clamp_long (int (dec_value ds)), [])"
proof -
  have hd: "is_digit (hd ds)" using assms(2,3) by (cases ds) auto
  have a: "dropWhile is_space (ws @ ds) = ds"
    using assms hd digit_not_sign by (cases ds) (auto simp: dropWhile_append3)
  have b: "dropWhile is_space (ws @ CHR ''+'' # ds) = CHR ''+'' # ds"
    using assms(1) by (subst dropWhile_append2) (auto simp: is_space_def)
  have t: "takeWhile is_digit ds = ds" "dropWhile is_digit ds = []" using assms(3) by auto
  show "strtol10 (ws @ ds) = (clamp_long (int (dec_value ds)), [])"
    using assms(2) digit_not_sign [OF hd] by (simp add: strtol10_def Let_def a t)
  show "strtol10 (ws @ CHR ''+'' # ds) = (clamp_long (int (dec_value ds)), [])"
    using assms(2) by (simp add: strtol10_def Let_def b t)
qed

lemma take_while_rest: "dropWhile P u = [] \<Longrightarrow> takeWhile P u = u"
  by (induction u) (auto split: if_splits)

lemma strtol10_positive:
  assumes "strtol10 s = (v, [])" and "0 < v"
  shows "\<exists>ws sign ds. s = ws @ sign @ ds \<and> (\<forall>c \<in> set ws. is_space c) \<and> (sign = [] \<or> sign = ''+'')
    \<and> ds \<noteq> [] \<and> (\<forall>c \<in> set ds. is_digit c) \<and> v = clamp_long (int (dec_value ds))"
proof -
  define t where "t = dropWhile is_space s"
  define u where "u = (if t \<noteq> [] \<and> (hd t = CHR ''-'' \<or> hd t = CHR ''+'') then tl t else t)"
  define ds where "ds = takeWhile is_digit u"
  define sign where "sign = (if t \<noteq> [] \<and> hd t = CHR ''+'' then ''+'' else [])"
  have eq: "strtol10 s = (if ds = [] then (0, s)
      else (clamp_long (if t \<noteq> [] \<and> hd t = CHR ''-'' then - int (dec_value ds) else int (dec_value ds)),
            dropWhile is_digit u))"
    by (simp add: strtol10_def Let_def t_def u_def ds_def)
  have ne: "ds \<noteq> []" using assms eq by auto
  have v: "v = clamp_long (if t \<noteq> [] \<and> hd t = CHR ''-'' then - int (dec_value ds) else int (dec_value ds))"
    and rest: "dropWhile is_digit u = []"
    using assms(1) ne eq by simp_all
  have nn: "\<not> (t \<noteq> [] \<and> hd t = CHR ''-'')"
    using v assms(2) by (auto simp: clamp_long_def split: if_splits)
  have u: "u = ds" unfolding ds_def by (rule take_while_rest [OF rest, symmetric])
  have "t = sign @ u" using nn by (cases t) (auto simp: sign_def u_def)
  then have "s = takeWhile is_space s @ sign @ ds"
    using takeWhile_dropWhile_id [of is_space s] u by (simp add: t_def)
  moreover have "\<forall>c \<in> set (takeWhile is_space s). is_space c" by (auto dest: set_takeWhileD)
  moreover have "\<forall>c \<in> set ds. is_digit c" by (auto simp: ds_def dest: set_takeWhileD)
  moreover have "v = clamp_long (int (dec_value ds))" using v nn by simp
  moreover have "sign = [] \<or> sign = ''+''" by (simp add: sign_def)
  ultimately show ?thesis using ne by blast
qed

text \<open>The percentage as a number: no overflow while the total stays below 2^64 / 100.\<close>

lemma progress_pct_value:
  assumes "unat n \<le> unat t" and "0 < unat t" and "unat t * 100 < 2 ^ 64"
  shows "progress_pct n t = int (unat n * 100 div unat t)" and "unat n * 100 div unat t \<le> 100"
proof -
  have t0: "t \<noteq> 0" using assms(2) by auto
  have le: "unat n * 100 div unat t \<le> 100"
  proof -
    have "unat n * 100 div unat t \<le> unat t * 100 div unat t" using assms(1) by (intro div_le_mono) simp
    then show ?thesis using assms(2) by simp
  qed
  have "unat n * unat (100 :: u64) < 2 ^ LENGTH(64)" using assms(1,3) by simp
  then have "unat (n * 100) = unat n * unat (100 :: u64)" by (rule unat_mult_lem [THEN iffD1])
  then have mul: "unat (n * 100) = unat n * 100" by simp
  have q: "unat ((n * 100) div t) = unat n * 100 div unat t" by (simp add: unat_div mul)
  have "uint (ucast ((n * 100) div t) :: 32 word) = int (unat n * 100 div unat t)"
  proof -
    have "uint ((n * 100) div t) = int (unat n * 100 div unat t)" unfolding q [symmetric] by simp
    then show ?thesis using le by (simp add: unsigned_ucast_eq take_bit_int_eq_self)
  qed
  moreover from this have "uint (ucast ((n * 100) div t) :: 32 word) \<le> 100" using le by simp
  ultimately have "sint (ucast ((n * 100) div t) :: 32 word) = int (unat n * 100 div unat t)"
    by (simp add: sint_uint signed_take_bit_int_eq_self)
  then show "progress_pct n t = int (unat n * 100 div unat t)" using t0 by (simp add: progress_pct_def)
  show "unat n * 100 div unat t \<le> 100" by (rule le)
qed

definition pct_state :: "nat \<Rightarrow> u64 \<Rightarrow> int \<times> int list \<Rightarrow> bool" where
  "pct_state n t st \<longleftrightarrow> sorted_wrt (<) (snd st) \<and> (\<forall>x \<in> set (snd st). 0 \<le> x \<and> x \<le> fst st)
     \<and> (snd st = [] \<longrightarrow> fst st = -1) \<and> (snd st \<noteq> [] \<longrightarrow> last (snd st) = fst st)
     \<and> fst st \<le> int (n * 100 div unat t)"

lemma progress_tick_state:
  assumes "pct_state n t st" and "n \<le> unat m" and "unat m \<le> unat t" and "0 < unat t"
    and "unat t * 100 < 2 ^ 64"
  shows "pct_state (unat m) t (progress_tick (m, t) st) \<and> fst (progress_tick (m, t) st) = int (unat m * 100 div unat t)"
proof -
  obtain l d where st: "st = (l, d)" by (cases st)
  note p = progress_pct_value [OF assms(3-5)]
  have "n * 100 div unat t \<le> unat m * 100 div unat t" using assms(2) by (intro div_le_mono) simp
  then have le: "l \<le> int (unat m * 100 div unat t)" using assms(1) by (simp add: pct_state_def st)
  show ?thesis
  proof (cases "int (unat m * 100 div unat t) = l")
    case True
    then show ?thesis using assms(1) by (simp add: pct_state_def st progress_tick_def p(1))
  next
    case False
    with le have lt: "l < int (unat m * 100 div unat t)" by simp
    have "\<forall>x \<in> set d. x < int (unat m * 100 div unat t)"
      using assms(1) lt by (force simp: pct_state_def st)
    then show ?thesis
      using assms(1) False lt by (force simp: pct_state_def st progress_tick_def p(1) sorted_wrt_append Let_def)
  qed
qed

lemma progress_fold_state:
  "pct_state n t st \<Longrightarrow> sorted (n # map unat ms) \<Longrightarrow> \<forall>m \<in> set ms. unat m \<le> unat t \<Longrightarrow>
   0 < unat t \<Longrightarrow> unat t * 100 < 2 ^ 64 \<Longrightarrow>
   pct_state (last (n # map unat ms)) t (fold progress_tick (map (\<lambda>m. (m, t)) ms) st)
   \<and> (ms \<noteq> [] \<longrightarrow> fst (fold progress_tick (map (\<lambda>m. (m, t)) ms) st) = int (unat (last ms) * 100 div unat t))"
proof (induction ms arbitrary: n st)
  case Nil
  then show ?case by simp
next
  case (Cons m ms)
  have "pct_state (unat m) t (progress_tick (m, t) st)"
    "fst (progress_tick (m, t) st) = int (unat m * 100 div unat t)"
    using progress_tick_state [OF Cons.prems(1), of m] Cons.prems by simp_all
  with Cons.IH [OF this(1)] Cons.prems show ?case by (cases ms) auto
qed

section \<open>Properties\<close>

text \<open>
  Flags round trip. Any list of flags with distinct, non-empty keys that contain no
  equals sign, each written as one token \<open>--key=value\<close> or as the two tokens \<open>--key\<close> and
  \<open>value\<close>, is parsed to exactly those keys and values; values may be empty, contain equals
  signs or begin with dashes.
\<close>

theorem flags_round_trip:
  assumes "distinct (map (\<lambda>f. fst (snd f)) fs)"
    and "\<forall>f \<in> set fs. fst (snd f) \<noteq> [] \<and> CHR ''='' \<notin> set (fst (snd f))"
  shows "parse_flags (flag_tokens fs) = Some (map snd fs)"
  using parse_flags_tokens [OF assms(2), of "[]"] assms(1) by (simp add: parse_flags_def)

theorem flags_round_trip_witness:
  "parse_flags [''--out'', ''--dir'', ''--name=a=b''] = Some [(''out'', ''--dir''), (''name'', ''a=b'')]"
  using flags_round_trip [of "[(False, ''out'', ''--dir''), (True, ''name'', ''a=b'')]"] by simp

text \<open>
  C38: Ports. A text is a port exactly when it is optional white space, an optional plus
  sign and decimal digits with a value from 1 to 65535, and then it is that value; signs,
  trailing text, empty texts and numbers too large for a \<open>long\<close> are refused.
\<close>

theorem parse_port_exact:
  "parse_port s = Some p \<longleftrightarrow>
     (\<exists>ws sign ds. s = ws @ sign @ ds \<and> (\<forall>c \<in> set ws. is_space c) \<and> (sign = [] \<or> sign = ''+'')
        \<and> ds \<noteq> [] \<and> (\<forall>c \<in> set ds. is_digit c) \<and> 1 \<le> dec_value ds \<and> dec_value ds \<le> 65535
        \<and> unat p = dec_value ds)"
proof
  assume a: "parse_port s = Some p"
  then obtain v where v: "strtol10 s = (v, [])" "1 \<le> v" "v \<le> 65535" "p = of_int v"
    by (auto simp: parse_port_def split: prod.splits if_splits)
  then obtain ws sign ds where d: "s = ws @ sign @ ds" "\<forall>c \<in> set ws. is_space c" "sign = [] \<or> sign = ''+''"
      "ds \<noteq> []" "\<forall>c \<in> set ds. is_digit c" "v = clamp_long (int (dec_value ds))"
    using strtol10_positive [OF v(1)] by auto
  have val: "int (dec_value ds) = v" using d(6) v(2,3) by (auto simp: clamp_long_def)
  then have "dec_value ds \<le> 65535" "1 \<le> dec_value ds" using v(2,3) by linarith+
  moreover from this have "unat p = dec_value ds"
    by (simp add: v(4) val [symmetric] unat_of_nat)
  ultimately show "\<exists>ws sign ds. s = ws @ sign @ ds \<and> (\<forall>c \<in> set ws. is_space c) \<and> (sign = [] \<or> sign = ''+'')
        \<and> ds \<noteq> [] \<and> (\<forall>c \<in> set ds. is_digit c) \<and> 1 \<le> dec_value ds \<and> dec_value ds \<le> 65535
        \<and> unat p = dec_value ds"
    using d by blast
next
  assume "\<exists>ws sign ds. s = ws @ sign @ ds \<and> (\<forall>c \<in> set ws. is_space c) \<and> (sign = [] \<or> sign = ''+'')
        \<and> ds \<noteq> [] \<and> (\<forall>c \<in> set ds. is_digit c) \<and> 1 \<le> dec_value ds \<and> dec_value ds \<le> 65535
        \<and> unat p = dec_value ds"
  then obtain ws sign ds where d: "s = ws @ sign @ ds" "\<forall>c \<in> set ws. is_space c" "sign = [] \<or> sign = ''+''"
      "ds \<noteq> []" "\<forall>c \<in> set ds. is_digit c" "1 \<le> dec_value ds" "dec_value ds \<le> 65535" "unat p = dec_value ds"
    by blast
  have "strtol10 s = (clamp_long (int (dec_value ds)), [])"
    using strtol10_text [OF d(2,4,5)] d(1,3) by auto
  moreover have "clamp_long (int (dec_value ds)) = int (dec_value ds)"
    using d(7) by (simp add: clamp_long_def)
  moreover have "(of_nat (dec_value ds) :: u16) = p"
    unfolding d(8) [symmetric] by simp
  ultimately show "parse_port s = Some p" using d(1,4,6,7) by (simp add: parse_port_def)
qed

text \<open>
  Usage errors do nothing. The exit code is 0, 1 or 2, and whenever it is 2 no server
  was started, nothing was searched for, connected, sent or received.
\<close>

theorem usage_errors_do_nothing:
  "fst (cli_main E args) \<in> {0, 1, 2}
   \<and> (fst (cli_main E args) = 2 \<longrightarrow> set (snd (cli_main E args)) \<subseteq> {Act_usage})"
proof -
  have r: "fst (run_recv E a) \<in> {0, 1, 2} \<and> (fst (run_recv E a) = 2 \<longrightarrow> snd (run_recv E a) = [])" for a
    by (simp add: run_recv_def Let_def split: option.splits prod.splits)
  have s: "fst (run_send E a) \<in> {0, 1, 2} \<and> (fst (run_send E a) = 2 \<longrightarrow> snd (run_send E a) = [])" for a
    by (simp add: run_send_def Let_def split: option.splits)
  have l: "fst (run_list E a) \<in> {0, 1, 2} \<and> (fst (run_list E a) = 2 \<longrightarrow> snd (run_list E a) = [])" for a
    by (simp add: run_list_def split: option.splits)
  show ?thesis using r s l by (simp add: cli_main_def)
qed

text \<open>An environment in which everything works.\<close>

definition demo_cli :: cli_env where
  "demo_cli = \<lparr>cv_is_directory = (\<lambda>p. p = ''dir''), cv_exists = (\<lambda>_. True), cv_start = (\<lambda>_. True),
     cv_receive = (\<lambda>_. (True, empty_result)), cv_find = (\<lambda>n. Some \<lparr>pe_name = n, pe_host = ''10.0.0.2'', pe_port = 1\<rparr>), cv_browse = [],
     cv_connect = (\<lambda>_ _. True), cv_send = (\<lambda>_. True)\<rparr>"

theorem usage_errors_do_nothing_witness:
  "fst (cli_main demo_cli [''send'', ''--file'', ''f'']) = 2
   \<and> set (snd (cli_main demo_cli [''send'', ''--file'', ''f''])) \<subseteq> {Act_usage}"
proof -
  have "fst (cli_main demo_cli [''send'', ''--file'', ''f'']) = 2" by code_simp
  then show ?thesis using usage_errors_do_nothing [of demo_cli "[''send'', ''--file'', ''f'']"] by blast
qed

theorem parse_port_exact_witness:
  "parse_port ''+80'' = Some 80"
proof -
  have "dec_value ''80'' = 80" by code_simp
  then have "unat (80 :: u16) = dec_value ''80''" "1 \<le> dec_value ''80''" "dec_value ''80'' \<le> 65535"
    by simp_all
  moreover have "\<forall>c \<in> set ''80''. is_digit c" by code_simp
  moreover have "''+80'' = [] @ ''+'' @ ''80''" by simp
  ultimately show ?thesis
    unfolding parse_port_exact
    by (intro exI [of _ "[]"] exI [of _ "''+''"] exI [of _ "''80''"] conjI) simp_all
qed

text \<open>The branches of \<open>run_send\<close> that end with 0.\<close>

lemma send_zero_facts:
  assumes "run_send E args = (0, actions)"
  shows "\<exists>flags file_path host port found. parse_flags args = Some flags
    \<and> (flag_set flags ''host'' \<longleftrightarrow> \<not> flag_set flags ''to'')
    \<and> map_of flags ''file'' = Some file_path \<and> cv_exists E file_path \<and> \<not> cv_is_directory E file_path
    \<and> (if flag_set flags ''to''
       then \<exists>peer. cv_find E (flag_or flags ''to'' []) = Some peer \<and> host = pe_host peer \<and> port = pe_port peer
              \<and> found = [Act_find (flag_or flags ''to'' [])]
       else map_of flags ''host'' = Some host \<and> found = [])
    \<and> cv_connect E host port \<and> cv_send E file_path
    \<and> actions = found @ [Act_connect host port, Act_send_file file_path, Act_disconnect]"
proof -
  obtain flags where f: "parse_flags args = Some flags"
    using assms by (cases "parse_flags args") (auto simp: run_send_def)
  have got: "flag_set flags k \<Longrightarrow> map_of flags k = Some (flag_or flags k [])" for k
    by (auto simp: flag_set_def flag_or_def)
  have file_given: "flag_set flags ''file''" and one: "flag_set flags ''host'' \<noteq> flag_set flags ''to''"
    using assms f by (auto simp: run_send_def Let_def split: if_splits)
  show ?thesis
  proof (cases "flag_set flags ''to''")
    case True
    with assms f one file_given got [of "''file''"] show ?thesis
      by (auto simp: run_send_def Let_def split: if_splits option.splits)
  next
    case False
    with assms f one file_given got [of "''file''"] got [of "''host''"] show ?thesis
      by (auto simp: run_send_def Let_def split: if_splits option.splits)
  qed
qed

text \<open>
  Exit code 0 of \<open>send\<close> is earned. When \<open>lft send\<close> ends with 0, exactly one of a device
  and a host was named, the file exists and is not a directory, the connection was made to
  that host or to the address the device was found under, the transfer of that file
  returned true, and the client was disconnected afterwards.
\<close>

theorem send_zero_means_sent:
  assumes "run_send E args = (0, actions)"
  shows "\<exists>flags file_path host port found. parse_flags args = Some flags
    \<and> (flag_set flags ''host'' \<longleftrightarrow> \<not> flag_set flags ''to'')
    \<and> map_of flags ''file'' = Some file_path \<and> cv_exists E file_path \<and> \<not> cv_is_directory E file_path
    \<and> (if flag_set flags ''to''
       then \<exists>peer. cv_find E (flag_or flags ''to'' []) = Some peer \<and> host = pe_host peer \<and> port = pe_port peer
              \<and> found = [Act_find (flag_or flags ''to'' [])]
       else map_of flags ''host'' = Some host \<and> found = [])
    \<and> cv_connect E host port \<and> cv_send E file_path
    \<and> actions = found @ [Act_connect host port, Act_send_file file_path, Act_disconnect]"
  by (rule send_zero_facts [OF assms])

theorem send_zero_means_sent_witness:
  "\<exists>actions. run_send demo_cli [''--to'', ''pc'', ''--file'', ''f''] = (0, actions)
     \<and> last actions = Act_disconnect"
proof -
  obtain actions where a: "run_send demo_cli [''--to'', ''pc'', ''--file'', ''f''] = (0, actions)"
  proof -
    have "fst (run_send demo_cli [''--to'', ''pc'', ''--file'', ''f'']) = 0" by code_simp
    then show ?thesis using that by (metis prod.collapse)
  qed
  from send_zero_means_sent [OF a] have "last actions = Act_disconnect" by auto
  with a show ?thesis by blast
qed

text \<open>
  The progress line. For a transfer whose counts grow to a total below 2^64 / 100, the
  percentages drawn are strictly increasing between 0 and 100, so there are at most 101
  redraws however many chunks there are, and a finished transfer ends at 100; without a
  terminal nothing is drawn.
\<close>

theorem progress_line:
  assumes "sorted (map unat ms)" and "\<forall>m \<in> set ms. m \<le> t" and "0 < t" and "unat t * 100 < 2 ^ 64"
  shows "progress_draws False (map (\<lambda>m. (m, t)) ms) = []
    \<and> sorted_wrt (<) (progress_draws True (map (\<lambda>m. (m, t)) ms))
    \<and> set (progress_draws True (map (\<lambda>m. (m, t)) ms)) \<subseteq> {0..100}
    \<and> length (progress_draws True (map (\<lambda>m. (m, t)) ms)) \<le> 101
    \<and> (ms \<noteq> [] \<longrightarrow> last ms = t \<longrightarrow> last (progress_draws True (map (\<lambda>m. (m, t)) ms)) = 100)"
proof -
  let ?r = "fold progress_tick (map (\<lambda>m. (m, t)) ms) (-1, [])"
  have t: "0 < unat t" "\<forall>m \<in> set ms. unat m \<le> unat t"
    using assms(2,3) by (simp_all add: word_le_nat_alt unat_gt_0 word_neq_0_conv [symmetric])
  have "pct_state 0 t (-1, [])" by (simp add: pct_state_def)
  from progress_fold_state [OF this _ t(2,1) assms(4)] assms(1)
  have r: "pct_state (last (0 # map unat ms)) t ?r"
    "ms \<noteq> [] \<longrightarrow> fst ?r = int (unat (last ms) * 100 div unat t)" by simp_all
  have "last (0 # map unat ms) \<le> unat t" using t by (auto simp: last_map)
  then have "last (0 # map unat ms) * 100 div unat t \<le> unat t * 100 div unat t"
    by (intro div_le_mono) simp
  then have "fst ?r \<le> 100" using r(1) t(1) by (simp add: pct_state_def)
  then have range: "set (snd ?r) \<subseteq> {0..100}" and sorted: "sorted_wrt (<) (snd ?r)"
    using r(1) by (auto simp: pct_state_def)
  have "length (snd ?r) = card (set (snd ?r))"
    using sorted by (simp add: strict_sorted_iff distinct_card)
  also have "\<dots> \<le> card {0..100::int}" by (rule card_mono [OF _ range]) simp
  finally have len: "length (snd ?r) \<le> 101" by simp
  have fin: "last (snd ?r) = 100" if "ms \<noteq> []" "last ms = t"
  proof -
    have "fst ?r = 100" using r(2) that t(1) by simp
    moreover have "snd ?r \<noteq> []" using r(1) calculation by (auto simp: pct_state_def)
    ultimately show ?thesis using r(1) by (simp add: pct_state_def)
  qed
  show ?thesis using range sorted len fin by (auto simp: progress_draws_def)
qed

theorem progress_line_witness:
  "sorted_wrt (<) (progress_draws True [(1, 3), (2, 3), (3, 3)])
   \<and> last (progress_draws True [(1, 3), (2, 3), (3, 3)]) = 100"
  using progress_line [of "[1, 2, 3]" 3] by simp

end
