(* ===== verification/Waits_End.thy ===== *)
theory Waits_End
  imports Client_Properties Sha256 Server_Session
begin

text \<open>
  Neither blocking call hangs. A rank on the program counters of \<open>send_file\<close> and
  \<open>receive_file\<close> goes down with every step of the thread itself and is left alone by the
  callbacks, and a thread that has not returned always has a step: the event it waits for
  or its timeout. The number of waits is therefore bounded, by the number of chunks of the
  file for the sender and by a constant for the receiver.
\<close>

section \<open>The contract of a blocking call\<close>

text \<open>The thread of a blocking call among the callbacks: its own steps lower a rank, and it
  has a step of its own unless it has returned.\<close>

locale blocking_call =
  fixes step :: "'x \<Rightarrow> 'l \<Rightarrow> 'x \<Rightarrow> bool"
    and run :: "'x \<Rightarrow> 'l list \<Rightarrow> 'x \<Rightarrow> bool"
    and own :: "'l \<Rightarrow> bool"
    and rank :: "'x \<Rightarrow> nat"
  assumes run_empty: "run x [] y \<longleftrightarrow> y = x"
    and run_first: "run x (l # ls) z \<longleftrightarrow> (\<exists>y. step x l y \<and> run y ls z)"
    and own_lowers: "step x l y \<Longrightarrow> own l \<Longrightarrow> rank y < rank x"
    and others_keep: "step x l y \<Longrightarrow> \<not> own l \<Longrightarrow> rank y = rank x"
    and not_stuck: "0 < rank x \<Longrightarrow> \<exists>l y. own l \<and> step x l y"
begin

lemma own_steps_bounded: "run x ls y \<Longrightarrow> length (filter own ls) + rank y \<le> rank x"
proof (induction ls arbitrary: x)
  case Nil
  then show ?case by (simp add: run_empty)
next
  case (Cons l ls)
  then obtain x' where s: "step x l x'" "run x' ls y" by (auto simp: run_first)
  show ?case
    using Cons.IH [OF s(2)] own_lowers [OF s(1)] others_keep [OF s(1)] by (cases "own l") auto
qed

lemma returns_alone: "\<exists>ls y. (\<forall>l \<in> set ls. own l) \<and> run x ls y \<and> rank y = 0"
proof (induction "rank x" arbitrary: x rule: less_induct)
  case less
  show ?case
  proof (cases "rank x = 0")
    case True
    then show ?thesis by (intro exI [of _ "[]"]) (simp add: run_empty)
  next
    case False
    then obtain l y where ly: "own l" "step x l y" using not_stuck [of x] by auto
    from less.hyps [OF own_lowers [OF ly(2,1)]] obtain ls z where
      "\<forall>l \<in> set ls. own l" "run y ls z" "rank z = 0" by blast
    then show ?thesis using ly by (intro exI [of _ "l # ls"]) (auto simp: run_first)
  qed
qed

end

section \<open>The sender\<close>

fun own_send_step :: "client_label \<Rightarrow> bool" where
  "own_send_step S_wake = True"
| "own_send_step S_timeout = True"
| "own_send_step _ = False"

text \<open>The number of chunks of \<open>n\<close> bytes.\<close>

definition chunk_count :: "nat \<Rightarrow> nat" where
  "chunk_count n = (n + (k_file_chunk_size - 1)) div k_file_chunk_size"

lemma chunk_count_0 [simp]: "chunk_count 0 = 0"
  by (simp add: chunk_count_def k_file_chunk_size_def)

lemma chunk_count_less:
  assumes "0 < n"
  shows "chunk_count (n - min n k_file_chunk_size) < chunk_count n"
proof (cases "n \<le> k_file_chunk_size")
  case True
  then show ?thesis using assms by (simp add: chunk_count_def k_file_chunk_size_def)
next
  case False
  then have "n + (k_file_chunk_size - 1)
      = (n - min n k_file_chunk_size + (k_file_chunk_size - 1)) + k_file_chunk_size"
    by (simp add: k_file_chunk_size_def)
  then show ?thesis by (simp add: chunk_count_def k_file_chunk_size_def)
qed

lemma chunk_count_mono: "m \<le> n \<Longrightarrow> chunk_count m \<le> chunk_count n"
  by (simp add: chunk_count_def div_le_mono)

fun send_rank :: "send_job \<Rightarrow> send_pc \<Rightarrow> nat" where
  "send_rank job Sd_header_wait = 4 + chunk_count (unat (sj_size job))"
| "send_rank job Sd_decision = 3 + chunk_count (unat (sj_size job))"
| "send_rank job (Sd_chunk_wait sent input) =
     2 + chunk_count (min (length input) (unat (sj_size job) - unat sent))"
| "send_rank job Sd_empty_wait = 2"
| "send_rank job Sd_ack_wait = 1"
| "send_rank job (Sd_returned b) = 0"

lemma send_fail_rank [simp]: "send_rank job (fst (send_fail s)) = 0"
  by (simp add: send_fail_def)

lemma send_chunk_rank:
  "send_rank job (fst (send_chunk E (sj_size job) sent input s))
     < 2 + chunk_count (min (length input) (unat (sj_size job) - unat sent))"
proof (cases "sent < sj_size job")
  case False
  then show ?thesis by (simp add: send_chunk_def)
next
  case True
  define r where "r = unat (sj_size job) - unat sent"
  define c where "c = take (min (unat (sj_size job - sent)) k_file_chunk_size) input"
  define n where "n = length c"
  have rem: "unat (sj_size job - sent) = r"
    using True by (simp add: r_def unat_sub word_less_nat_alt word_le_nat_alt)
  have n: "n = min (min (length input) r) k_file_chunk_size" by (simp add: n_def c_def rem)
  note sum = chunk_arith(1) [OF True n_def [unfolded c_def]]
  obtain ok s1 where sb: "stream_send_begin E c (sent + of_nat n \<ge> sj_size job) s = (ok, s1)"
    by (cases "stream_send_begin E c (sent + of_nat n \<ge> sj_size job) s")
  have eq: "send_chunk E (sj_size job) sent input s =
      (if n = 0 then send_fail s
       else if ok then (Sd_chunk_wait (sent + of_nat n) (drop n input), s1) else send_fail s1)"
    unfolding send_chunk_def Let_def c_def [symmetric] n_def [symmetric] sb using True by auto
  show ?thesis
  proof (cases "n = 0")
    case True
    then show ?thesis by (simp add: eq)
  next
    case False
    then have "chunk_count (min (length input) r - n) < chunk_count (min (length input) r)"
      unfolding n by (intro chunk_count_less) simp
    moreover have "min (length input - n) (unat (sj_size job) - (unat sent + n)) = min (length input) r - n"
      by (simp add: r_def)
    ultimately show ?thesis using False sum by (simp add: eq r_def)
  qed
qed

lemma send_body_rank: "send_rank job (fst (send_body E job s)) < 3 + chunk_count (unat (sj_size job))"
proof (cases "sj_file job")
  case None
  then show ?thesis by (simp add: send_body_def split: prod.splits)
next
  case (Some input)
  have "chunk_count (min (length input) (unat (sj_size job))) \<le> chunk_count (unat (sj_size job))"
    by (intro chunk_count_mono) simp
  with send_chunk_rank [of job E 0 input s] Some show ?thesis
    by (auto simp: send_body_def split: prod.splits)
qed

lemma send_step_rank:
  "send_step job x l y \<Longrightarrow>
     (if own_send_step l then send_rank job (fst y) < send_rank job (fst x) else fst y = fst x)"
  by (induction rule: send_step.induct)
     (use send_chunk_rank send_body_rank in \<open>auto simp: less_Suc_eq_le\<close>)

text \<open>A sender that has not returned has a step of its own, whatever the callbacks did.\<close>

lemma send_progress:
  assumes "0 < send_rank job pc"
  shows "\<exists>l y. own_send_step l \<and> send_step job (pc, s) l y"
proof -
  have "\<exists>y. send_step job (pc, s) S_wake y \<or> send_step job (pc, s) S_timeout y"
  proof (cases pc)
    case Sd_header_wait
    then show ?thesis by (cases "qc_send_done s") (blast intro: header_sent header_timeout)+
  next
    case Sd_decision
    then show ?thesis by (cases "qc_decision_ready s"; cases "qc_decision_accepted s")
        (blast intro: decision_yes decision_no decision_timeout)+
  next
    case Sd_chunk_wait
    then show ?thesis by (cases "qc_send_done s") (blast intro: chunk_sent chunk_timeout)+
  next
    case Sd_empty_wait
    then show ?thesis by (cases "qc_send_done s") (blast intro: empty_sent empty_timeout)+
  next
    case Sd_ack_wait
    then show ?thesis by (cases "qc_file_done s") (blast intro: ack_arrived ack_timeout)+
  qed (use assms in simp)
  then show ?thesis using own_send_step.simps(1,2) by blast
qed

inductive_simps send_run_nil: "send_run job x [] y"
inductive_simps send_run_cons: "send_run job x (l # ls) z"

interpretation sender: blocking_call "send_step job" "send_run job" own_send_step "send_rank job \<circ> fst"
  for job
proof unfold_locales
  show "\<exists>l y. own_send_step l \<and> send_step job x l y" if "0 < (send_rank job \<circ> fst) x" for x
    using that send_progress [of job "fst x" "snd x"] by simp
qed (use send_step_rank in \<open>fastforce simp: send_run_nil send_run_cons\<close>)+

lemma send_start_rank:
  "send_rank job (fst (send_file_internal E h s)) \<le> 4 + chunk_count (unat (sj_size job))"
  by (simp add: send_file_internal_def send_fail_def Let_def split: prod.splits)

section \<open>The receiver\<close>

fun own_receive_step :: "session_label \<Rightarrow> bool" where
  "own_receive_step (L_stream h ev) = False"
| "own_receive_step (L_connection c ev) = False"
| "own_receive_step (L_listener ev) = False"
| "own_receive_step _ = True"

fun receive_rank :: "receive_pc \<Rightarrow> nat" where
  "receive_rank Rf_wait_offer = 5"
| "receive_rank (Rf_prompt h) = 4"
| "receive_rank Rf_accepting = 3"
| "receive_rank Rf_wait_done = 2"
| "receive_rank (Rf_drain b) = 1"
| "receive_rank (Rf_returned b) = 0"

lemma accept_offer_rank: "receive_rank (fst (accept_offer E s)) < 4"
  by (simp add: accept_offer_def split: prod.splits)

lemma session_step_rank:
  "session_step evp x l y \<Longrightarrow>
     (if own_receive_step l then receive_rank (fst y) < receive_rank (fst x) else fst y = fst x)"
  by (induction rule: session_step.induct) (simp_all add: accept_offer_rank)

lemma session_progress:
  assumes "0 < receive_rank pc"
  shows "\<exists>l y. own_receive_step l \<and> session_step evp (pc, s) l y"
  using assms
proof (cases pc)
  case Rf_wait_offer
  then show ?thesis
    by (cases "qs_file_done s"; cases "qs_offer_ready s")
       (metis own_receive_step.simps(4,5) offer_timeout offer_aborted offer_arrived)+
next
  case (Rf_prompt h)
  then show ?thesis using answer_no [of evp h s] by (metis own_receive_step.simps(6))
next
  case Rf_accepting
  then show ?thesis using send_accept [of evp s] by (metis own_receive_step.simps(7))
next
  case Rf_wait_done
  then show ?thesis
    by (cases "qs_file_done s"; cases "qs_file_ok s")
       (metis own_receive_step.simps(4,5) done_timeout done_failed done_ok)+
next
  case (Rf_drain b)
  then show ?thesis using drain_timeout [of evp b s] by (metis own_receive_step.simps(5))
qed simp

inductive_simps session_run_cons: "session_run evp x (l # ls) z"

interpretation receiver: blocking_call "session_step evp" "session_run evp" own_receive_step
  "receive_rank \<circ> fst" for evp
proof unfold_locales
  show "\<exists>l y. own_receive_step l \<and> session_step evp x l y" if "0 < (receive_rank \<circ> fst) x" for x
    using that session_progress [of "fst x" evp "snd x"] by simp
qed (use session_step_rank in \<open>fastforce simp: session_run_cons\<close>)+

section \<open>Properties\<close>

text \<open>
  C11: A send ends. However callbacks and waits interleave, the thread in \<open>send_file\<close> takes at
  most four steps and one for each chunk of the file; and from every state it can reach its
  return without the help of any callback, by its timeouts alone.
\<close>

theorem send_terminates:
  assumes "send_run job (send_file_internal E h s) ls x"
  shows "length (filter own_send_step ls) \<le> 4 + chunk_count (unat (sj_size job))
    \<and> (\<exists>ms b z. (\<forall>l \<in> set ms. own_send_step l) \<and> send_run job x ms (Sd_returned b, z))"
proof -
  obtain ms y where ms: "\<forall>l \<in> set ms. own_send_step l" "send_run job x ms y" "(send_rank job \<circ> fst) y = 0"
    using sender.returns_alone [of job x] by blast
  then obtain b where "fst y = Sd_returned b" by (cases "fst y") auto
  then have "send_run job x ms (Sd_returned b, snd y)" using ms(2) by (metis prod.collapse)
  moreover have "length (filter own_send_step ls) \<le> 4 + chunk_count (unat (sj_size job))"
    using sender.own_steps_bounded [OF assms] send_start_rank [of job E h s] by simp
  ultimately show ?thesis using ms(1) by blast
qed

text \<open>The demo client, left alone by its peer.\<close>

theorem send_terminates_witness:
  "\<exists>ms b z. (\<forall>l \<in> set ms. own_send_step l)
     \<and> send_run demo_job (send_file_internal (good_client 2) (sj_header demo_job) demo_client) ms
         (Sd_returned b, z)"
  using send_terminates [OF send_nil, of demo_job "good_client 2" "sj_header demo_job" demo_client]
  by blast

text \<open>
  C12: A receive ends. The thread in \<open>receive_file\<close> takes at most five steps of its own in any
  session, the user's answer included, and from every state it reaches its return by
  answering and by timeouts, whatever the peer does or fails to do.
\<close>

theorem receive_terminates:
  assumes "session_run evp (receive_start is_dir p has_offer has_progress s) ls x"
  shows "length (filter own_receive_step ls) \<le> 5
    \<and> (\<exists>ms b z. (\<forall>l \<in> set ms. own_receive_step l) \<and> session_run evp x ms (Rf_returned b, z))"
proof -
  obtain ms y where ms: "\<forall>l \<in> set ms. own_receive_step l" "session_run evp x ms y"
      "(receive_rank \<circ> fst) y = 0"
    using receiver.returns_alone [of evp x] by blast
  then obtain b where "fst y = Rf_returned b" by (cases "fst y") auto
  then have "session_run evp x ms (Rf_returned b, snd y)" using ms(2) by (metis prod.collapse)
  moreover have "length (filter own_receive_step ls) \<le> 5"
    using receiver.own_steps_bounded [OF assms] by (simp add: receive_start_def split: if_splits)
  ultimately show ?thesis using ms(1) by blast
qed

theorem receive_terminates_witness:
  "\<exists>ms b z. (\<forall>l \<in> set ms. own_receive_step l)
     \<and> session_run toy_evp (receive_start (\<lambda>_. True) ''d/'' True False (new_server 53317 Map.empty)) ms
         (Rf_returned b, z)"
  using receive_terminates [OF run_nil, of toy_evp "\<lambda>_. True" "''d/''" True False "new_server 53317 Map.empty"]
  by blast

end
