(* ===== verification/Client_Raw.thy ===== *)
theory Client_Raw
  imports Waits_End
begin

text \<open>
  \<open>QuicClient::send_raw_stream\<close>, which the integration tests use to send malformed streams:
  one send on a fresh stream, and with FIN a wait for the receiver's answer whose outcome
  does not matter.
\<close>

datatype raw_pc =
    Raw_send_wait bool \<comment> \<open>whether the data carries FIN\<close>
  | Raw_answer_wait
  | Raw_returned bool

definition send_raw_stream :: "client_env \<Rightarrow> bytes \<Rightarrow> bool \<Rightarrow> quic_client \<Rightarrow> raw_pc \<times> quic_client" where
  "send_raw_stream E data fin s =
     (if \<not> qc_connected s \<or> qc_connection s = None \<or> \<not> qc_api s then (Raw_returned False, s)
      else
        case open_stream E (s\<lparr>qc_file_ack := [], qc_rejected := False, qc_file_done := False,
                              qc_file_ok := False\<rparr>) of
          (opened, s1) \<Rightarrow>
            if \<not> opened then (Raw_returned False, s1)
            else
              case stream_send_begin E data fin s1 of
                (ok, s2) \<Rightarrow> if ok then (Raw_send_wait fin, s2) else (Raw_returned False, abort_stream s2))"

inductive raw_step :: "raw_pc \<times> quic_client \<Rightarrow> client_label \<Rightarrow> raw_pc \<times> quic_client \<Rightarrow> bool" where
  raw_stream_callback: "raw_step (pc, s) (S_stream h ev) (pc, client_on_stream_event h ev s)"
| raw_connection_callback: "raw_step (pc, s) (S_connection c cev) (pc, client_on_connection_event c cev s)"
| raw_sent: "qc_send_done s \<Longrightarrow>
     raw_step (Raw_send_wait fin, s) S_wake (if fin then Raw_answer_wait else Raw_returned True, s)"
| raw_send_timeout: "\<not> qc_send_done s \<Longrightarrow>
     raw_step (Raw_send_wait fin, s) S_timeout (Raw_returned False, abort_stream s)"
| raw_answered: "qc_file_done s \<Longrightarrow> raw_step (Raw_answer_wait, s) S_wake (Raw_returned True, s)"
| raw_unanswered: "\<not> qc_file_done s \<Longrightarrow> raw_step (Raw_answer_wait, s) S_timeout (Raw_returned True, s)"

inductive raw_run :: "raw_pc \<times> quic_client \<Rightarrow> client_label list \<Rightarrow> raw_pc \<times> quic_client \<Rightarrow> bool" where
  raw_nil: "raw_run x [] x"
| raw_cons: "raw_step x l y \<Longrightarrow> raw_run y ls z \<Longrightarrow> raw_run x (l # ls) z"

inductive_simps raw_run_nil: "raw_run x [] y"
inductive_simps raw_run_cons: "raw_run x (l # ls) z"

fun raw_rank :: "raw_pc \<Rightarrow> nat" where
  "raw_rank (Raw_send_wait fin) = 2"
| "raw_rank Raw_answer_wait = 1"
| "raw_rank (Raw_returned b) = 0"

lemma raw_progress:
  assumes "0 < raw_rank pc"
  shows "\<exists>l y. own_send_step l \<and> raw_step (pc, s) l y"
proof -
  have "\<exists>y. raw_step (pc, s) S_wake y \<or> raw_step (pc, s) S_timeout y"
  proof (cases pc)
    case (Raw_send_wait fin)
    then show ?thesis by (cases "qc_send_done s") (blast intro: raw_sent raw_send_timeout)+
  next
    case Raw_answer_wait
    then show ?thesis by (cases "qc_file_done s") (blast intro: raw_answered raw_unanswered)+
  qed (use assms in simp)
  then show ?thesis using own_send_step.simps(1,2) by blast
qed

interpretation raw: blocking_call raw_step raw_run own_send_step "raw_rank \<circ> fst"
proof unfold_locales
  show "\<exists>l y. own_send_step l \<and> raw_step x l y" if "0 < (raw_rank \<circ> fst) x" for x
    using that raw_progress [of "fst x" "snd x"] by simp
qed (auto simp: raw_run_nil raw_run_cons elim: raw_step.cases)

text \<open>At most two steps of its own, and it comes to its end without callbacks.\<close>

lemma raw_ends:
  assumes "raw_run (send_raw_stream E data fin s) ls x"
  shows "length (filter own_send_step ls) \<le> 2"
    and "\<exists>ms y. raw_run x ms y \<and> raw_rank (fst y) = 0"
proof -
  have "raw_rank (fst (send_raw_stream E data fin s)) \<le> 2"
    by (simp add: send_raw_stream_def split: prod.splits)
  then show "length (filter own_send_step ls) \<le> 2"
    using raw.own_steps_bounded [OF assms] by simp
  show "\<exists>ms y. raw_run x ms y \<and> raw_rank (fst y) = 0"
    using raw.returns_alone [of x] by auto
qed

text \<open>Sent data is what counts: with FIN the result is true whatever the answer was.\<close>

lemma raw_answer_ignored:
  "raw_step (Raw_answer_wait, s) l (Raw_returned b, s') \<Longrightarrow> b"
  by (auto elim: raw_step.cases)

end
