(* ===== verification/Gui_Workers.thy ===== *)
theory Gui_Workers
  imports Cli Quic_Server
begin

text \<open>
  The workers of the Qt front end, \<open>src/gui/recv_worker.cpp\<close> and \<open>send_worker.cpp\<close>: each
  \<open>run\<close> is cut where it blocks in the transfer engine, into what it does before and after.
  A worker's actions and the signals it emits are logged in order; the answers of the file
  system, of discovery and of the engine are arguments. Qt is not under src/: a \<open>QString\<close> is
  the expression that builds it, and what \<open>arg\<close>, \<open>trimmed\<close> and \<open>contains\<close> do is a record
  of functions. Texts are UTF-8.
\<close>

section \<open>Texts\<close>

datatype qt_text =
    Str bytes
  | Num int
  | Arg qt_text "qt_text list" \<comment> \<open>\<open>QString::arg\<close> with one or more texts or numbers\<close>
  | Cat qt_text qt_text

record qt_api =
  qt_render :: "qt_text \<Rightarrow> bytes"
  qt_trimmed :: "bytes \<Rightarrow> bytes"
  qt_contains_ci :: "bytes \<Rightarrow> bytes \<Rightarrow> bool"

definition ellipsis :: bytes where
  "ellipsis = [CHR 0xE2, CHR 0x80, CHR 0xA6]"

definition port_num :: "u16 \<Rightarrow> qt_text" where
  "port_num port = Num (uint port)"

section \<open>Signals and actions\<close>

record peer_row =
  pr_name :: bytes
  pr_host :: bytes
  pr_port :: u16

datatype worker_signal =
    Sig_status qt_text
  | Sig_finished bool qt_text
  | Sig_peers "peer_row list" qt_text

datatype worker_event =
    Did cli_action
  | Emit worker_signal

text \<open>The progress callback of both workers: the percentage and the text it posts.\<close>

definition worker_progress :: "u64 \<Rightarrow> u64 \<Rightarrow> int \<times> qt_text" where
  "worker_progress finished of_total =
     (if of_total = 0 then 100 else sint (ucast ((finished * 100) div of_total) :: 32 word),
      Arg (Str ''%1 / %2'') [Str (format_bytes finished), Str (format_bytes of_total)])"

section \<open>Receiving\<close>

text \<open>The answers \<open>RecvWorker::run\<close> gets before it blocks: the folder as an absolute path,
  whether it is a directory once it was created, whether the server listens and the device
  is advertised, and the name of the host if there is one.\<close>

record recv_env =
  re_absolute :: path
  re_directory :: bool
  re_start :: bool
  re_advertise :: bool
  re_host_name :: "bytes option"

definition with_separator :: "path \<Rightarrow> path" where
  "with_separator out =
     (if out = [] \<or> last out \<noteq> CHR ''/'' \<and> last out \<noteq> CHR 0x5C then out @ ''/'' else out)"

definition default_host_name :: "bytes option \<Rightarrow> bytes" where
  "default_host_name answer = (case answer of None \<Rightarrow> ''this device'' | Some n \<Rightarrow> n)"

text \<open>Up to \<open>receive_file\<close>: the log, and the path it is called with if it is called.\<close>

definition recv_worker_begin ::
  "qt_api \<Rightarrow> recv_env \<Rightarrow> bytes \<Rightarrow> bytes \<Rightarrow> u16 \<Rightarrow> worker_event list \<times> path option" where
  "recv_worker_begin Q E out_dir device_name port =
     (if \<not> re_directory E
      then ([Emit (Sig_finished False (Arg (Str ''Save folder is not valid: %1'') [Str out_dir]))], None)
      else
        let out = with_separator (re_absolute E)
        in if \<not> re_start E
           then ([Did (Act_start_server port),
                  Emit (Sig_finished False (Arg (Str ''Failed to listen on port %1'') [port_num port]))], None)
           else
             let name = qt_trimmed Q device_name;
                 shown = (if name = [] then default_host_name (re_host_name E) else name);
                 waiting = (if re_advertise E
                            then Arg (Str (''Waiting for sender'' @ ellipsis @ '' discoverable as \"%1\"'')) [Str shown]
                            else Str (''Waiting for sender'' @ ellipsis @ '' (LAN discovery unavailable)''))
             in ([Did (Act_start_server port), Did (Act_advertise name port), Emit (Sig_status waiting)],
                 Some out))"

definition saved_message :: "file_receive_result \<Rightarrow> qt_text" where
  "saved_message result =
     Arg (Str (''Saved to:'' @ [NL] @ ''%1'' @ [NL, NL] @ ''(%2, SHA-256 verified)''))
       [Str (frr_path result), Str (format_bytes (frr_bytes_received result))]"

text \<open>After \<open>receive_file\<close>, which returned \<open>ok\<close> and left this result.\<close>

definition recv_worker_end :: "path \<Rightarrow> bool \<Rightarrow> file_receive_result \<Rightarrow> worker_event list" where
  "recv_worker_end out ok result =
     [Did (Act_receive out), Did Act_stop_server,
      Emit
        (if \<not> ok then
           (if frr_rejected result then Sig_finished True (Str ''Transfer declined.'')
            else Sig_finished False
                   (if frr_error result \<noteq> []
                    then Cat (Str ''Receive failed.'') (Cat (Str '' '') (Str (frr_error result)))
                    else Str ''Receive failed.''))
         else Sig_finished True (saved_message result))]"

section \<open>Browsing\<close>

definition browse_worker_status :: qt_text where
  "browse_worker_status = Str (''Searching for receivers on the LAN'' @ ellipsis)"

definition browse_worker_rows :: "peer_info list \<Rightarrow> peer_row list" where
  "browse_worker_rows peers =
     map (\<lambda>p. \<lparr>pr_name = pe_name p, pr_host = pe_host p, pr_port = pe_port p\<rparr>) peers"

definition browse_worker_end :: "peer_info list \<Rightarrow> worker_signal" where
  "browse_worker_end peers =
     (let rows = browse_worker_rows peers
      in if rows = []
         then Sig_peers rows (Str ''No receivers found. Start receive mode on the other device.'')
         else Sig_peers rows (Str []))"

section \<open>Sending\<close>

record send_worker_env =
  se_exists :: bool
  se_directory :: bool
  se_connect :: bool

text \<open>\<open>runManual\<close> up to \<open>send_file\<close>, and whether it gets there.\<close>

definition send_worker_begin ::
  "send_worker_env \<Rightarrow> bytes \<Rightarrow> bytes \<Rightarrow> u16 \<Rightarrow> worker_event list \<times> bool" where
  "send_worker_begin E file_path host port =
     (if \<not> se_exists E \<or> se_directory E
      then ([Emit (Sig_finished False (Cat (Str ''File not found: '') (Str file_path)))], False)
      else
        let connecting = Emit (Sig_status
              (Arg (Arg (Str (''Connecting to %1:%2'' @ ellipsis)) [Str host]) [port_num port]))
        in if \<not> se_connect E
           then ([connecting, Did (Act_connect host port),
                  Emit (Sig_finished False
                    (Arg (Arg (Str ''Could not connect to %1:%2'') [Str host]) [port_num port]))], False)
           else ([connecting, Did (Act_connect host port),
                  Emit (Sig_status (Str (''Sending file'' @ ellipsis)))], True))"

text \<open>After \<open>send_file\<close>.\<close>

definition send_worker_end :: "bytes \<Rightarrow> bool \<Rightarrow> bool \<Rightarrow> worker_event list" where
  "send_worker_end file_path ok rejected =
     [Did (Act_send_file file_path), Did Act_disconnect,
      Emit
        (if \<not> ok then
           (if rejected then Sig_finished False (Str ''Transfer rejected by receiver.'')
            else Sig_finished False (Str ''Transfer failed.''))
         else Sig_finished True (Arg (Str ''Sent \"%1\" successfully.'') [Str file_path]))]"

section \<open>Lemmas\<close>

definition signals :: "worker_event list \<Rightarrow> worker_signal list" where
  "signals es = concat (map (\<lambda>e. case e of Emit sg \<Rightarrow> [sg] | Did a \<Rightarrow> []) es)"

lemma signals_simps [simp]:
  "signals [] = []" "signals (Emit sg # es) = sg # signals es" "signals (Did a # es) = signals es"
  by (simp_all add: signals_def)

definition is_end :: "worker_signal \<Rightarrow> bool" where
  "is_end sg = (case sg of Sig_status t \<Rightarrow> False | _ \<Rightarrow> True)"

lemma is_end_simps [simp]:
  "\<not> is_end (Sig_status t)" "is_end (Sig_finished b t)" "is_end (Sig_peers rows t)"
  by (simp_all add: is_end_def)

text \<open>A run that stops early signals its end last; one that goes on has not signalled it.\<close>

lemma recv_begin_signals:
  "recv_worker_begin Q E d n port = (es, None) \<Longrightarrow> \<exists>t. signals es = [Sig_finished False t]"
  "recv_worker_begin Q E d n port = (es, Some out) \<Longrightarrow> \<exists>t. signals es = [Sig_status t]"
  by (auto simp: recv_worker_begin_def Let_def split: if_splits)

lemma recv_end_signals: "\<exists>ok' t. signals (recv_worker_end out ok result) = [Sig_finished ok' t]"
  by (auto simp: recv_worker_end_def)

lemma send_begin_signals:
  "send_worker_begin E f h port = (es, False) \<Longrightarrow>
     \<exists>pre t. signals es = pre @ [Sig_finished False t] \<and> (\<forall>sg \<in> set pre. \<not> is_end sg)"
  "send_worker_begin E f h port = (es, True) \<Longrightarrow> \<forall>sg \<in> set (signals es). \<not> is_end sg"
  by (auto simp: send_worker_begin_def Let_def Cons_eq_append_conv split: if_splits)

lemma send_end_signals: "\<exists>ok' t. signals (send_worker_end f ok rejected) = [Sig_finished ok' t]"
  by (auto simp: send_worker_end_def)

end
