(* ===== verification/Gui_Pages.thy ===== *)
theory Gui_Pages
  imports Gui_Workers
begin

text \<open>
  The pages of the Qt front end, \<open>src/gui/recv_page.cpp\<close> and \<open>send_page.cpp\<close>: what the
  widgets hold, whether they are enabled, and the slots. A slot that opens a message box
  ends there; the box is part of its result, and what follows the box is in \<open>Gui_Session\<close>.
  A thread pointer is modelled by whether it is null; \<open>setValue\<close> of the progress bar is
  recorded as it was called. Layout and icons are not modelled.
\<close>

section \<open>The receive page\<close>

record recv_page =
  rp_out_dir :: bytes
  rp_name :: bytes
  rp_status :: qt_text
  rp_bar :: int
  rp_bar_visible :: bool
  rp_start_enabled :: bool
  rp_back_enabled :: bool
  rp_name_enabled :: bool
  rp_worker_thread :: bool

text \<open>As constructed; \<open>downloads\<close> is the user's download folder, if there is one.\<close>

definition new_recv_page :: "bytes \<Rightarrow> recv_page" where
  "new_recv_page downloads = \<lparr>rp_out_dir = downloads, rp_name = [],
     rp_status = Str ''Pick a folder, then start receiving.'', rp_bar = 0, rp_bar_visible = False,
     rp_start_enabled = True, rp_back_enabled = True, rp_name_enabled = True,
     rp_worker_thread = False\<rparr>"

definition recv_set_busy :: "bool \<Rightarrow> recv_page \<Rightarrow> recv_page" where
  "recv_set_busy busy p = p\<lparr>rp_start_enabled := \<not> busy, rp_back_enabled := \<not> busy,
     rp_name_enabled := \<not> busy\<rparr>"

definition recv_reset :: "recv_page \<Rightarrow> recv_page" where
  "recv_reset p = recv_set_busy False
     (p\<lparr>rp_bar_visible := False, rp_bar := 0,
        rp_status := Str ''Pick a folder, then start receiving.''\<rparr>)"

definition browse_out_dir :: "bytes \<Rightarrow> recv_page \<Rightarrow> recv_page" where
  "browse_out_dir chosen p = (if chosen \<noteq> [] then p\<lparr>rp_out_dir := chosen\<rparr> else p)"

text \<open>What a click on a button that starts a thread does.\<close>

datatype click = Warned qt_text | Ignored | Started

definition start_receive :: "qt_api \<Rightarrow> recv_page \<Rightarrow> click \<times> recv_page" where
  "start_receive Q p =
     (if qt_trimmed Q (rp_out_dir p) = [] then (Warned (Str ''Choose a save folder first.''), p)
      else if rp_worker_thread p then (Ignored, p)
      else (Started, (recv_set_busy True p)\<lparr>rp_bar_visible := True, rp_bar := 0,
                        rp_status := Str (''Starting receiver'' @ ellipsis),
                        rp_worker_thread := True\<rparr>))"

definition offer_question :: "bytes \<Rightarrow> u64 \<Rightarrow> qt_text" where
  "offer_question name n = Arg (Str ''Accept \"%1\" (%2)?'') [Str name, Str (format_bytes n)]"

definition recv_on_status :: "qt_text \<Rightarrow> recv_page \<Rightarrow> recv_page" where
  "recv_on_status t p = p\<lparr>rp_status := t\<rparr>"

definition recv_on_progress :: "int \<Rightarrow> qt_text \<Rightarrow> recv_page \<Rightarrow> recv_page" where
  "recv_on_progress percent detail p = p\<lparr>rp_bar := percent,
     rp_status := Arg (Arg (Str (''Receiving'' @ ellipsis @ '' %1% (%2)'')) [Num percent]) [detail]\<rparr>"

text \<open>The message box \<open>onFinished\<close> opens, if it opens one.\<close>

datatype finish_box = Box_warning qt_text | Box_complete qt_text

definition recv_on_finished :: "qt_api \<Rightarrow> bool \<Rightarrow> qt_text \<Rightarrow> recv_page \<Rightarrow> finish_box option \<times> recv_page" where
  "recv_on_finished Q ok message p =
     (if \<not> ok then Some (Box_warning message)
      else if qt_contains_ci Q (qt_render Q message) ''declined'' then None
      else Some (Box_complete message),
      recv_set_busy False (p\<lparr>rp_bar := (if ok then 100 else rp_bar p), rp_status := message\<rparr>))"

text \<open>On macOS the box of a complete transfer has a second button that shows the file: the second
  line of the message is taken for its path. Opening it changes nothing in the window.\<close>

definition second_line :: "bytes \<Rightarrow> bytes" where
  "second_line t = takeWhile (\<lambda>c. c \<noteq> NL) (drop 1 (dropWhile (\<lambda>c. c \<noteq> NL) t))"

definition reveal_file :: "qt_api \<Rightarrow> bool \<Rightarrow> qt_text \<Rightarrow> path option" where
  "reveal_file Q clicked message =
     (if clicked then
        let path = qt_trimmed Q (second_line (qt_render Q message))
        in if path \<noteq> [] then Some path else None
      else None)"

definition recv_thread_finished :: "recv_page \<Rightarrow> recv_page" where
  "recv_thread_finished p = p\<lparr>rp_worker_thread := False\<rparr>"

section \<open>The send page\<close>

record send_page =
  sp_peers :: "peer_row list"
  sp_current :: "nat option"
  sp_file :: bytes
  sp_host :: bytes
  sp_status :: qt_text
  sp_bar :: int
  sp_bar_visible :: bool
  sp_refresh_enabled :: bool
  sp_send_enabled :: bool
  sp_back_enabled :: bool
  sp_list_enabled :: bool
  sp_host_enabled :: bool
  sp_browse_thread :: bool
  sp_send_thread :: bool

definition searching_text :: qt_text where
  "searching_text = Str (''Searching for receivers on the LAN'' @ ellipsis)"

definition new_send_page :: send_page where
  "new_send_page = \<lparr>sp_peers = [], sp_current = None, sp_file = [], sp_host = [],
     sp_status = searching_text, sp_bar = 0, sp_bar_visible = False, sp_refresh_enabled = True,
     sp_send_enabled = True, sp_back_enabled = True, sp_list_enabled = True, sp_host_enabled = True,
     sp_browse_thread = False, sp_send_thread = False\<rparr>"

definition clear_peers :: "send_page \<Rightarrow> send_page" where
  "clear_peers p = p\<lparr>sp_peers := [], sp_current := None\<rparr>"

definition send_reset :: "send_page \<Rightarrow> send_page" where
  "send_reset p = (clear_peers p)\<lparr>sp_bar_visible := False, sp_bar := 0, sp_file := [], sp_host := [],
     sp_status := searching_text, sp_refresh_enabled := False, sp_send_enabled := True,
     sp_back_enabled := True, sp_list_enabled := True, sp_host_enabled := True\<rparr>"

definition send_set_busy :: "bool \<Rightarrow> send_page \<Rightarrow> send_page" where
  "send_set_busy busy p =
     (let free = (\<not> busy \<and> \<not> sp_send_thread p)
      in p\<lparr>sp_refresh_enabled := free, sp_send_enabled := free, sp_back_enabled := free,
           sp_list_enabled := free, sp_host_enabled := free\<rparr>)"

text \<open>True when a search is started.\<close>

definition refresh_peers :: "send_page \<Rightarrow> bool \<times> send_page" where
  "refresh_peers p =
     (if sp_browse_thread p \<or> sp_send_thread p then (False, p)
      else (True, (clear_peers p)\<lparr>sp_status := Str (''Searching'' @ ellipsis),
                     sp_refresh_enabled := False, sp_browse_thread := True\<rparr>))"

definition browse_file :: "bytes \<Rightarrow> send_page \<Rightarrow> send_page" where
  "browse_file chosen p = (if chosen \<noteq> [] then p\<lparr>sp_file := chosen\<rparr> else p)"

definition selected_peer :: "send_page \<Rightarrow> peer_row option" where
  "selected_peer p =
     (case sp_current p of
        None \<Rightarrow> None
      | Some i \<Rightarrow> if i < length (sp_peers p) then Some (sp_peers p ! i) else None)"

text \<open>\<open>sendFile\<close>: what the click does, and the file, host and port its worker is given.\<close>

definition click_send :: "qt_api \<Rightarrow> send_page \<Rightarrow> click \<times> (bytes \<times> bytes \<times> u16) option \<times> send_page" where
  "click_send Q p =
     (let file_name = qt_trimmed Q (sp_file p); manual_host = qt_trimmed Q (sp_host p);
          peer = selected_peer p
      in if file_name = [] then (Warned (Str ''Choose a file first.''), None, p)
         else if sp_send_thread p then (Ignored, None, p)
         else if manual_host \<noteq> [] \<and> peer \<noteq> None then
           (Warned (Str ''Pick either a device from the list or enter a manual IP, not both.''), None, p)
         else if manual_host = [] \<and> peer = None then
           (Warned (Str ''Select a receiver or enter a manual IP.''), None, p)
         else
           (Started,
            Some (case peer of
                    Some r \<Rightarrow> (file_name, pr_host r, pr_port r)
                  | None \<Rightarrow> (file_name, manual_host, k_default_port)),
            (send_set_busy True p)\<lparr>sp_bar_visible := True, sp_bar := 0, sp_send_thread := True\<rparr>))"

definition send_on_status :: "qt_text \<Rightarrow> send_page \<Rightarrow> send_page" where
  "send_on_status t p = p\<lparr>sp_status := t\<rparr>"

definition on_browse_finished :: "peer_row list \<Rightarrow> qt_text \<Rightarrow> send_page \<Rightarrow> send_page" where
  "on_browse_finished rows error p = (clear_peers p)\<lparr>sp_peers := rows,
     sp_status := (if error \<noteq> Str [] then error
                   else Arg (Str ''Found %1 receiver(s). Select one and send.'') [Num (int (length rows))])\<rparr>"

definition send_on_progress :: "int \<Rightarrow> qt_text \<Rightarrow> send_page \<Rightarrow> send_page" where
  "send_on_progress percent detail p = p\<lparr>sp_bar := percent,
     sp_status := Arg (Arg (Str (''Sending'' @ ellipsis @ '' %1% (%2)'')) [Num percent]) [detail]\<rparr>"

text \<open>\<open>onSendFinished\<close> up to its message box.\<close>

definition send_on_finished :: "bool \<Rightarrow> qt_text \<Rightarrow> send_page \<Rightarrow> send_page" where
  "send_on_finished ok message p = p\<lparr>sp_bar := (if ok then 100 else sp_bar p), sp_status := message\<rparr>"

definition browse_thread_finished :: "send_page \<Rightarrow> send_page" where
  "browse_thread_finished p = p\<lparr>sp_browse_thread := False, sp_refresh_enabled := \<not> sp_send_thread p\<rparr>"

definition send_thread_finished :: "send_page \<Rightarrow> send_page" where
  "send_thread_finished p = send_set_busy False (p\<lparr>sp_send_thread := False\<rparr>)"

end
