(* ===== verification/Gui_Session.thy ===== *)
theory Gui_Session
  imports Gui_Pages
begin

text \<open>
  The front end as a whole: the window of \<open>src/gui/main_window.cpp\<close>, its pages, the threads
  the pages start, and Qt's queued calls between them. Qt is outside the repository; the
  steps rely on what it documents: a signal or \<open>invokeMethod\<close> to an object of another thread
  is queued for that thread, a thread runs its queued calls in order from its event loop
  and so not while a slot of it runs, a message box runs an event loop of its own, and a
  blocking queued call waits for its slot. A step is a partial function of a label, which
  also carries the choices of the outside; a run is a list of labels.
\<close>

section \<open>State\<close>

datatype who = W_recv | W_browse | W_send

text \<open>A worker's thread: not there, started, in \<open>run\<close>, in \<open>run\<close> and blocked on the page's
  answer, and in its event loop after \<open>run\<close>.\<close>

datatype phase = Ph_none | Ph_started | Ph_running | Ph_asking | Ph_idle

datatype call =
    C_status qt_text
  | C_progress int qt_text
  | C_finished bool qt_text
  | C_peers "peer_row list" qt_text
  | C_quit
  | C_thread_finished
  | C_ask bytes u64

datatype dialog =
    Dlg_warning qt_text
  | Dlg_complete qt_text
  | Dlg_sent bool qt_text
  | Dlg_ask bytes u64

datatype shown_page = Home | Recv | Send

text \<open>The window is open, one of the pages' destructors waits for a thread, or all is gone.\<close>

datatype closing = Window_open | Join who | Window_closed

record gui =
  g_shown :: shown_page
  g_recv :: recv_page
  g_send :: send_page
  g_queue :: "(who \<times> call) list" \<comment> \<open>calls queued for the GUI thread\<close>
  g_dialogs :: "dialog list" \<comment> \<open>open message boxes, the innermost first\<close>
  g_phase :: "who \<Rightarrow> phase"
  g_quit :: "who \<Rightarrow> bool"
  g_backlog :: "(int \<times> qt_text) list" \<comment> \<open>calls queued for the send worker\<close>
  g_job :: "bytes \<times> bytes \<times> u16"
  g_path :: path
  g_answers :: "bool list" \<comment> \<open>what the user said to offers\<close>
  g_log :: "(who \<times> worker_event) list"
  g_closing :: closing

definition new_gui :: "bytes \<Rightarrow> gui" where
  "new_gui downloads = \<lparr>g_shown = Home, g_recv = new_recv_page downloads, g_send = new_send_page,
     g_queue = [], g_dialogs = [], g_phase = (\<lambda>_. Ph_none), g_quit = (\<lambda>_. False), g_backlog = [],
     g_job = ([], [], 0), g_path = [], g_answers = [], g_log = [], g_closing = Window_open\<rparr>"

section \<open>Threads\<close>

definition has_thread :: "who \<Rightarrow> gui \<Rightarrow> bool" where
  "has_thread w g = (case w of
     W_recv \<Rightarrow> rp_worker_thread (g_recv g)
   | W_browse \<Rightarrow> sp_browse_thread (g_send g)
   | W_send \<Rightarrow> sp_send_thread (g_send g))"

definition set_phase :: "who \<Rightarrow> phase \<Rightarrow> gui \<Rightarrow> gui" where
  "set_phase w ph g = g\<lparr>g_phase := (g_phase g)(w := ph)\<rparr>"

definition post :: "who \<Rightarrow> call list \<Rightarrow> gui \<Rightarrow> gui" where
  "post w cs g = g\<lparr>g_queue := g_queue g @ map (Pair w) cs\<rparr>"

text \<open>A new \<open>QThread\<close>.\<close>

definition start_thread :: "who \<Rightarrow> gui \<Rightarrow> gui" where
  "start_thread w g = (set_phase w Ph_started g)\<lparr>g_quit := (g_quit g)(w := False)\<rparr>"

text \<open>What a signal is connected to: \<open>finished\<close> ends in the page's slot and in \<open>quit\<close>.\<close>

definition connected :: "worker_signal \<Rightarrow> call list" where
  "connected sg = (case sg of
     Sig_status t \<Rightarrow> [C_status t]
   | Sig_finished ok t \<Rightarrow> [C_finished ok t, C_quit]
   | Sig_peers rows t \<Rightarrow> [C_peers rows t, C_quit])"

definition emit_events :: "who \<Rightarrow> worker_event list \<Rightarrow> gui \<Rightarrow> gui" where
  "emit_events w es g =
     (post w (concat (map connected (signals es))) g)\<lparr>g_log := g_log g @ map (Pair w) es\<rparr>"

section \<open>Slots\<close>

definition open_dialog :: "dialog \<Rightarrow> gui \<Rightarrow> gui" where
  "open_dialog d g = g\<lparr>g_dialogs := d # g_dialogs g\<rparr>"

definition call_recv :: "qt_api \<Rightarrow> call \<Rightarrow> gui \<Rightarrow> gui" where
  "call_recv Q c g = (case c of
     C_status t \<Rightarrow> g\<lparr>g_recv := recv_on_status t (g_recv g)\<rparr>
   | C_progress percent detail \<Rightarrow> g\<lparr>g_recv := recv_on_progress percent detail (g_recv g)\<rparr>
   | C_finished ok message \<Rightarrow>
       (case recv_on_finished Q ok message (g_recv g) of
          (box, p) \<Rightarrow>
            (case box of
               None \<Rightarrow> g\<lparr>g_recv := p\<rparr>
             | Some (Box_warning t) \<Rightarrow> open_dialog (Dlg_warning t) (g\<lparr>g_recv := p\<rparr>)
             | Some (Box_complete t) \<Rightarrow> open_dialog (Dlg_complete t) (g\<lparr>g_recv := p\<rparr>)))
   | C_peers rows t \<Rightarrow> g
   | C_quit \<Rightarrow> g\<lparr>g_quit := (g_quit g)(W_recv := True)\<rparr>
   | C_thread_finished \<Rightarrow> g\<lparr>g_recv := recv_thread_finished (g_recv g)\<rparr>
   | C_ask name n \<Rightarrow> open_dialog (Dlg_ask name n) g)"

definition call_browse :: "call \<Rightarrow> gui \<Rightarrow> gui" where
  "call_browse c g = (case c of
     C_status t \<Rightarrow> g\<lparr>g_send := send_on_status t (g_send g)\<rparr>
   | C_peers rows t \<Rightarrow> g\<lparr>g_send := on_browse_finished rows t (g_send g)\<rparr>
   | C_quit \<Rightarrow> g\<lparr>g_quit := (g_quit g)(W_browse := True)\<rparr>
   | C_thread_finished \<Rightarrow> g\<lparr>g_send := browse_thread_finished (g_send g)\<rparr>
   | _ \<Rightarrow> g)"

definition call_send :: "call \<Rightarrow> gui \<Rightarrow> gui" where
  "call_send c g = (case c of
     C_status t \<Rightarrow> g\<lparr>g_send := send_on_status t (g_send g)\<rparr>
   | C_progress percent detail \<Rightarrow> g\<lparr>g_send := send_on_progress percent detail (g_send g)\<rparr>
   | C_finished ok message \<Rightarrow>
       open_dialog (Dlg_sent ok message) (g\<lparr>g_send := send_on_finished ok message (g_send g)\<rparr>)
   | C_quit \<Rightarrow> g\<lparr>g_quit := (g_quit g)(W_send := True)\<rparr>
   | C_thread_finished \<Rightarrow> g\<lparr>g_send := send_thread_finished (g_send g)\<rparr>
   | _ \<Rightarrow> g)"

definition dispatch_call :: "qt_api \<Rightarrow> who \<Rightarrow> call \<Rightarrow> gui \<Rightarrow> gui" where
  "dispatch_call Q w c g = (case w of
     W_recv \<Rightarrow> call_recv Q c g | W_browse \<Rightarrow> call_browse c g | W_send \<Rightarrow> call_send c g)"

section \<open>The window\<close>

definition show_home :: "gui \<Rightarrow> gui" where
  "show_home g = g\<lparr>g_shown := Home\<rparr>"

definition show_receive :: "gui \<Rightarrow> gui" where
  "show_receive g = g\<lparr>g_recv := recv_reset (g_recv g), g_shown := Recv\<rparr>"

definition refresh :: "gui \<Rightarrow> gui" where
  "refresh g = (case refresh_peers (g_send g) of
     (started, p) \<Rightarrow> (if started then start_thread W_browse (g\<lparr>g_send := p\<rparr>) else g\<lparr>g_send := p\<rparr>))"

definition show_send :: "gui \<Rightarrow> gui" where
  "show_send g = refresh (g\<lparr>g_send := send_reset (g_send g), g_shown := Send\<rparr>)"

text \<open>What follows a message box when the user closes it. The answer to an offer goes back
  to the worker that waits for it.\<close>

definition after_dialog :: "dialog \<Rightarrow> bool \<Rightarrow> gui \<Rightarrow> gui" where
  "after_dialog d answer g = (case d of
     Dlg_warning t \<Rightarrow> g
   | Dlg_complete t \<Rightarrow> show_home g
   | Dlg_sent ok t \<Rightarrow> show_home g
   | Dlg_ask name n \<Rightarrow> set_phase W_recv Ph_running (g\<lparr>g_answers := g_answers g @ [answer]\<rparr>))"

definition click_start :: "qt_api \<Rightarrow> gui \<Rightarrow> gui" where
  "click_start Q g = (case start_receive Q (g_recv g) of
     (Warned t, p) \<Rightarrow> open_dialog (Dlg_warning t) (g\<lparr>g_recv := p\<rparr>)
   | (Ignored, p) \<Rightarrow> g\<lparr>g_recv := p\<rparr>
   | (Started, p) \<Rightarrow> start_thread W_recv (g\<lparr>g_recv := p\<rparr>))"

definition click_send_file :: "qt_api \<Rightarrow> gui \<Rightarrow> gui" where
  "click_send_file Q g = (case click_send Q (g_send g) of
     (c, job, p) \<Rightarrow>
       (case c of
          Warned t \<Rightarrow> open_dialog (Dlg_warning t) (g\<lparr>g_send := p\<rparr>)
        | Ignored \<Rightarrow> g\<lparr>g_send := p\<rparr>
        | Started \<Rightarrow> (start_thread W_send (g\<lparr>g_send := p\<rparr>))\<lparr>g_job := the job, g_backlog := []\<rparr>))"

text \<open>Closing the window ends the event loop and destroys the pages, which tell their
  threads to quit and wait for them: the receive page first, then the send page.\<close>

definition join :: "who \<Rightarrow> gui \<Rightarrow> gui" where
  "join w g = g\<lparr>g_closing := Join w,
     g_quit := (if has_thread w g then (g_quit g)(w := True) else g_quit g)\<rparr>"

definition joined :: "who \<Rightarrow> gui \<Rightarrow> gui" where
  "joined w g = (case w of
     W_recv \<Rightarrow> join W_browse g
   | W_browse \<Rightarrow> join W_send g
   | W_send \<Rightarrow> g\<lparr>g_closing := Window_closed\<rparr>)"

section \<open>Steps\<close>

datatype gui_label =
    \<comment> \<open>the user\<close>
    U_receive | U_send | U_back
  | U_folder bytes | U_name bytes | U_start
  | U_refresh | U_file bytes | U_select nat | U_host bytes | U_send_file
  | U_answer bool | U_close
    \<comment> \<open>the GUI thread\<close>
  | G_deliver | G_joined
    \<comment> \<open>the workers' threads\<close>
  | T_recv_begin recv_env | T_offer bytes u64 | T_recv_progress u64 u64
  | T_recv_end bool file_receive_result
  | T_browse_begin | T_browse_end "peer_info list"
  | T_send_begin send_worker_env | T_send_progress u64 u64 | T_send_end bool bool
  | T_report | T_exit who

text \<open>The user can act on the page shown, unless a message box is open.\<close>

definition user_at :: "shown_page \<Rightarrow> gui \<Rightarrow> bool" where
  "user_at pg g \<longleftrightarrow> g_closing g = Window_open \<and> g_dialogs g = [] \<and> g_shown g = pg"

definition only_if :: "bool \<Rightarrow> 'a \<Rightarrow> 'a option" where
  "only_if b x = (if b then Some x else None)"

definition user_step :: "qt_api \<Rightarrow> gui_label \<Rightarrow> gui \<Rightarrow> gui option" where
  "user_step Q l g = (case l of
     U_receive \<Rightarrow> only_if (user_at Home g) (show_receive g)
   | U_send \<Rightarrow> only_if (user_at Home g) (show_send g)
   | U_back \<Rightarrow> only_if (user_at Recv g \<and> rp_back_enabled (g_recv g)
                    \<or> user_at Send g \<and> sp_back_enabled (g_send g)) (show_home g)
   | U_folder d \<Rightarrow> only_if (user_at Recv g) (g\<lparr>g_recv := browse_out_dir d (g_recv g)\<rparr>)
   | U_name n \<Rightarrow> only_if (user_at Recv g \<and> rp_name_enabled (g_recv g))
                    (g\<lparr>g_recv := (g_recv g)\<lparr>rp_name := n\<rparr>\<rparr>)
   | U_start \<Rightarrow> only_if (user_at Recv g \<and> rp_start_enabled (g_recv g)) (click_start Q g)
   | U_refresh \<Rightarrow> only_if (user_at Send g \<and> sp_refresh_enabled (g_send g)) (refresh g)
   | U_file f \<Rightarrow> only_if (user_at Send g) (g\<lparr>g_send := browse_file f (g_send g)\<rparr>)
   | U_select i \<Rightarrow> only_if (user_at Send g \<and> sp_list_enabled (g_send g) \<and> i < length (sp_peers (g_send g)))
                    (g\<lparr>g_send := (g_send g)\<lparr>sp_current := Some i\<rparr>\<rparr>)
   | U_host h \<Rightarrow> only_if (user_at Send g \<and> sp_host_enabled (g_send g))
                    (g\<lparr>g_send := (g_send g)\<lparr>sp_host := h\<rparr>\<rparr>)
   | U_send_file \<Rightarrow> only_if (user_at Send g \<and> sp_send_enabled (g_send g)) (click_send_file Q g)
   | U_answer b \<Rightarrow> (case g_dialogs g of
                      [] \<Rightarrow> None
                    | d # ds \<Rightarrow> only_if (g_closing g = Window_open) (after_dialog d b (g\<lparr>g_dialogs := ds\<rparr>)))
   | U_close \<Rightarrow> only_if (g_closing g = Window_open \<and> g_dialogs g = []) (join W_recv g)
   | _ \<Rightarrow> None)"

text \<open>The workers. \<open>RecvWorker::run\<close> is called with what the page shows when its thread
  starts, not when it was clicked; the send worker with what was captured at the click.\<close>

definition recv_begin :: "qt_api \<Rightarrow> recv_env \<Rightarrow> gui \<Rightarrow> gui" where
  "recv_begin Q E g =
     (case recv_worker_begin Q E (qt_trimmed Q (rp_out_dir (g_recv g))) (rp_name (g_recv g)) k_default_port of
        (es, out) \<Rightarrow>
          (case out of
             None \<Rightarrow> set_phase W_recv Ph_idle (emit_events W_recv es g)
           | Some p \<Rightarrow> (set_phase W_recv Ph_running (emit_events W_recv es g))\<lparr>g_path := p\<rparr>))"

definition send_begin :: "send_worker_env \<Rightarrow> gui \<Rightarrow> gui" where
  "send_begin E g =
     (case g_job g of (f, host, port) \<Rightarrow>
        (case send_worker_begin E f host port of
           (es, goes_on) \<Rightarrow>
             set_phase W_send (if goes_on then Ph_running else Ph_idle) (emit_events W_send es g)))"

text \<open>The callbacks the workers pass to the engine: a blocking call for an offer, a queued
  call to the page for the progress of a receive, and to the send worker itself for the
  progress of a send, whose slot passes it on to the page.\<close>

definition offer_callback :: "bytes \<Rightarrow> u64 \<Rightarrow> gui \<Rightarrow> gui" where
  "offer_callback name n g = set_phase W_recv Ph_asking (post W_recv [C_ask name n] g)"

definition recv_progress_callback :: "u64 \<Rightarrow> u64 \<Rightarrow> gui \<Rightarrow> gui" where
  "recv_progress_callback n m g =
     (case worker_progress n m of (pct, detail) \<Rightarrow> post W_recv [C_progress pct detail] g)"

definition send_progress_callback :: "u64 \<Rightarrow> u64 \<Rightarrow> gui \<Rightarrow> gui" where
  "send_progress_callback n m g = g\<lparr>g_backlog := g_backlog g @ [worker_progress n m]\<rparr>"

definition report_progress_slot :: "int \<Rightarrow> qt_text \<Rightarrow> gui \<Rightarrow> gui" where
  "report_progress_slot percent detail g = post W_send [C_progress percent detail] g"

definition thread_step :: "qt_api \<Rightarrow> gui_label \<Rightarrow> gui \<Rightarrow> gui option" where
  "thread_step Q l g = (case l of
     T_recv_begin E \<Rightarrow> only_if (g_phase g W_recv = Ph_started) (recv_begin Q E g)
   | T_offer name n \<Rightarrow> only_if (g_phase g W_recv = Ph_running)
       (offer_callback name n g)
   | T_recv_progress n m \<Rightarrow> only_if (g_phase g W_recv = Ph_running)
       (recv_progress_callback n m g)
   | T_recv_end ok result \<Rightarrow> only_if (g_phase g W_recv = Ph_running)
       (set_phase W_recv Ph_idle (emit_events W_recv (recv_worker_end (g_path g) ok result) g))
   | T_browse_begin \<Rightarrow> only_if (g_phase g W_browse = Ph_started)
       (set_phase W_browse Ph_running (emit_events W_browse [Emit (Sig_status browse_worker_status), Did Act_browse] g))
   | T_browse_end peers \<Rightarrow> only_if (g_phase g W_browse = Ph_running)
       (set_phase W_browse Ph_idle (emit_events W_browse [Emit (browse_worker_end peers)] g))
   | T_send_begin E \<Rightarrow> only_if (g_phase g W_send = Ph_started) (send_begin E g)
   | T_send_progress n m \<Rightarrow> only_if (g_phase g W_send = Ph_running)
       (send_progress_callback n m g)
   | T_send_end ok rejected \<Rightarrow> only_if (g_phase g W_send = Ph_running)
       (set_phase W_send Ph_idle (emit_events W_send (send_worker_end (fst (g_job g)) ok rejected) g))
   | T_report \<Rightarrow> (case g_backlog g of
                     [] \<Rightarrow> None
                   | (pct, detail) # rest \<Rightarrow> only_if (g_phase g W_send = Ph_idle)
                       (report_progress_slot pct detail (g\<lparr>g_backlog := rest\<rparr>)))
   | T_exit w \<Rightarrow> only_if (g_phase g w = Ph_idle \<and> g_quit g w)
       (set_phase w Ph_none (post w [C_thread_finished] g))
   | _ \<Rightarrow> None)"

lemmas thread_step_defs = thread_step_def offer_callback_def recv_progress_callback_def
  send_progress_callback_def report_progress_slot_def

text \<open>The GUI thread: its event loop, or the wait of a destructor.\<close>

definition loop_step :: "qt_api \<Rightarrow> gui_label \<Rightarrow> gui \<Rightarrow> gui option" where
  "loop_step Q l g = (case l of
     G_deliver \<Rightarrow> (case g_queue g of
                      [] \<Rightarrow> None
                    | (w, c) # q \<Rightarrow> only_if (g_closing g = Window_open) (dispatch_call Q w c (g\<lparr>g_queue := q\<rparr>)))
   | G_joined \<Rightarrow> (case g_closing g of
                     Join w \<Rightarrow> only_if (\<not> has_thread w g \<or> g_phase g w = Ph_none) (joined w g)
                   | _ \<Rightarrow> None)
   | _ \<Rightarrow> None)"

definition gui_step :: "qt_api \<Rightarrow> gui_label \<Rightarrow> gui \<Rightarrow> gui option" where
  "gui_step Q l g =
     (case user_step Q l g of
        Some g' \<Rightarrow> Some g'
      | None \<Rightarrow> (case loop_step Q l g of Some g' \<Rightarrow> Some g' | None \<Rightarrow> thread_step Q l g))"

fun gui_run :: "qt_api \<Rightarrow> gui_label list \<Rightarrow> gui \<Rightarrow> gui option" where
  "gui_run Q [] g = Some g"
| "gui_run Q (l # ls) g = Option.bind (gui_step Q l g) (gui_run Q ls)"

end
