(* ===== verification/Gui_Facts.thy ===== *)
theory Gui_Facts
  imports Gui_Session
begin

text \<open>
  Invariants of the front end. \<open>thread_ok\<close> relates the phase of a thread, the calls queued
  on its behalf, the page's pointer to it and its quit flag, in the same way for the three
  threads. \<open>pages_ok\<close> says that the page of a running transfer is shown with its buttons
  disabled, and \<open>still_bar\<close> that no progress of a running send has reached its page.
\<close>

section \<open>What is observed of a thread\<close>

definition calls :: "who \<Rightarrow> gui \<Rightarrow> call list" where
  "calls w g = map snd (filter (\<lambda>e. fst e = w) (g_queue g))"

definition in_run :: "phase \<Rightarrow> bool" where
  "in_run ph \<longleftrightarrow> ph = Ph_started \<or> ph = Ph_running \<or> ph = Ph_asking"

lemma in_run_simps [simp]:
  "in_run Ph_started" "in_run Ph_running" "in_run Ph_asking" "\<not> in_run Ph_none" "\<not> in_run Ph_idle"
  by (simp_all add: in_run_def)

definition ends_run :: "call \<Rightarrow> bool" where
  "ends_run c = (case c of C_finished ok t \<Rightarrow> True | C_peers rows t \<Rightarrow> True | C_quit \<Rightarrow> True
     | C_thread_finished \<Rightarrow> True | _ \<Rightarrow> False)"

lemma ends_run_simps [simp]:
  "\<not> ends_run (C_status t)" "\<not> ends_run (C_progress p t)" "\<not> ends_run (C_ask n k)"
  "ends_run (C_finished ok t)" "ends_run (C_peers rows t)" "ends_run C_quit" "ends_run C_thread_finished"
  by (simp_all add: ends_run_def)

text \<open>The phase, the queued calls, the page's pointer and the quit flag of a thread.\<close>

definition thread_ok :: "phase \<Rightarrow> call list \<Rightarrow> bool \<Rightarrow> bool \<Rightarrow> bool" where
  "thread_ok ph cs pointer quit =
     (case ph of
        Ph_none \<Rightarrow> if pointer then cs \<noteq> [] \<and> last cs = C_thread_finished \<and> C_thread_finished \<notin> set (butlast cs)
                  else cs = []
      | Ph_idle \<Rightarrow> pointer \<and> C_thread_finished \<notin> set cs \<and> (quit \<or> C_quit \<in> set cs)
      | _ \<Rightarrow> pointer \<and> (\<forall>c \<in> set cs. \<not> ends_run c))"

definition threads_ok :: "gui \<Rightarrow> bool" where
  "threads_ok g \<longleftrightarrow> (\<forall>w. thread_ok (g_phase g w) (calls w g) (has_thread w g) (g_quit g w))"

lemma thread_okD:
  "thread_ok ph cs pointer quit \<Longrightarrow> in_run ph \<Longrightarrow> pointer \<and> (\<forall>c \<in> set cs. \<not> ends_run c)"
  "thread_ok ph cs pointer quit \<Longrightarrow> \<not> pointer \<Longrightarrow> ph = Ph_none \<and> cs = []"
  by (cases ph; simp add: thread_ok_def split: if_splits)+

text \<open>How the queue of a thread moves.\<close>

lemma thread_ok_post:
  "thread_ok ph cs pointer quit \<Longrightarrow> in_run ph \<Longrightarrow> in_run ph' \<Longrightarrow> \<forall>c \<in> set ds. \<not> ends_run c \<Longrightarrow>
   thread_ok ph' (cs @ ds) pointer quit'"
  by (cases ph; cases ph') (auto simp: thread_ok_def)

lemma thread_ok_end:
  "thread_ok ph cs pointer quit \<Longrightarrow> in_run ph \<Longrightarrow> C_thread_finished \<notin> set ds \<Longrightarrow> C_quit \<in> set ds \<Longrightarrow>
   thread_ok Ph_idle (cs @ ds) pointer quit"
  by (cases ph) (auto simp: thread_ok_def)

lemma thread_ok_deliver:
  "thread_ok ph (c # cs) pointer quit \<Longrightarrow>
   thread_ok ph cs (if c = C_thread_finished then False else pointer) (if c = C_quit then True else quit)"
  by (cases ph; cases cs) (auto simp: thread_ok_def split: if_splits)

lemma thread_ok_quit: "thread_ok ph cs pointer quit \<Longrightarrow> thread_ok ph cs pointer True"
  by (cases ph) (auto simp: thread_ok_def)

lemma thread_ok_exit:
  "thread_ok Ph_idle cs pointer quit \<Longrightarrow> thread_ok Ph_none (cs @ [C_thread_finished]) pointer quit"
  by (auto simp: thread_ok_def)

lemma thread_ok_start: "thread_ok ph cs False quit \<Longrightarrow> thread_ok Ph_started cs True False"
  by (cases ph) (auto simp: thread_ok_def)

section \<open>Observations of the operations\<close>

lemma calls_post [simp]: "calls w (post w' cs g) = (if w = w' then calls w g @ cs else calls w g)"
  by (induction cs) (auto simp: calls_def post_def)

lemma post_frame [simp]:
  "g_phase (post w cs g) = g_phase g" "has_thread v (post w cs g) = has_thread v g"
  "g_quit (post w cs g) = g_quit g" "g_recv (post w cs g) = g_recv g" "g_send (post w cs g) = g_send g"
  "g_shown (post w cs g) = g_shown g" "g_dialogs (post w cs g) = g_dialogs g"
  "g_closing (post w cs g) = g_closing g" "g_backlog (post w cs g) = g_backlog g"
  "g_job (post w cs g) = g_job g" "g_path (post w cs g) = g_path g" "g_log (post w cs g) = g_log g"
  by (simp_all add: post_def has_thread_def split: who.split)

lemma set_phase_frame [simp]:
  "g_phase (set_phase w ph g) = (g_phase g)(w := ph)" "calls v (set_phase w ph g) = calls v g"
  "has_thread v (set_phase w ph g) = has_thread v g"
  "g_quit (set_phase w ph g) = g_quit g" "g_recv (set_phase w ph g) = g_recv g"
  "g_send (set_phase w ph g) = g_send g" "g_shown (set_phase w ph g) = g_shown g"
  "g_dialogs (set_phase w ph g) = g_dialogs g" "g_closing (set_phase w ph g) = g_closing g"
  "g_backlog (set_phase w ph g) = g_backlog g" "g_queue (set_phase w ph g) = g_queue g"
  by (simp_all add: set_phase_def calls_def has_thread_def split: who.split)

lemma set_phase_same: "g_phase g w = ph \<Longrightarrow> set_phase w ph g = g"
  by (cases g) (auto simp: set_phase_def)

lemma emit_frame [simp]:
  "calls v (emit_events w es g) =
     (if v = w then calls v g @ concat (map connected (signals es)) else calls v g)"
  "g_phase (emit_events w es g) = g_phase g" "has_thread v (emit_events w es g) = has_thread v g"
  "g_quit (emit_events w es g) = g_quit g" "g_recv (emit_events w es g) = g_recv g"
  "g_send (emit_events w es g) = g_send g" "g_shown (emit_events w es g) = g_shown g"
  "g_dialogs (emit_events w es g) = g_dialogs g" "g_closing (emit_events w es g) = g_closing g"
  "g_backlog (emit_events w es g) = g_backlog g" "g_job (emit_events w es g) = g_job g"
  using calls_post [of v w "concat (map connected (signals es))" g]
  by (simp_all add: emit_events_def calls_def has_thread_def split: who.split)

lemma connected_simps [simp]:
  "connected (Sig_status t) = [C_status t]" "connected (Sig_finished ok t) = [C_finished ok t, C_quit]"
  "connected (Sig_peers rows t) = [C_peers rows t, C_quit]"
  by (simp_all add: connected_def)

lemma not_ending: "\<not> is_end sg \<Longrightarrow> c \<in> set (connected sg) \<Longrightarrow> \<not> ends_run c"
  by (cases sg) auto

lemma has_thread_simps [simp]:
  "has_thread W_recv g = rp_worker_thread (g_recv g)" "has_thread W_browse g = sp_browse_thread (g_send g)"
  "has_thread W_send g = sp_send_thread (g_send g)"
  by (simp_all add: has_thread_def)

lemma calls_frame [simp]:
  "calls w (g\<lparr>g_recv := p\<rparr>) = calls w g" "calls w (g\<lparr>g_send := sp\<rparr>) = calls w g"
  "calls w (g\<lparr>g_shown := sh\<rparr>) = calls w g" "calls w (g\<lparr>g_dialogs := ds\<rparr>) = calls w g"
  "calls w (g\<lparr>g_quit := qt\<rparr>) = calls w g" "calls w (g\<lparr>g_backlog := bl\<rparr>) = calls w g"
  "calls w (g\<lparr>g_job := jb\<rparr>) = calls w g" "calls w (g\<lparr>g_path := pt\<rparr>) = calls w g"
  "calls w (g\<lparr>g_closing := cl\<rparr>) = calls w g" "calls w (g\<lparr>g_answers := an\<rparr>) = calls w g"
  "calls w (g\<lparr>g_log := lg\<rparr>) = calls w g"
  by (simp_all add: calls_def)

lemma has_thread_frame [simp]:
  "has_thread w (g\<lparr>g_queue := cq\<rparr>) = has_thread w g"
  "has_thread w (g\<lparr>g_shown := sh\<rparr>) = has_thread w g" "has_thread w (g\<lparr>g_dialogs := ds\<rparr>) = has_thread w g"
  "has_thread w (g\<lparr>g_quit := qt\<rparr>) = has_thread w g" "has_thread w (g\<lparr>g_backlog := bl\<rparr>) = has_thread w g"
  "has_thread w (g\<lparr>g_job := jb\<rparr>) = has_thread w g" "has_thread w (g\<lparr>g_path := pt\<rparr>) = has_thread w g"
  "has_thread w (g\<lparr>g_closing := cl\<rparr>) = has_thread w g" "has_thread w (g\<lparr>g_answers := an\<rparr>) = has_thread w g"
  by (simp_all add: has_thread_def cong: who.case_cong)

lemma calls_head:
  assumes "g_queue g = (w, c) # q"
  shows "calls v g = (if v = w then [c] else []) @ calls v (g\<lparr>g_queue := q\<rparr>)"
  using assms by (simp add: calls_def)

text \<open>The pointers the slots leave.\<close>

lemma recv_pointer [simp]:
  "rp_worker_thread (recv_set_busy b p) = rp_worker_thread p"
  "rp_worker_thread (recv_reset p) = rp_worker_thread p"
  "rp_worker_thread (browse_out_dir d p) = rp_worker_thread p"
  "rp_worker_thread (recv_on_status t p) = rp_worker_thread p"
  "rp_worker_thread (recv_on_progress pc t p) = rp_worker_thread p"
  "rp_worker_thread (snd (recv_on_finished Q ok t p)) = rp_worker_thread p"
  "\<not> rp_worker_thread (recv_thread_finished p)"
  by (simp_all add: recv_set_busy_def recv_reset_def browse_out_dir_def recv_on_status_def
      recv_on_progress_def recv_on_finished_def recv_thread_finished_def)

lemma send_pointers [simp]:
  "sp_send_thread (send_reset p) = sp_send_thread p" "sp_browse_thread (send_reset p) = sp_browse_thread p"
  "sp_send_thread (browse_file f p) = sp_send_thread p" "sp_browse_thread (browse_file f p) = sp_browse_thread p"
  "sp_send_thread (send_on_status t p) = sp_send_thread p"
  "sp_browse_thread (send_on_status t p) = sp_browse_thread p"
  "sp_send_thread (send_on_progress pc t p) = sp_send_thread p"
  "sp_browse_thread (send_on_progress pc t p) = sp_browse_thread p"
  "sp_send_thread (send_on_finished ok t p) = sp_send_thread p"
  "sp_browse_thread (send_on_finished ok t p) = sp_browse_thread p"
  "sp_send_thread (on_browse_finished rows t p) = sp_send_thread p"
  "sp_browse_thread (on_browse_finished rows t p) = sp_browse_thread p"
  "sp_send_thread (browse_thread_finished p) = sp_send_thread p"
  "\<not> sp_browse_thread (browse_thread_finished p)"
  "\<not> sp_send_thread (send_thread_finished p)"
  "sp_browse_thread (send_thread_finished p) = sp_browse_thread p"
  by (simp_all add: send_reset_def clear_peers_def browse_file_def send_on_status_def send_on_progress_def
      send_on_finished_def on_browse_finished_def browse_thread_finished_def send_thread_finished_def
      send_set_busy_def Let_def)

section \<open>Threads and their calls\<close>

lemma threads_okD: "threads_ok g \<Longrightarrow> thread_ok (g_phase g w) (calls w g) (has_thread w g) (g_quit g w)"
  by (simp add: threads_ok_def)

text \<open>A step that changes what is observed of one thread only.\<close>

lemma threads_ok_at:
  assumes "threads_ok g"
    and "thread_ok (g_phase g' w) (calls w g') (has_thread w g') (g_quit g' w)"
    and "\<And>v. v \<noteq> w \<Longrightarrow> g_phase g' v = g_phase g v \<and> calls v g' = calls v g
           \<and> has_thread v g' = has_thread v g \<and> g_quit g' v = g_quit g v"
  shows "threads_ok g'"
  unfolding threads_ok_def
proof
  fix v
  show "thread_ok (g_phase g' v) (calls v g') (has_thread v g') (g_quit g' v)"
    using assms(2) assms(3) [of v] threads_okD [OF assms(1), of v] by (cases "v = w") simp_all
qed

lemma threads_ok_same:
  assumes "threads_ok g"
    and "\<And>v. g_phase g' v = g_phase g v \<and> calls v g' = calls v g
           \<and> has_thread v g' = has_thread v g \<and> g_quit g' v = g_quit g v"
  shows "threads_ok g'"
  using assms by (simp add: threads_ok_def)

text \<open>A run that begins or ends posts its signals.\<close>

lemma threads_ok_emit:
  assumes "threads_ok g" and "in_run (g_phase g w)"
    and "ph = Ph_idle \<and> (\<exists>pre sg. signals es = pre @ [sg] \<and> is_end sg)
         \<or> in_run ph \<and> (\<forall>sg \<in> set (signals es). \<not> is_end sg)"
  shows "threads_ok (set_phase w ph (emit_events w es g))"
  using assms(1)
proof (rule threads_ok_at [where w = w])
  note ok = threads_okD [OF assms(1), of w]
  from assms(3) have "thread_ok ph (calls w g @ concat (map connected (signals es))) (has_thread w g) (g_quit g w)"
  proof (elim disjE conjE exE)
    fix pre sg assume p: "ph = Ph_idle" "signals es = pre @ [sg]" "is_end sg"
    have "C_quit \<in> set (connected sg)" using p(3) by (cases sg) auto
    moreover have "C_thread_finished \<notin> set (connected s)" for s by (cases s) auto
    ultimately show ?thesis using p by (intro thread_ok_end [OF ok assms(2), folded p(1)]) auto
  next
    assume "in_run ph" and "\<forall>sg \<in> set (signals es). \<not> is_end sg"
    then show ?thesis using not_ending by (intro thread_ok_post [OF ok assms(2)]) auto
  qed
  then show "thread_ok (g_phase (set_phase w ph (emit_events w es g)) w)
      (calls w (set_phase w ph (emit_events w es g))) (has_thread w (set_phase w ph (emit_events w es g)))
      (g_quit (set_phase w ph (emit_events w es g)) w)"
    by (simp del: has_thread_simps)
qed (simp del: has_thread_simps)

lemma threads_ok_post:
  assumes "threads_ok g" and "in_run (g_phase g w)" and "in_run ph" and "\<forall>c \<in> set cs. \<not> ends_run c"
  shows "threads_ok (set_phase w ph (post w cs g))"
  using assms(1)
  by (rule threads_ok_at [where w = w])
    (use thread_ok_post [OF threads_okD [OF assms(1)] assms(2,3,4)] in \<open>simp_all del: has_thread_simps\<close>)

lemma threads_ok_path [simp]:
  "threads_ok (g\<lparr>g_path := p\<rparr>) = threads_ok g" "threads_ok (g\<lparr>g_backlog := b\<rparr>) = threads_ok g"
  "threads_ok (g\<lparr>g_job := j\<rparr>) = threads_ok g" "threads_ok (g\<lparr>g_shown := sh\<rparr>) = threads_ok g"
  "threads_ok (g\<lparr>g_dialogs := ds\<rparr>) = threads_ok g" "threads_ok (g\<lparr>g_answers := an\<rparr>) = threads_ok g"
  "threads_ok (g\<lparr>g_closing := cl\<rparr>) = threads_ok g"
  by (simp_all add: threads_ok_def has_thread_def cong: who.case_cong)

lemma threads_ok_recv_begin:
  assumes "threads_ok g" and "g_phase g W_recv = Ph_started"
  shows "threads_ok (recv_begin Q E g)"
proof -
  obtain es out where b: "recv_worker_begin Q E (qt_trimmed Q (rp_out_dir (g_recv g))) (rp_name (g_recv g))
      k_default_port = (es, out)"
    by (cases "recv_worker_begin Q E (qt_trimmed Q (rp_out_dir (g_recv g))) (rp_name (g_recv g)) k_default_port")
  show ?thesis
  proof (cases out)
    case None
    then have "threads_ok (set_phase W_recv Ph_idle (emit_events W_recv es g))"
      using assms recv_begin_signals(1) [OF b [unfolded None]] by (intro threads_ok_emit) auto
    then show ?thesis by (simp add: recv_begin_def b None)
  next
    case (Some p)
    then have "threads_ok (set_phase W_recv Ph_running (emit_events W_recv es g))"
      using assms recv_begin_signals(2) [OF b [unfolded Some]] by (intro threads_ok_emit) auto
    then show ?thesis by (simp add: recv_begin_def b Some)
  qed
qed

lemma threads_ok_send_begin:
  assumes "threads_ok g" and "g_phase g W_send = Ph_started"
  shows "threads_ok (send_begin E g)"
proof -
  obtain f host port where j: "g_job g = (f, host, port)" by (cases "g_job g")
  obtain es b where b: "send_worker_begin E f host port = (es, b)" by (cases "send_worker_begin E f host port")
  have "threads_ok (set_phase W_send (if b then Ph_running else Ph_idle) (emit_events W_send es g))"
    using assms send_begin_signals [of E f host port es] b
    by (intro threads_ok_emit) (cases b; fastforce)+
  then show ?thesis by (simp add: send_begin_def j b)
qed

lemma threads_ok_idle_post:
  assumes "threads_ok g" and "g_phase g w = Ph_idle" and "C_thread_finished \<notin> set cs"
  shows "threads_ok (post w cs g)"
  using assms(1)
  by (rule threads_ok_at [where w = w])
    (use threads_okD [OF assms(1), of w] assms(2,3) in \<open>auto simp: thread_ok_def simp del: has_thread_simps\<close>)

lemma threads_ok_exit:
  assumes "threads_ok g" and "g_phase g w = Ph_idle"
  shows "threads_ok (set_phase w Ph_none (post w [C_thread_finished] g))"
  using assms(1)
  by (rule threads_ok_at [where w = w])
    (use thread_ok_exit threads_okD [OF assms(1), of w] assms(2) in \<open>simp_all del: has_thread_simps\<close>)

lemma only_if_Some [simp]: "only_if b x = Some y \<longleftrightarrow> b \<and> x = y"
  by (simp add: only_if_def)

lemma threads_ok_thread_step:
  assumes "thread_step Q l g = Some g'" and "threads_ok g"
  shows "threads_ok g'"
proof (cases l)
  case (T_recv_progress n m)
  obtain pct detail where "worker_progress n m = (pct, detail)" by (cases "worker_progress n m")
  then show ?thesis
    using assms T_recv_progress threads_ok_post [OF assms(2), of W_recv Ph_running "[C_progress pct detail]"]
    by (auto simp: thread_step_defs set_phase_same)
next
  case (T_recv_end ok result)
  then show ?thesis using assms recv_end_signals [of "g_path g" ok result]
    by (auto simp: thread_step_defs intro!: threads_ok_emit)
next
  case (T_browse_end peers)
  then show ?thesis using assms
    by (auto simp: thread_step_defs browse_worker_end_def Let_def intro!: threads_ok_emit)
next
  case (T_send_end ok rejected)
  then show ?thesis using assms send_end_signals [of "fst (g_job g)" ok rejected]
    by (auto simp: thread_step_defs intro!: threads_ok_emit)
next
  case T_report
  then show ?thesis using assms
    by (auto simp: thread_step_defs intro!: threads_ok_idle_post split: list.splits)
next
  case (T_exit w)
  then show ?thesis using assms threads_ok_exit [OF assms(2), of w] by (auto simp: thread_step_defs)
qed (use assms in \<open>auto simp: thread_step_defs intro: threads_ok_recv_begin threads_ok_send_begin
      intro!: threads_ok_post threads_ok_emit\<close>)

text \<open>The window's loop delivers a call.\<close>

lemma dispatch_observed:
  "g_phase (dispatch_call Q w c g) = g_phase g" "calls v (dispatch_call Q w c g) = calls v g"
  "g_quit (dispatch_call Q w c g) = (if c = C_quit then (g_quit g)(w := True) else g_quit g)"
  "has_thread v (dispatch_call Q w c g) = (if v = w \<and> c = C_thread_finished then False else has_thread v g)"
  "g_closing (dispatch_call Q w c g) = g_closing g" "g_backlog (dispatch_call Q w c g) = g_backlog g"
  "g_shown (dispatch_call Q w c g) = g_shown g"
  by (cases w; cases c; cases v; simp add: dispatch_call_def call_recv_def call_browse_def call_send_def
      open_dialog_def recv_on_finished_def split: option.split)+

lemma threads_ok_dispatch:
  assumes "threads_ok g" and "g_queue g = (w, c) # q"
  shows "threads_ok (dispatch_call Q w c (g\<lparr>g_queue := q\<rparr>))"
  using assms(1)
proof (rule threads_ok_at [where w = w])
  let ?g = "g\<lparr>g_queue := q\<rparr>"
  have "thread_ok (g_phase g w) (c # calls w ?g) (has_thread w g) (g_quit g w)"
    using threads_okD [OF assms(1), of w] calls_head [OF assms(2), of w] by simp
  from thread_ok_deliver [OF this]
  show "thread_ok (g_phase (dispatch_call Q w c ?g) w) (calls w (dispatch_call Q w c ?g))
      (has_thread w (dispatch_call Q w c ?g)) (g_quit (dispatch_call Q w c ?g) w)"
    by (simp add: dispatch_observed del: has_thread_simps split: if_splits)
next
  fix v assume "v \<noteq> w"
  then show "g_phase (dispatch_call Q w c (g\<lparr>g_queue := q\<rparr>)) v = g_phase g v
      \<and> calls v (dispatch_call Q w c (g\<lparr>g_queue := q\<rparr>)) = calls v g
      \<and> has_thread v (dispatch_call Q w c (g\<lparr>g_queue := q\<rparr>)) = has_thread v g
      \<and> g_quit (dispatch_call Q w c (g\<lparr>g_queue := q\<rparr>)) v = g_quit g v"
    using calls_head [OF assms(2), of v]
    by (simp add: dispatch_observed del: has_thread_simps)
qed

lemma threads_ok_join:
  assumes "threads_ok g"
  shows "threads_ok (join w g)"
  using assms
proof (rule threads_ok_at [where w = w])
  have "(if has_thread w g then (g_quit g)(w := True) else g_quit g) w = (has_thread w g \<or> g_quit g w)"
    by simp
  then show "thread_ok (g_phase (join w g) w) (calls w (join w g)) (has_thread w (join w g)) (g_quit (join w g) w)"
    using thread_ok_quit [OF threads_okD [OF assms, of w]] threads_okD [OF assms, of w]
    by (cases "has_thread w g") (simp_all add: join_def del: has_thread_simps)
qed (simp add: join_def del: has_thread_simps)

lemma threads_ok_loop_step: "loop_step Q l g = Some g' \<Longrightarrow> threads_ok g \<Longrightarrow> threads_ok g'"
  by (cases l) (auto simp: loop_step_def joined_def threads_ok_dispatch threads_ok_join
      split: list.splits prod.splits closing.splits who.splits)

text \<open>The user's steps; a thread is started only where there was none.\<close>

lemma threads_ok_start:
  assumes "threads_ok g" and "\<not> has_thread w g" and "has_thread w g1"
    and "g_phase g1 = g_phase g" and "g_quit g1 = g_quit g" and "\<And>v. calls v g1 = calls v g"
    and "\<And>v. v \<noteq> w \<Longrightarrow> has_thread v g1 = has_thread v g"
  shows "threads_ok (start_thread w g1)"
  using assms(1)
  by (rule threads_ok_at [where w = w])
    (use thread_ok_start threads_okD [OF assms(1), of w] assms(2-) in
      \<open>simp_all add: start_thread_def del: has_thread_simps\<close>)

lemma refresh_peers_cases:
  assumes "refresh_peers p = (started, p')"
  shows "started \<Longrightarrow> \<not> sp_browse_thread p \<and> \<not> sp_send_thread p \<and> sp_browse_thread p' \<and> \<not> sp_send_thread p'"
    and "\<not> started \<Longrightarrow> p' = p"
  using assms by (auto simp: refresh_peers_def clear_peers_def split: if_splits)

lemma start_receive_cases:
  assumes "start_receive Q p = (c, p')"
  shows "c = Started \<Longrightarrow> \<not> rp_worker_thread p \<and> rp_worker_thread p'" and "c \<noteq> Started \<Longrightarrow> p' = p"
  using assms by (auto simp: start_receive_def split: if_splits)

lemma click_send_cases:
  assumes "click_send Q p = (c, job, p')"
  shows "c = Started \<Longrightarrow> \<not> sp_send_thread p \<and> sp_send_thread p' \<and> sp_browse_thread p' = sp_browse_thread p
      \<and> sp_bar p' = 0 \<and> \<not> sp_send_enabled p' \<and> \<not> sp_back_enabled p' \<and> \<not> sp_refresh_enabled p'
      \<and> \<not> sp_list_enabled p' \<and> \<not> sp_host_enabled p'"
    and "c \<noteq> Started \<Longrightarrow> p' = p"
  using assms by (auto simp: click_send_def send_set_busy_def Let_def split: if_splits)

lemma threads_ok_page:
  assumes "threads_ok g" and "rp_worker_thread p = rp_worker_thread (g_recv g)"
  shows "threads_ok (g\<lparr>g_recv := p\<rparr>)"
  using assms(1) by (rule threads_ok_same) (simp add: has_thread_def assms(2) cong: who.case_cong)

lemma threads_ok_send_page:
  assumes "threads_ok g" and "sp_send_thread p = sp_send_thread (g_send g)"
    and "sp_browse_thread p = sp_browse_thread (g_send g)"
  shows "threads_ok (g\<lparr>g_send := p\<rparr>)"
  using assms(1) by (rule threads_ok_same) (simp add: has_thread_def assms(2,3) cong: who.case_cong)

lemma threads_ok_refresh:
  assumes "threads_ok g"
  shows "threads_ok (refresh g)"
proof -
  obtain b p where r: "refresh_peers (g_send g) = (b, p)" by (cases "refresh_peers (g_send g)")
  note rc = refresh_peers_cases [OF r]
  show ?thesis
  proof (cases b)
    case True
    then have "threads_ok (start_thread W_browse (g\<lparr>g_send := p\<rparr>))"
      using rc(1) by (intro threads_ok_start [OF assms]) (auto simp: has_thread_def split: who.split)
    with True show ?thesis by (simp add: refresh_def r)
  next
    case False
    then show ?thesis using rc(2) assms by (simp add: refresh_def r threads_ok_send_page)
  qed
qed

lemma threads_ok_click_start:
  assumes "threads_ok g"
  shows "threads_ok (click_start Q g)"
proof -
  obtain c p where r: "start_receive Q (g_recv g) = (c, p)" by (cases "start_receive Q (g_recv g)")
  note rc = start_receive_cases [OF r]
  show ?thesis
  proof (cases "c = Started")
    case True
    then have "threads_ok (start_thread W_recv (g\<lparr>g_recv := p\<rparr>))"
      using rc(1) by (intro threads_ok_start [OF assms]) (auto simp: has_thread_def split: who.split)
    with True show ?thesis by (simp add: click_start_def r)
  next
    case False
    then show ?thesis
      using rc(2) assms by (cases c) (simp_all add: click_start_def r open_dialog_def threads_ok_page)
  qed
qed

lemma threads_ok_click_send:
  assumes "threads_ok g"
  shows "threads_ok (click_send_file Q g)"
proof -
  obtain c job p where r: "click_send Q (g_send g) = (c, job, p)" by (cases "click_send Q (g_send g)")
  note rc = click_send_cases [OF r]
  show ?thesis
  proof (cases "c = Started")
    case True
    then have "threads_ok (start_thread W_send (g\<lparr>g_send := p\<rparr>))"
      using rc(1) by (intro threads_ok_start [OF assms]) (auto simp: has_thread_def split: who.split)
    with True show ?thesis by (simp add: click_send_file_def r)
  next
    case False
    then show ?thesis
      using rc(2) assms by (cases c) (simp_all add: click_send_file_def r open_dialog_def threads_ok_send_page)
  qed
qed

lemma threads_ok_answer:
  assumes "threads_ok g" and "g_phase g W_recv = Ph_asking"
  shows "threads_ok (set_phase W_recv Ph_running g)"
  using threads_ok_post [OF assms(1), of W_recv Ph_running "[]"] assms(2)
  by (simp add: post_def)

end
