(* ===== verification/Gui_Invariants.thy ===== *)
theory Gui_Invariants
  imports Gui_Facts
begin

text \<open>
  The invariant of the front end: the threads and their queued calls agree (\<open>Gui_Facts\<close>),
  an offer is asked once, a run is reported once and after its progress, the page of a
  running transfer is shown and disabled, and the bar of a running send is still at zero.
\<close>

section \<open>Steps of the workers\<close>

definition run_signals :: "phase \<Rightarrow> worker_event list \<Rightarrow> bool" where
  "run_signals ph es \<longleftrightarrow>
     ph = Ph_idle \<and> (\<exists>pre sg. signals es = pre @ [sg] \<and> is_end sg \<and> (\<forall>s \<in> set pre. \<not> is_end s))
     \<or> (ph = Ph_started \<or> ph = Ph_running) \<and> (\<forall>sg \<in> set (signals es). \<not> is_end sg)"

inductive worker_step :: "gui \<Rightarrow> gui \<Rightarrow> bool" where
  ws_signals: "g_phase g w = Ph_started \<or> g_phase g w = Ph_running \<Longrightarrow> run_signals ph es \<Longrightarrow>
     worker_step g (set_phase w ph (emit_events w es g)\<lparr>g_path := p\<rparr>)"
| ws_offer: "g_phase g W_recv = Ph_running \<Longrightarrow>
     worker_step g (set_phase W_recv Ph_asking (post W_recv [C_ask name n] g))"
| ws_progress: "g_phase g W_recv = Ph_running \<Longrightarrow> worker_step g (post W_recv [C_progress pct detail] g)"
| ws_backlog: "g_phase g W_send = Ph_running \<Longrightarrow> worker_step g (g\<lparr>g_backlog := b\<rparr>)"
| ws_report: "g_phase g W_send = Ph_idle \<Longrightarrow>
     worker_step g (post W_send [C_progress pct detail] (g\<lparr>g_backlog := rest\<rparr>))"
| ws_exit: "g_phase g w = Ph_idle \<Longrightarrow>
     worker_step g (set_phase w Ph_none (post w [C_thread_finished] g))"

lemma path_same [simp]: "(g :: gui)\<lparr>g_path := g_path g\<rparr> = g"
  by (cases g) simp

lemma ws_signals_same:
  assumes "g_phase g w = Ph_started \<or> g_phase g w = Ph_running" and "run_signals ph es"
  shows "worker_step g (set_phase w ph (emit_events w es g))"
proof -
  have "(set_phase w ph (emit_events w es g))\<lparr>g_path := g_path (set_phase w ph (emit_events w es g))\<rparr>
      = set_phase w ph (emit_events w es g)" by simp
  then show ?thesis using ws_signals [OF assms] by metis
qed

lemma run_signals_end: "\<exists>ok t. signals es = [Sig_finished ok t] \<Longrightarrow> run_signals Ph_idle es"
  by (auto simp: run_signals_def)

lemma recv_begin_step: "g_phase g W_recv = Ph_started \<Longrightarrow> worker_step g (recv_begin Q E g)"
proof -
  assume ph: "g_phase g W_recv = Ph_started"
  obtain es out where b: "recv_worker_begin Q E (qt_trimmed Q (rp_out_dir (g_recv g))) (rp_name (g_recv g))
      k_default_port = (es, out)"
    by (cases "recv_worker_begin Q E (qt_trimmed Q (rp_out_dir (g_recv g))) (rp_name (g_recv g)) k_default_port")
  show ?thesis
  proof (cases out)
    case None
    then have "run_signals Ph_idle es" using recv_begin_signals(1) b by (intro run_signals_end) blast
    then show ?thesis using ph b None by (simp add: recv_begin_def ws_signals_same)
  next
    case (Some p)
    then have "run_signals Ph_running es"
      using recv_begin_signals(2) [OF b [unfolded Some]] by (auto simp: run_signals_def)
    then show ?thesis using ph b Some by (simp add: recv_begin_def ws_signals)
  qed
qed

lemma send_begin_step: "g_phase g W_send = Ph_started \<Longrightarrow> worker_step g (send_begin E g)"
proof -
  assume ph: "g_phase g W_send = Ph_started"
  obtain f host port where j: "g_job g = (f, host, port)" by (cases "g_job g")
  obtain es b where b: "send_worker_begin E f host port = (es, b)" by (cases "send_worker_begin E f host port")
  have "run_signals (if b then Ph_running else Ph_idle) es"
    using send_begin_signals [of E f host port es] b by (cases b) (auto simp: run_signals_def)
  then show ?thesis using ph by (simp add: send_begin_def j b ws_signals_same del: if_split)
qed

lemma thread_worker_step: "thread_step Q l g = Some g' \<Longrightarrow> worker_step g g'"
proof (cases l)
  case (T_recv_end ok result)
  assume "thread_step Q l g = Some g'"
  then show ?thesis using T_recv_end run_signals_end [OF recv_end_signals]
    by (auto simp: thread_step_defs intro!: ws_signals_same)
next
  case (T_send_end ok rejected)
  assume "thread_step Q l g = Some g'"
  then show ?thesis using T_send_end run_signals_end [OF send_end_signals]
    by (auto simp: thread_step_defs intro!: ws_signals_same)
next
  case T_browse_begin
  assume "thread_step Q l g = Some g'"
  then show ?thesis using T_browse_begin
    by (auto simp: thread_step_defs run_signals_def intro!: ws_signals_same)
next
  case (T_browse_end peers)
  assume "thread_step Q l g = Some g'"
  then show ?thesis using T_browse_end
    by (auto simp: thread_step_defs run_signals_def browse_worker_end_def Let_def intro!: ws_signals_same)
qed (auto simp: thread_step_defs intro: recv_begin_step send_begin_step worker_step.intros
      split: prod.splits list.splits)

section \<open>Calls that end a run\<close>

definition is_fin :: "call \<Rightarrow> bool" where
  "is_fin c = (case c of C_finished ok t \<Rightarrow> True | _ \<Rightarrow> False)"

definition is_progress :: "call \<Rightarrow> bool" where
  "is_progress c = (case c of C_progress p t \<Rightarrow> True | _ \<Rightarrow> False)"

definition is_ask :: "call \<Rightarrow> bool" where
  "is_ask c = (case c of C_ask n k \<Rightarrow> True | _ \<Rightarrow> False)"

lemma call_kinds [simp]:
  "is_fin (C_finished ok t)" "\<not> is_fin (C_status t)" "\<not> is_fin (C_progress p t)" "\<not> is_fin (C_peers r t)"
  "\<not> is_fin C_quit" "\<not> is_fin C_thread_finished" "\<not> is_fin (C_ask n k)"
  "is_progress (C_progress p t)" "\<not> is_progress (C_finished ok t)" "\<not> is_progress (C_status t)"
  "\<not> is_progress (C_peers r t)" "\<not> is_progress C_quit" "\<not> is_progress C_thread_finished"
  "\<not> is_progress (C_ask n k)"
  "is_ask (C_ask n k)" "\<not> is_ask (C_finished ok t)" "\<not> is_ask (C_status t)" "\<not> is_ask (C_progress p t)"
  "\<not> is_ask (C_peers r t)" "\<not> is_ask C_quit" "\<not> is_ask C_thread_finished"
  by (simp_all add: is_fin_def is_progress_def is_ask_def)

lemma fin_ends: "is_fin c \<Longrightarrow> ends_run c"
  by (cases c) simp_all

text \<open>No progress behind the end of a run; at most one end.\<close>

fun progress_first :: "call list \<Rightarrow> bool" where
  "progress_first [] = True"
| "progress_first (c # cs) =
     ((is_fin c \<longrightarrow> (\<forall>d \<in> set cs. \<not> is_progress d)) \<and> progress_first cs)"

definition fin_once :: "call list \<Rightarrow> bool" where
  "fin_once cs \<longleftrightarrow> length (filter is_fin cs) \<le> 1"

lemma progress_first_append:
  "\<forall>c \<in> set cs. \<not> is_fin c \<Longrightarrow> progress_first (cs @ ds) = progress_first ds"
  by (induction cs) auto

lemma progress_first_plain: "progress_first cs \<Longrightarrow> \<forall>d \<in> set ds. \<not> is_progress d \<Longrightarrow>
   progress_first (cs @ ds)"
proof (induction cs)
  case Nil
  then show ?case by (induction ds) auto
qed auto

lemma progress_first_open: "\<forall>c \<in> set cs. \<not> is_fin c \<Longrightarrow> progress_first cs"
  using progress_first_append [of cs "[]"] by simp

definition new_calls :: "worker_event list \<Rightarrow> call list" where
  "new_calls es = concat (map connected (signals es))"

lemma run_signals_calls:
  assumes "run_signals ph es"
  shows "\<forall>c \<in> set (new_calls es). \<not> is_progress c \<and> \<not> is_ask c" and "fin_once (new_calls es)"
    and "in_run ph \<Longrightarrow> \<forall>c \<in> set (new_calls es). \<not> ends_run c" and "ph \<noteq> Ph_asking" and "ph \<noteq> Ph_none"
proof -
  have st: "\<forall>c \<in> set (connected sg). \<not> is_progress c \<and> \<not> is_ask c" for sg by (cases sg) auto
  then show "\<forall>c \<in> set (new_calls es). \<not> is_progress c \<and> \<not> is_ask c" by (auto simp: new_calls_def)
  have plain: "\<forall>s \<in> set pre. \<not> is_end s \<Longrightarrow> filter is_fin (concat (map connected pre)) = []" for pre
    using not_ending fin_ends by (fastforce simp: filter_empty_conv)
  show "fin_once (new_calls es)"
    using assms unfolding run_signals_def
  proof (elim disjE conjE exE)
    fix pre sg assume p: "signals es = pre @ [sg]" "is_end sg" "\<forall>s \<in> set pre. \<not> is_end s"
    have "length (filter is_fin (connected sg)) \<le> 1" by (cases sg) auto
    then show ?thesis using p plain [OF p(3)] by (simp add: new_calls_def fin_once_def)
  qed (use plain [of "signals es"] in \<open>simp_all add: new_calls_def fin_once_def\<close>)
  show "in_run ph \<Longrightarrow> \<forall>c \<in> set (new_calls es). \<not> ends_run c"
    using assms not_ending by (auto simp: run_signals_def new_calls_def)
  show "ph \<noteq> Ph_asking" "ph \<noteq> Ph_none" using assms by (auto simp: run_signals_def)
qed

lemma calls_emit: "calls v (emit_events w es g) = (if v = w then calls v g @ new_calls es else calls v g)"
  by (simp add: new_calls_def)

section \<open>The invariant\<close>

definition busy :: "who \<Rightarrow> gui \<Rightarrow> bool" where
  "busy w g \<longleftrightarrow> in_run (g_phase g w) \<or> (\<exists>c \<in> set (calls w g). is_fin c)"

definition asks :: "gui \<Rightarrow> nat" where
  "asks g = length (filter is_ask (calls W_recv g))
     + length (filter (\<lambda>d. case d of Dlg_ask n k \<Rightarrow> True | _ \<Rightarrow> False) (g_dialogs g))"

definition calls_ok :: "gui \<Rightarrow> bool" where
  "calls_ok g \<longleftrightarrow> fin_once (calls W_recv g) \<and> fin_once (calls W_send g)
     \<and> progress_first (calls W_recv g)
     \<and> (in_run (g_phase g W_send) \<longrightarrow> (\<forall>c \<in> set (calls W_send g). \<not> is_progress c) \<and> sp_bar (g_send g) = 0)
     \<and> asks g = (if g_phase g W_recv = Ph_asking then 1 else 0)"

definition recv_locked :: "gui \<Rightarrow> bool" where
  "recv_locked g \<longleftrightarrow> g_shown g = Recv \<and> \<not> rp_start_enabled (g_recv g) \<and> \<not> rp_back_enabled (g_recv g)
     \<and> \<not> rp_name_enabled (g_recv g)"

definition send_locked :: "gui \<Rightarrow> bool" where
  "send_locked g \<longleftrightarrow> g_shown g = Send \<and> \<not> sp_send_enabled (g_send g) \<and> \<not> sp_back_enabled (g_send g)
     \<and> \<not> sp_refresh_enabled (g_send g) \<and> \<not> sp_list_enabled (g_send g) \<and> \<not> sp_host_enabled (g_send g)"

definition leads_home :: "dialog \<Rightarrow> bool" where
  "leads_home d = (case d of Dlg_complete t \<Rightarrow> True | Dlg_sent ok t \<Rightarrow> True | _ \<Rightarrow> False)"

definition pages_ok :: "gui \<Rightarrow> bool" where
  "pages_ok g \<longleftrightarrow> (busy W_recv g \<longrightarrow> recv_locked g) \<and> (busy W_send g \<longrightarrow> send_locked g)
     \<and> length (filter leads_home (g_dialogs g)) \<le> 1
     \<and> (\<forall>t. Dlg_complete t \<in> set (g_dialogs g) \<longrightarrow> g_shown g = Recv \<and> \<not> busy W_recv g)
     \<and> (\<forall>ok t. Dlg_sent ok t \<in> set (g_dialogs g) \<longrightarrow> g_shown g = Send \<and> \<not> busy W_send g)"

definition gui_ok :: "gui \<Rightarrow> bool" where
  "gui_ok g \<longleftrightarrow> threads_ok g \<and> calls_ok g \<and> pages_ok g"

lemma gui_ok_new: "gui_ok (new_gui downloads)"
  by (auto simp: gui_ok_def threads_ok_def calls_ok_def pages_ok_def new_gui_def calls_def has_thread_def
      thread_ok_def busy_def fin_once_def asks_def new_recv_page_def new_send_page_def split: who.split)

text \<open>Calls of a thread that has not ended its run.\<close>

lemma in_run_open: "threads_ok g \<Longrightarrow> in_run (g_phase g w) \<Longrightarrow> c \<in> set (calls w g) \<Longrightarrow> \<not> ends_run c"
  using thread_okD(1) [OF threads_okD] by blast

lemma in_run_no_fin: "threads_ok g \<Longrightarrow> in_run (g_phase g w) \<Longrightarrow> filter is_fin (calls w g) = []"
  using in_run_open fin_ends by (fastforce simp: filter_empty_conv)

section \<open>The workers keep it\<close>

lemma worker_step_frame:
  "worker_step g g' \<Longrightarrow> g_recv g' = g_recv g \<and> g_send g' = g_send g \<and> g_dialogs g' = g_dialogs g
     \<and> g_shown g' = g_shown g \<and> g_closing g' = g_closing g"
  by (induction rule: worker_step.induct) simp_all

lemma worker_step_busy: "worker_step g g' \<Longrightarrow> busy w g' \<Longrightarrow> busy w g"
proof (induction rule: worker_step.induct)
  case (ws_signals g v ph es p)
  then show ?case by (auto simp: busy_def calls_emit simp del: emit_frame(1) split: if_splits)
qed (auto simp: busy_def split: if_splits)

lemma worker_pages_ok: "worker_step g g' \<Longrightarrow> pages_ok g \<Longrightarrow> pages_ok g'"
  using worker_step_frame [of g g'] worker_step_busy [of g g']
  by (auto simp: pages_ok_def recv_locked_def send_locked_def)

lemma fin_once_new: "threads_ok g \<Longrightarrow> in_run (g_phase g w) \<Longrightarrow> fin_once ds \<Longrightarrow> fin_once (calls w g @ ds)"
  using in_run_no_fin [of g w] by (simp add: fin_once_def)

lemma progress_first_new:
  assumes "threads_ok g" and "in_run (g_phase g w)" and "progress_first ds"
  shows "progress_first (calls w g @ ds)"
  using in_run_no_fin [OF assms(1,2)] progress_first_append assms(3) by (simp add: filter_empty_conv)

lemma worker_calls_ok: "worker_step g g' \<Longrightarrow> threads_ok g \<Longrightarrow> calls_ok g \<Longrightarrow> calls_ok g'"
proof (induction rule: worker_step.induct)
  case (ws_signals g w ph es p)
  note rs = run_signals_calls [OF ws_signals(2)]
  have r: "in_run (g_phase g w)" using ws_signals(1) by auto
  have pf: "progress_first (new_calls es)" using progress_first_plain [of "[]"] rs(1) by simp
  have na: "filter is_ask (new_calls es) = []" using rs(1) by (simp add: filter_empty_conv)
  show ?case
    using ws_signals(1,4) rs(1,4) na fin_once_new [OF ws_signals(3) r rs(2)]
      progress_first_new [OF ws_signals(3) r pf] r
    by (cases w) (auto simp: calls_ok_def asks_def calls_emit simp del: emit_frame(1))
next
  case (ws_offer g name n)
  then show ?case using in_run_no_fin [of g W_recv]
    by (auto simp: calls_ok_def asks_def fin_once_def intro: progress_first_new)
next
  case (ws_progress g pct detail)
  then show ?case using in_run_no_fin [of g W_recv]
    by (auto simp: calls_ok_def asks_def fin_once_def intro: progress_first_new)
next
  case (ws_exit g w)
  then show ?case by (cases w) (auto simp: calls_ok_def asks_def fin_once_def intro: progress_first_plain)
qed (auto simp: calls_ok_def asks_def fin_once_def)

section \<open>The window's loop keeps it\<close>

text \<open>What a delivery starts from: the call at the head and the calls behind it.\<close>

lemma head_cases:
  assumes "gui_ok g" and "g_queue g = (w, c) # q"
  shows "is_fin c \<Longrightarrow> \<not> in_run (g_phase g w)"
    and "w \<noteq> W_browse \<Longrightarrow> is_fin c \<Longrightarrow> busy w g \<and> \<not> busy w (g\<lparr>g_queue := q\<rparr>)"
    and "c = C_thread_finished \<Longrightarrow> g_phase g w = Ph_none \<and> calls w (g\<lparr>g_queue := q\<rparr>) = []"
    and "busy v (g\<lparr>g_queue := q\<rparr>) \<Longrightarrow> busy v g"
    and "in_run (g_phase g W_send) \<Longrightarrow> w = W_send \<Longrightarrow> \<not> is_progress c"
proof -
  note ch = calls_head [OF assms(2)]
  have th: "threads_ok g" and co: "calls_ok g" using assms(1) by (auto simp: gui_ok_def)
  show run: "is_fin c \<Longrightarrow> \<not> in_run (g_phase g w)"
    using in_run_open [OF th, of w c] fin_ends ch [of w] by auto
  show "busy w g \<and> \<not> busy w (g\<lparr>g_queue := q\<rparr>)" if "w \<noteq> W_browse" "is_fin c"
  proof -
    have "fin_once (c # calls w (g\<lparr>g_queue := q\<rparr>))"
      using co ch [of w] that(1) by (cases w) (simp_all add: calls_ok_def)
    then have "filter is_fin (calls w (g\<lparr>g_queue := q\<rparr>)) = []" using that by (simp add: fin_once_def)
    then show ?thesis using run that ch [of w] by (auto simp: busy_def filter_empty_conv)
  qed
  show "g_phase g w = Ph_none \<and> calls w (g\<lparr>g_queue := q\<rparr>) = []" if "c = C_thread_finished"
    using threads_okD [OF th, of w] ch [of w] that
    by (cases "g_phase g w") (auto simp: thread_ok_def split: if_splits)
  show "busy v (g\<lparr>g_queue := q\<rparr>) \<Longrightarrow> busy v g" using ch [of v] by (auto simp: busy_def split: if_splits)
  show "in_run (g_phase g W_send) \<Longrightarrow> w = W_send \<Longrightarrow> \<not> is_progress c"
    using co ch [of W_send] by (auto simp: calls_ok_def)
qed

lemma busy_dispatch: "busy v (dispatch_call Q w c g) = busy v g"
  by (simp add: busy_def dispatch_observed)

lemma progress_first_tl: "progress_first (c # cs) \<Longrightarrow> progress_first cs"
  by simp

lemma dispatch_calls_ok:
  assumes "gui_ok g" and "g_queue g = (w, c) # q"
  shows "calls_ok (dispatch_call Q w c (g\<lparr>g_queue := q\<rparr>))"
proof -
  let ?g = "g\<lparr>g_queue := q\<rparr>"
  note ch = calls_head [OF assms(2)] and hd = head_cases [OF assms]
  have co: "calls_ok g" using assms(1) by (simp add: gui_ok_def)
  have bar: "in_run (g_phase g W_send) \<Longrightarrow> sp_bar (g_send (dispatch_call Q w c ?g)) = sp_bar (g_send g)"
    using hd(1,5) by (cases w; cases c)
      (auto simp: dispatch_call_def call_recv_def call_browse_def call_send_def open_dialog_def
        send_on_status_def on_browse_finished_def clear_peers_def browse_thread_finished_def
        send_thread_finished_def send_set_busy_def Let_def split: prod.split option.split finish_box.split)
  have ask: "asks (dispatch_call Q w c ?g) = asks g"
    using ch [of W_recv] by (cases w; cases c)
      (auto simp: asks_def dispatch_observed dispatch_call_def call_recv_def call_browse_def call_send_def
        open_dialog_def recv_on_finished_def split: option.split)
  have "fin_once (calls v ?g)" if "fin_once (calls v g)" for v
    using ch [of v] that by (auto simp: fin_once_def split: if_splits)
  moreover have "progress_first (calls W_recv ?g)"
    using ch [of W_recv] co by (auto simp: calls_ok_def split: if_splits)
  moreover have "set (calls v ?g) \<subseteq> set (calls v g)" for v using ch [of v] by auto
  ultimately show ?thesis using co bar ask by (auto simp: calls_ok_def dispatch_observed)
qed

lemmas slot_defs = dispatch_call_def call_recv_def call_browse_def call_send_def open_dialog_def

lemma dispatch_recv_locked:
  assumes "gui_ok g" and "g_queue g = (w, c) # q"
    and "busy W_recv (dispatch_call Q w c (g\<lparr>g_queue := q\<rparr>))"
  shows "recv_locked (dispatch_call Q w c (g\<lparr>g_queue := q\<rparr>))"
proof -
  have "w = W_recv \<Longrightarrow> \<not> is_fin c"
    using head_cases(2) [OF assms(1,2)] assms(3) by (auto simp: busy_dispatch)
  moreover have "recv_locked g"
    using head_cases(4) [OF assms(1,2)] assms(1,3) by (simp add: busy_dispatch gui_ok_def pages_ok_def)
  ultimately show ?thesis
    by (cases w; cases c) (auto simp: recv_locked_def slot_defs recv_on_status_def recv_on_progress_def
        recv_thread_finished_def)
qed

lemma dispatch_send_locked:
  assumes "gui_ok g" and "g_queue g = (w, c) # q"
    and "busy W_send (dispatch_call Q w c (g\<lparr>g_queue := q\<rparr>))"
  shows "send_locked (dispatch_call Q w c (g\<lparr>g_queue := q\<rparr>))"
proof -
  have b: "busy W_send g" using head_cases(4) [OF assms(1,2)] assms(3) by (simp add: busy_dispatch)
  have "w = W_send \<Longrightarrow> c \<noteq> C_thread_finished"
    using head_cases(3) [OF assms(1,2)] assms(3) by (auto simp: busy_def dispatch_observed)
  moreover have "sp_send_thread (g_send g)"
    using thread_okD(2) [OF threads_okD, of g W_send] b assms(1)
    by (cases "sp_send_thread (g_send g)") (auto simp: busy_def gui_ok_def)
  moreover have "send_locked g" using b assms(1) by (simp add: gui_ok_def pages_ok_def)
  ultimately show ?thesis
    by (cases w; cases c) (auto simp: send_locked_def slot_defs send_on_status_def send_on_progress_def
        send_on_finished_def on_browse_finished_def clear_peers_def browse_thread_finished_def
        split: prod.split option.split finish_box.split)
qed

text \<open>A delivery opens at most one message box that leads home, at the end of a run.\<close>

lemma dispatch_dialogs:
  "filter leads_home (g_dialogs (dispatch_call Q w c g)) = filter leads_home (g_dialogs g)
   \<or> (w = W_recv \<and> is_fin c \<and> (\<exists>t. g_dialogs (dispatch_call Q w c g) = Dlg_complete t # g_dialogs g))
   \<or> (w = W_send \<and> is_fin c \<and> (\<exists>ok t. g_dialogs (dispatch_call Q w c g) = Dlg_sent ok t # g_dialogs g))"
  by (cases w; cases c) (simp_all add: slot_defs leads_home_def recv_on_finished_def split: option.split)

lemma same_homeward:
  assumes "filter leads_home ds = filter leads_home ds'" and "leads_home d"
  shows "d \<in> set ds \<longleftrightarrow> d \<in> set ds'"
proof -
  have "d \<in> set (filter leads_home ds) \<longleftrightarrow> d \<in> set (filter leads_home ds')" by (simp only: assms(1))
  then show ?thesis using assms(2) by simp
qed

lemma leads_home_simps [simp]:
  "leads_home (Dlg_complete t)" "leads_home (Dlg_sent ok t)" "\<not> leads_home (Dlg_warning t)" "\<not> leads_home (Dlg_ask n k)"
  by (simp_all add: leads_home_def)

lemma busy_no_homeward:
  assumes "pages_ok g" and "busy w g" and "w \<noteq> W_browse"
  shows "filter leads_home (g_dialogs g) = []"
proof -
  have "\<not> leads_home d" if "d \<in> set (g_dialogs g)" for d
    using assms that by (cases w; cases d) (auto simp: pages_ok_def leads_home_def recv_locked_def send_locked_def)
  then show ?thesis by (simp add: filter_empty_conv)
qed

lemma dispatch_pages_ok:
  assumes "gui_ok g" and "g_queue g = (w, c) # q"
  shows "pages_ok (dispatch_call Q w c (g\<lparr>g_queue := q\<rparr>))"
proof -
  let ?g' = "dispatch_call Q w c (g\<lparr>g_queue := q\<rparr>)"
  note hd = head_cases [OF assms] and locked = dispatch_recv_locked [OF assms] dispatch_send_locked [OF assms]
  have po: "pages_ok g" using assms(1) by (simp add: gui_ok_def)
  have nb: "busy v ?g' \<Longrightarrow> busy v g" for v using hd(4) by (simp add: busy_dispatch)
  have sh: "g_shown ?g' = g_shown g" by (simp add: dispatch_observed)
  have ended: "filter leads_home (g_dialogs g) = []" "\<not> busy w ?g'" "busy w g" if "is_fin c" "w \<noteq> W_browse"
    using hd(2) [OF that(2,1)] busy_no_homeward [OF po _ that(2)] by (simp_all add: busy_dispatch)
  from dispatch_dialogs [of Q w c "g\<lparr>g_queue := q\<rparr>"] show ?thesis
  proof (elim disjE conjE exE)
    assume d: "filter leads_home (g_dialogs ?g') = filter leads_home (g_dialogs (g\<lparr>g_queue := q\<rparr>))"
    then have "Dlg_complete t \<in> set (g_dialogs ?g') \<longleftrightarrow> Dlg_complete t \<in> set (g_dialogs g)"
      and "Dlg_sent ok t \<in> set (g_dialogs ?g') \<longleftrightarrow> Dlg_sent ok t \<in> set (g_dialogs g)" for ok t
      by - (rule same_homeward, simp, simp)+
    then show ?thesis using po locked nb sh d by (auto simp: pages_ok_def)
  next
    fix t assume d: "w = W_recv" "is_fin c" "g_dialogs ?g' = Dlg_complete t # g_dialogs (g\<lparr>g_queue := q\<rparr>)"
    then have e: "filter leads_home (g_dialogs g) = []" "\<not> busy W_recv ?g'" "g_shown g = Recv"
      using ended po by (auto simp: pages_ok_def recv_locked_def)
    then have "Dlg_sent ok t' \<notin> set (g_dialogs g)" for ok t' by (auto simp: filter_empty_conv leads_home_def)
    then show ?thesis using po locked d e sh by (auto simp: pages_ok_def leads_home_def)
  next
    fix ok t assume d: "w = W_send" "is_fin c" "g_dialogs ?g' = Dlg_sent ok t # g_dialogs (g\<lparr>g_queue := q\<rparr>)"
    then have e: "filter leads_home (g_dialogs g) = []" "\<not> busy W_send ?g'" "g_shown g = Send"
      using ended po by (auto simp: pages_ok_def send_locked_def)
    then have "Dlg_complete t' \<notin> set (g_dialogs g)" for t' by (auto simp: filter_empty_conv leads_home_def)
    then show ?thesis using po locked d e sh by (auto simp: pages_ok_def leads_home_def)
  qed
qed

lemma gui_ok_loop_step: "loop_step Q l g = Some g' \<Longrightarrow> gui_ok g \<Longrightarrow> gui_ok g'"
proof -
  have frame: "gui_ok (join w g)" if "gui_ok g" for w g
    using that threads_ok_join by (simp add: gui_ok_def calls_ok_def pages_ok_def busy_def asks_def join_def
        recv_locked_def send_locked_def)
  have closed: "gui_ok (g\<lparr>g_closing := cl\<rparr>)" if "gui_ok g" for cl g
    using that by (simp add: gui_ok_def calls_ok_def pages_ok_def busy_def asks_def recv_locked_def send_locked_def)
  assume "loop_step Q l g = Some g'" "gui_ok g"
  then show ?thesis
    by (cases l) (auto simp: loop_step_def joined_def gui_ok_def threads_ok_dispatch dispatch_calls_ok
        dispatch_pages_ok frame [unfolded gui_ok_def] closed [unfolded gui_ok_def]
        split: list.splits prod.splits closing.splits who.splits)
qed

section \<open>The user keeps it\<close>

text \<open>Where the user acts nothing is asked, and a page that is not shown is not busy.\<close>

lemma user_at_free:
  assumes "gui_ok g" and "user_at pg g"
  shows "g_dialogs g = []" and "g_shown g = pg" and "pg \<noteq> Recv \<Longrightarrow> \<not> busy W_recv g"
    and "pg \<noteq> Send \<Longrightarrow> \<not> busy W_send g"
    and "pg = Recv \<Longrightarrow> rp_start_enabled (g_recv g) \<or> rp_back_enabled (g_recv g) \<or> rp_name_enabled (g_recv g)
           \<Longrightarrow> \<not> busy W_recv g"
    and "pg = Send \<Longrightarrow> sp_send_enabled (g_send g) \<or> sp_back_enabled (g_send g) \<or> sp_refresh_enabled (g_send g)
           \<or> sp_list_enabled (g_send g) \<or> sp_host_enabled (g_send g) \<Longrightarrow> \<not> busy W_send g"
  using assms by (auto simp: user_at_def gui_ok_def pages_ok_def recv_locked_def send_locked_def)

lemma busy_frame [simp]:
  "busy w (g\<lparr>g_recv := p\<rparr>) = busy w g" "busy w (g\<lparr>g_send := sp\<rparr>) = busy w g"
  "busy w (g\<lparr>g_shown := sh\<rparr>) = busy w g" "busy w (g\<lparr>g_dialogs := ds\<rparr>) = busy w g"
  "busy w (g\<lparr>g_quit := qt\<rparr>) = busy w g" "busy w (g\<lparr>g_closing := cl\<rparr>) = busy w g"
  "busy w (g\<lparr>g_job := jb\<rparr>) = busy w g" "busy w (g\<lparr>g_backlog := bl\<rparr>) = busy w g"
  by (simp_all add: busy_def)

lemma busy_start: "busy v (start_thread w g) \<longleftrightarrow> v = w \<or> busy v g"
  by (simp add: busy_def start_thread_def)

lemma start_thread_frame [simp]:
  "g_phase (start_thread w g) = (g_phase g)(w := Ph_started)" "calls v (start_thread w g) = calls v g"
  "g_recv (start_thread w g) = g_recv g" "g_send (start_thread w g) = g_send g"
  "g_dialogs (start_thread w g) = g_dialogs g" "g_shown (start_thread w g) = g_shown g"
  by (simp_all add: start_thread_def)

text \<open>A page that is not busy may change in every respect but its pointer.\<close>

lemma gui_ok_free_pages:
  assumes "gui_ok g" and "g_dialogs g = []" and "\<not> busy W_recv g" and "\<not> busy W_send g"
    and "rp_worker_thread p = rp_worker_thread (g_recv g)"
    and "sp_send_thread sp = sp_send_thread (g_send g)" and "sp_browse_thread sp = sp_browse_thread (g_send g)"
  shows "gui_ok (g\<lparr>g_recv := p, g_send := sp, g_shown := sh\<rparr>)"
proof -
  have "threads_ok (g\<lparr>g_recv := p, g_send := sp, g_shown := sh\<rparr>)"
    using assms(1,5-) by (auto simp: gui_ok_def intro!: threads_ok_same [of g] split: who.split)
      (auto simp: has_thread_def split: who.split)
  then show ?thesis
    using assms(1-4) by (auto simp: gui_ok_def calls_ok_def pages_ok_def asks_def busy_def)
qed

lemma same_page [simp]:
  "(g :: gui)\<lparr>g_recv := p, g_send := g_send g, g_shown := sh\<rparr> = g\<lparr>g_recv := p, g_shown := sh\<rparr>"
  "(g :: gui)\<lparr>g_recv := g_recv g, g_send := sp, g_shown := sh\<rparr> = g\<lparr>g_send := sp, g_shown := sh\<rparr>"
  "(g :: gui)\<lparr>g_recv := g_recv g, g_shown := sh\<rparr> = g\<lparr>g_shown := sh\<rparr>"
  by (cases g; simp)+

text \<open>A page may change, busy or not, in what is neither its buttons nor its bar.\<close>

lemma gui_ok_recv_widgets:
  assumes "gui_ok g" and "rp_worker_thread p = rp_worker_thread (g_recv g)"
    and "rp_start_enabled p = rp_start_enabled (g_recv g)" and "rp_back_enabled p = rp_back_enabled (g_recv g)"
    and "rp_name_enabled p = rp_name_enabled (g_recv g)"
  shows "gui_ok (g\<lparr>g_recv := p\<rparr>)"
  using assms threads_ok_page [of g p]
  by (simp add: gui_ok_def calls_ok_def asks_def pages_ok_def recv_locked_def send_locked_def)

lemma gui_ok_send_widgets:
  assumes "gui_ok g" and "sp_send_thread p = sp_send_thread (g_send g)"
    and "sp_browse_thread p = sp_browse_thread (g_send g)" and "sp_bar p = sp_bar (g_send g)"
    and "busy W_send g \<Longrightarrow> send_locked (g\<lparr>g_send := p\<rparr>)"
  shows "gui_ok (g\<lparr>g_send := p\<rparr>)"
  using assms threads_ok_send_page [of g p]
  by (simp add: gui_ok_def calls_ok_def asks_def pages_ok_def recv_locked_def)

lemma gui_ok_dialog:
  assumes "gui_ok g"
  shows "gui_ok (open_dialog (Dlg_warning t) g)"
proof -
  have "threads_ok (open_dialog (Dlg_warning t) g)" using assms by (simp add: gui_ok_def open_dialog_def)
  then show ?thesis using assms
    by (simp add: gui_ok_def calls_ok_def asks_def pages_ok_def recv_locked_def send_locked_def open_dialog_def)
qed

lemma gui_ok_refresh:
  assumes "gui_ok g"
  shows "gui_ok (refresh g)"
proof -
  obtain b p where r: "refresh_peers (g_send g) = (b, p)" by (cases "refresh_peers (g_send g)")
  have same: "g = g\<lparr>g_send := g_send g\<rparr>" by simp
  show ?thesis
  proof (cases b)
    case True
    then have p: "sp_bar p = sp_bar (g_send g)" "\<not> sp_refresh_enabled p"
      "sp_send_enabled p = sp_send_enabled (g_send g)" "sp_back_enabled p = sp_back_enabled (g_send g)"
      "sp_list_enabled p = sp_list_enabled (g_send g)" "sp_host_enabled p = sp_host_enabled (g_send g)"
      using r by (auto simp: refresh_peers_def clear_peers_def split: if_splits)
    have eq: "refresh g = start_thread W_browse (g\<lparr>g_send := p\<rparr>)" using True by (simp add: refresh_def r)
    show ?thesis
      using assms threads_ok_refresh [of g] p unfolding gui_ok_def eq
      by (simp add: calls_ok_def asks_def pages_ok_def busy_start recv_locked_def send_locked_def)
  next
    case False
    then show ?thesis
      using refresh_peers_cases(2) [OF r] assms same by (simp add: refresh_def r)
  qed
qed

lemma gui_ok_click_start:
  assumes "gui_ok g" and "user_at Recv g" and "rp_start_enabled (g_recv g)"
  shows "gui_ok (click_start Q g)"
proof -
  note free = user_at_free [OF assms(1,2)]
  obtain c p where r: "start_receive Q (g_recv g) = (c, p)" by (cases "start_receive Q (g_recv g)")
  show ?thesis
  proof (cases "c = Started")
    case True
    have eq: "click_start Q g = start_thread W_recv (g\<lparr>g_recv := p\<rparr>)" using True by (simp add: click_start_def r)
    have none: "calls W_recv g = []" "g_phase g W_recv = Ph_none"
      using thread_okD(2) [OF threads_okD, of g W_recv] start_receive_cases(1) [OF r True] assms(1)
      by (auto simp: gui_ok_def)
    have "\<not> rp_start_enabled p" "\<not> rp_back_enabled p" "\<not> rp_name_enabled p"
      using r True by (auto simp: start_receive_def recv_set_busy_def split: if_splits)
    then show ?thesis
      using assms(1) threads_ok_click_start [of g Q] free(1,2,4) none unfolding gui_ok_def eq
      by (simp add: calls_ok_def asks_def pages_ok_def busy_start recv_locked_def)
  next
    case False
    then have "p = g_recv g" using start_receive_cases(2) [OF r] by simp
    then show ?thesis using assms(1) False by (cases c) (simp_all add: click_start_def r gui_ok_dialog)
  qed
qed

lemma gui_ok_click_send:
  assumes "gui_ok g" and "user_at Send g" and "sp_send_enabled (g_send g)"
  shows "gui_ok (click_send_file Q g)"
proof -
  note free = user_at_free [OF assms(1,2)]
  obtain c job p where r: "click_send Q (g_send g) = (c, job, p)" by (cases "click_send Q (g_send g)")
  show ?thesis
  proof (cases "c = Started")
    case True
    have eq: "click_send_file Q g = (start_thread W_send (g\<lparr>g_send := p\<rparr>))\<lparr>g_job := the job, g_backlog := []\<rparr>"
      using True by (simp add: click_send_file_def r)
    note p = click_send_cases(1) [OF r True]
    have none: "calls W_send g = []" "g_phase g W_send = Ph_none"
      using thread_okD(2) [OF threads_okD, of g W_send] p assms(1) by (auto simp: gui_ok_def)
    show ?thesis
      using assms(1) threads_ok_click_send [of g Q] free(1,2,3) none p unfolding gui_ok_def eq
      by (simp add: calls_ok_def asks_def pages_ok_def busy_start send_locked_def)
  next
    case False
    then have "p = g_send g" using click_send_cases(2) [OF r] by simp
    then show ?thesis using assms(1) False by (cases c) (simp_all add: click_send_file_def r gui_ok_dialog)
  qed
qed

lemma gui_ok_answer:
  assumes "gui_ok g" and "g_dialogs g = d # ds"
  shows "gui_ok (after_dialog d b (g\<lparr>g_dialogs := ds\<rparr>))"
proof -
  let ?g = "g\<lparr>g_dialogs := ds\<rparr>"
  have th: "threads_ok ?g" and co: "calls_ok g" and po: "pages_ok g"
    using assms(1) by (simp_all add: gui_ok_def)
  have po': "pages_ok ?g"
    using po assms(2) by (auto simp: pages_ok_def recv_locked_def send_locked_def split: if_splits)
  show ?thesis
  proof (cases "leads_home d")
    case True
    then have eq: "after_dialog d b ?g = ?g\<lparr>g_shown := Home\<rparr>"
      by (cases d) (simp_all add: after_dialog_def show_home_def)
    have idle: "\<not> busy W_recv g" "\<not> busy W_send g"
      using busy_no_homeward [OF po] assms(2) True by auto
    have "filter leads_home ds = []" using po True assms(2) by (simp add: pages_ok_def)
    then have "Dlg_complete t \<notin> set ds \<and> Dlg_sent ok t \<notin> set ds" for ok t
      by (auto simp: filter_empty_conv)
    moreover have "calls_ok ?g" using co assms(2) True by (cases d) (simp_all add: calls_ok_def asks_def)
    ultimately show ?thesis
      using th idle \<open>filter leads_home ds = []\<close> unfolding gui_ok_def eq
      by (simp add: pages_ok_def calls_ok_def asks_def)
  next
    case False
    show ?thesis
    proof (cases d)
      case (Dlg_ask n k)
      then have ask: "g_phase g W_recv = Ph_asking" "asks ?g = 0"
        using co assms(2) by (auto simp: calls_ok_def asks_def split: if_splits)
      let ?g' = "set_phase W_recv Ph_running (?g\<lparr>g_answers := g_answers g @ [b]\<rparr>)"
      have "threads_ok ?g'" using th ask(1) by (intro threads_ok_answer) simp_all
      moreover have "calls_ok ?g'" using co ask by (simp add: calls_ok_def asks_def)
      moreover have "busy v ?g' = busy v ?g" for v using ask(1) by (auto simp: busy_def calls_def)
      then have "pages_ok ?g'" using po' by (simp add: pages_ok_def recv_locked_def send_locked_def)
      ultimately show ?thesis using Dlg_ask by (simp add: after_dialog_def gui_ok_def)
    qed (use False th co po' assms(2) in
        \<open>simp_all add: after_dialog_def gui_ok_def calls_ok_def asks_def\<close>)
  qed
qed

lemma gui_ok_user_step:
  assumes "user_step Q l g = Some g'" and "gui_ok g"
  shows "gui_ok g'"
proof -
  have locked: "busy W_send g \<Longrightarrow> send_locked g" using assms(2) by (simp add: gui_ok_def pages_ok_def)
  show ?thesis
  proof (cases l)
    case U_receive
    with assms show ?thesis
      using gui_ok_free_pages [of g "recv_reset (g_recv g)" "g_send g" Recv] user_at_free [of g Home]
      by (auto simp: user_step_def show_receive_def)
  next
    case U_send
    with assms show ?thesis
      using gui_ok_free_pages [of g "g_recv g" "send_reset (g_send g)" Send] user_at_free [of g Home]
      by (auto simp: user_step_def show_send_def intro!: gui_ok_refresh)
  next
    case U_back
    with assms show ?thesis
      using gui_ok_free_pages [of g "g_recv g" "g_send g" Home] user_at_free [of g Recv] user_at_free [of g Send]
      by (auto simp: user_step_def show_home_def)
  next
    case (U_folder d)
    with assms show ?thesis
      by (cases "d = []") (auto simp: user_step_def browse_out_dir_def intro!: gui_ok_recv_widgets)
  next
    case (U_name n)
    with assms show ?thesis by (auto simp: user_step_def intro!: gui_ok_recv_widgets)
  next
    case U_start
    with assms show ?thesis by (auto simp: user_step_def gui_ok_click_start)
  next
    case U_refresh
    with assms show ?thesis by (auto simp: user_step_def gui_ok_refresh)
  next
    case (U_file f)
    with assms(1) have eq: "g' = g\<lparr>g_send := browse_file f (g_send g)\<rparr>" by (auto simp: user_step_def)
    show ?thesis unfolding eq
      by (rule gui_ok_send_widgets [OF assms(2)])
        (use locked in \<open>auto simp: browse_file_def send_locked_def\<close>)
  next
    case (U_select i)
    with assms(1) have eq: "g' = g\<lparr>g_send := (g_send g)\<lparr>sp_current := Some i\<rparr>\<rparr>" by (auto simp: user_step_def)
    show ?thesis unfolding eq
      by (rule gui_ok_send_widgets [OF assms(2)]) (use locked in \<open>auto simp: send_locked_def\<close>)
  next
    case (U_host h)
    with assms(1) have eq: "g' = g\<lparr>g_send := (g_send g)\<lparr>sp_host := h\<rparr>\<rparr>" by (auto simp: user_step_def)
    show ?thesis unfolding eq
      by (rule gui_ok_send_widgets [OF assms(2)]) (use locked in \<open>auto simp: send_locked_def\<close>)
  next
    case U_send_file
    with assms show ?thesis by (auto simp: user_step_def gui_ok_click_send)
  next
    case (U_answer b)
    with assms show ?thesis by (auto simp: user_step_def gui_ok_answer split: list.splits)
  next
    case U_close
    with assms have "g' = join W_recv g" "gui_ok g" by (auto simp: user_step_def)
    then show ?thesis using threads_ok_join [of g W_recv]
      by (simp add: gui_ok_def calls_ok_def pages_ok_def busy_def asks_def join_def recv_locked_def send_locked_def)
  qed (use assms in \<open>simp_all add: user_step_def\<close>)
qed

lemma gui_ok_thread_step: "thread_step Q l g = Some g' \<Longrightarrow> gui_ok g \<Longrightarrow> gui_ok g'"
  using threads_ok_thread_step [of Q l g g'] thread_worker_step [of Q l g g']
    worker_calls_ok [of g g'] worker_pages_ok [of g g']
  by (simp add: gui_ok_def)

lemma gui_ok_step: "gui_step Q l g = Some g' \<Longrightarrow> gui_ok g \<Longrightarrow> gui_ok g'"
  unfolding gui_step_def
  by (auto intro: gui_ok_user_step gui_ok_loop_step gui_ok_thread_step split: option.splits)

lemma gui_ok_run: "gui_run Q ls g = Some g' \<Longrightarrow> gui_ok g \<Longrightarrow> gui_ok g'"
  by (induction ls arbitrary: g) (auto simp: bind_eq_Some_conv intro: gui_ok_step)

end
