(* ===== verification/Gui_Properties.thy ===== *)
theory Gui_Properties
  imports Gui_Invariants Server_Session
begin

text \<open>
  The properties of the front end, over all its runs from a new window: its states are well
  formed, one transfer runs at a time, what the user sees of a transfer's progress, what
  its workers ask of the engine and report, and that closing the window can hang.
\<close>

section \<open>A concrete Qt\<close>

text \<open>For witnesses: numbered markers replaced in one pass, blanks cut off, and a search
  that ignores case.\<close>

fun subst_args :: "bytes list \<Rightarrow> bytes \<Rightarrow> bytes" where
  "subst_args as [] = []"
| "subst_args as [c] = [c]"
| "subst_args as (c # d # cs) =
     (if c = CHR ''%'' \<and> d = CHR ''1'' \<and> 0 < length as then as ! 0 @ subst_args as cs
      else if c = CHR ''%'' \<and> d = CHR ''2'' \<and> 1 < length as then as ! 1 @ subst_args as cs
      else c # subst_args as (d # cs))"

fun plain_render :: "qt_text \<Rightarrow> bytes" where
  "plain_render (Str s) = s"
| "plain_render (Num n) = nat_to_dec (nat n)"
| "plain_render (Arg t as) = subst_args (map plain_render as) (plain_render t)"
| "plain_render (Cat t u) = plain_render t @ plain_render u"

definition contains_text :: "bytes \<Rightarrow> bytes \<Rightarrow> bool" where
  "contains_text s w \<longleftrightarrow>
     list_ex (\<lambda>n. map to_lower (take (length w) (drop n s)) = map to_lower w) [0..<Suc (length s)]"

definition plain_qt :: qt_api where
  "plain_qt = \<lparr>qt_render = plain_render, qt_trimmed = trim_back \<circ> trim_front, qt_contains_ci = contains_text\<rparr>"

section \<open>A receive, step by step\<close>

definition good_folder :: recv_env where
  "good_folder = \<lparr>re_absolute = ''/d'', re_directory = True, re_start = True, re_advertise = True,
     re_host_name = None\<rparr>"

text \<open>From a new window to the worker inside \<open>receive_file\<close>.\<close>

definition to_receiving :: "gui_label list" where
  "to_receiving = [U_receive, U_start, T_recv_begin good_folder]"

lemma to_receiving_run:
  assumes "qt_trimmed Q downloads \<noteq> []"
  shows "\<exists>g. gui_run Q to_receiving (new_gui downloads) = Some g \<and> g_phase g W_recv = Ph_running
     \<and> g_closing g = Window_open \<and> g_dialogs g = [] \<and> rp_worker_thread (g_recv g)"
  using assms
  by (simp add: to_receiving_def gui_step_def user_step_def loop_step_def thread_step_defs only_if_def user_at_def
      new_gui_def new_recv_page_def show_receive_def recv_reset_def recv_set_busy_def click_start_def
      start_receive_def start_thread_def set_phase_def recv_begin_def recv_worker_begin_def good_folder_def
      emit_events_def post_def Let_def)

section \<open>Closing\<close>

text \<open>The window waits for the receive thread, which waits for the window.\<close>

definition hung :: "gui \<Rightarrow> bool" where
  "hung g \<longleftrightarrow> g_closing g = Join W_recv \<and> g_phase g W_recv = Ph_asking \<and> rp_worker_thread (g_recv g)"

lemma hung_user: "hung g \<Longrightarrow> user_step Q l g = None"
  by (cases l) (auto simp: hung_def user_step_def only_if_def user_at_def split: list.split)

lemma hung_loop: "hung g \<Longrightarrow> loop_step Q l g = None"
  by (cases l) (auto simp: hung_def loop_step_def only_if_def split: list.split)

lemma hung_worker: "worker_step g g' \<Longrightarrow> hung g \<Longrightarrow> hung g'"
  by (induction rule: worker_step.induct) (auto simp: hung_def)

lemma hung_run: "gui_run Q ls g = Some g' \<Longrightarrow> hung g \<Longrightarrow> hung g'"
proof (induction ls arbitrary: g)
  case (Cons l ls)
  then obtain g1 where g1: "gui_step Q l g = Some g1" "gui_run Q ls g1 = Some g'"
    by (auto simp: bind_eq_Some_conv)
  then have "thread_step Q l g = Some g1"
    using Cons.prems(2) by (simp add: gui_step_def hung_user hung_loop)
  then show ?case using Cons.IH [OF g1(2)] hung_worker thread_worker_step Cons.prems(2) by blast
qed simp

lemma gui_run_append: "gui_run Q (ls @ ms) g = Option.bind (gui_run Q ls g) (gui_run Q ms)"
proof (induction ls arbitrary: g)
  case (Cons l ls)
  then show ?case by (cases "gui_step Q l g") simp_all
qed simp

lemma close_and_ask:
  assumes "g_phase g W_recv = Ph_running" and "g_closing g = Window_open" and "g_dialogs g = []"
    and "rp_worker_thread (g_recv g)"
  shows "\<exists>g'. gui_run Q [U_close, T_offer name n] g = Some g' \<and> hung g'"
  using assms
  by (simp add: gui_step_def user_step_def loop_step_def thread_step_defs only_if_def join_def set_phase_def
      post_def hung_def)

section \<open>Properties\<close>

text \<open>
  C27: The front end's states are well formed, in every run. A worker's thread exists only
  while its page holds the pointer to it, a page whose thread has ended is about to be told,
  and the receive worker is blocked on an answer exactly when one question is queued or
  open on the screen, never two.
\<close>

theorem gui_well_formed:
  assumes "gui_run Q ls (new_gui downloads) = Some g"
  shows "(g_phase g w \<noteq> Ph_none \<longrightarrow> has_thread w g)
    \<and> (has_thread w g \<and> g_phase g w = Ph_none \<longrightarrow> (w, C_thread_finished) \<in> set (g_queue g))
    \<and> asks g = (if g_phase g W_recv = Ph_asking then 1 else 0)"
proof -
  have ok: "gui_ok g" using gui_ok_run [OF assms gui_ok_new] .
  then have t: "thread_ok (g_phase g w) (calls w g) (has_thread w g) (g_quit g w)"
    using threads_okD by (simp add: gui_ok_def)
  then have "C_thread_finished \<in> set (calls w g)" if "has_thread w g" "g_phase g w = Ph_none"
    using that last_in_set by (fastforce simp: thread_ok_def)
  then show ?thesis
    using ok thread_okD(2) [OF t] by (auto simp: gui_ok_def calls_ok_def calls_def)
qed

theorem gui_well_formed_witness:
  "\<exists>g. gui_run plain_qt to_receiving (new_gui ''/d'') = Some g \<and> has_thread W_recv g \<and> asks g = 0"
proof -
  obtain g where g: "gui_run plain_qt to_receiving (new_gui ''/d'') = Some g" "g_phase g W_recv = Ph_running"
    using to_receiving_run [of plain_qt "''/d''"]
    by (auto simp: plain_qt_def trim_back_def is_space_def)
  then show ?thesis using gui_well_formed [OF g(1), of W_recv] by auto
qed

text \<open>
  C26: One transfer at a time. While a worker is in its run, the window shows the page it
  belongs to and every button that could leave the page or start something is disabled;
  so the window never receives and sends at once.
\<close>

theorem one_transfer_at_a_time:
  assumes "gui_run Q ls (new_gui downloads) = Some g"
  shows "(in_run (g_phase g W_recv) \<longrightarrow> recv_locked g) \<and> (in_run (g_phase g W_send) \<longrightarrow> send_locked g)
    \<and> \<not> (in_run (g_phase g W_recv) \<and> in_run (g_phase g W_send))"
  using gui_ok_run [OF assms gui_ok_new]
  by (auto simp: gui_ok_def pages_ok_def busy_def recv_locked_def send_locked_def)

theorem one_transfer_at_a_time_witness:
  "\<exists>g. gui_run plain_qt to_receiving (new_gui ''/d'') = Some g \<and> in_run (g_phase g W_recv) \<and> recv_locked g"
proof -
  obtain g where g: "gui_run plain_qt to_receiving (new_gui ''/d'') = Some g" "g_phase g W_recv = Ph_running"
    using to_receiving_run [of plain_qt "''/d''"]
    by (auto simp: plain_qt_def trim_back_def is_space_def)
  then show ?thesis using one_transfer_at_a_time [OF g(1)] by auto
qed

text \<open>
  The receiver's user sees all progress before the end. Whenever the end of a receive
  is next to be delivered to its page, no progress of it is left behind it.
\<close>

theorem receive_progress_before_end:
  assumes "gui_run Q ls (new_gui downloads) = Some g"
    and "g_queue g = (W_recv, C_finished ok message) # q"
  shows "(W_recv, C_progress percent detail) \<notin> set q"
proof -
  have "progress_first (calls W_recv g)"
    using gui_ok_run [OF assms(1) gui_ok_new] by (simp add: gui_ok_def calls_ok_def)
  then show ?thesis using calls_head [OF assms(2), of W_recv] by (force simp: calls_def)
qed

definition received_ok :: file_receive_result where
  "received_ok = empty_result\<lparr>frr_success := True, frr_path := ''/d/declined.txt'', frr_bytes_received := 3\<rparr>"

theorem receive_progress_before_end_witness:
  "\<exists>g q ok message. gui_run plain_qt (to_receiving @ [T_recv_progress 1 3, T_recv_end True received_ok,
       G_deliver, G_deliver]) (new_gui ''/d'') = Some g
     \<and> g_queue g = (W_recv, C_finished ok message) # q \<and> (W_recv, C_progress 33 (Str [])) \<notin> set q"
proof -
  have "\<exists>g ok message q. gui_run plain_qt (to_receiving @ [T_recv_progress 1 3, T_recv_end True received_ok,
       G_deliver, G_deliver]) (new_gui ''/d'') = Some g \<and> g_queue g = (W_recv, C_finished ok message) # q"
    by (simp add: gui_step_def user_step_def loop_step_def thread_step_defs only_if_def user_at_def
        to_receiving_def plain_qt_def trim_back_def is_space_def new_gui_def new_recv_page_def show_receive_def
        recv_reset_def recv_set_busy_def click_start_def start_receive_def start_thread_def set_phase_def
        recv_begin_def recv_worker_begin_def good_folder_def emit_events_def post_def Let_def slot_defs
        recv_worker_end_def worker_progress_def recv_on_status_def recv_on_progress_def) blast
  then show ?thesis using receive_progress_before_end by blast
qed

text \<open>
  C29: The sender's user sees no progress. The send worker posts its progress to itself, and
  its thread is busy in the run that reports it: in every state of every run in which a
  file is being sent, the bar stands at zero and no report is on its way to the page.
\<close>

theorem send_progress_unseen:
  assumes "gui_run Q ls (new_gui downloads) = Some g" and "in_run (g_phase g W_send)"
  shows "sp_bar (g_send g) = 0 \<and> (W_send, C_progress percent detail) \<notin> set (g_queue g)"
proof -
  have "calls_ok g" using gui_ok_run [OF assms(1) gui_ok_new] by (simp add: gui_ok_def)
  with assms(2) show ?thesis by (force simp: calls_ok_def calls_def)
qed

text \<open>A send to a typed address, nearly done.\<close>

definition to_sending :: "gui_label list" where
  "to_sending = [U_send, U_file ''/f'', U_host ''h'', U_send_file,
     T_send_begin \<lparr>se_exists = True, se_directory = False, se_connect = True\<rparr>, T_send_progress 99 100]"

lemmas send_run_simps = gui_step_def user_step_def loop_step_def thread_step_defs only_if_def user_at_def
  to_sending_def plain_qt_def trim_back_def is_space_def new_gui_def new_send_page_def show_send_def
  refresh_def refresh_peers_def clear_peers_def send_reset_def browse_file_def click_send_file_def
  click_send_def selected_peer_def send_set_busy_def start_thread_def set_phase_def send_begin_def
  send_worker_begin_def emit_events_def post_def Let_def

theorem send_progress_unseen_witness:
  "\<exists>g. gui_run plain_qt to_sending (new_gui ''/d'') = Some g \<and> g_backlog g \<noteq> [] \<and> sp_bar (g_send g) = 0"
proof -
  have "\<exists>g. gui_run plain_qt to_sending (new_gui ''/d'') = Some g \<and> g_backlog g \<noteq> [] \<and> in_run (g_phase g W_send)"
    by (simp add: send_run_simps)
  then show ?thesis using send_progress_unseen by blast
qed

text \<open>
  C28: Closing the window can hang for ever. A user who closes the window while it waits for
  a sender ends the event loop and joins the receive thread; when a header then arrives,
  that thread waits for an answer only the event loop could give. From there no run
  closes the window.
\<close>

theorem close_can_hang:
  assumes "qt_trimmed Q downloads \<noteq> []"
  shows "\<exists>ls g. gui_run Q ls (new_gui downloads) = Some g \<and> g_closing g = Join W_recv
    \<and> (\<nexists>ms g'. gui_run Q ms g = Some g' \<and> g_closing g' = Window_closed)"
proof -
  obtain g where g: "gui_run Q to_receiving (new_gui downloads) = Some g" "g_phase g W_recv = Ph_running"
      "g_closing g = Window_open" "g_dialogs g = []" "rp_worker_thread (g_recv g)"
    using to_receiving_run [OF assms] by blast
  obtain h where h: "gui_run Q [U_close, T_offer ''a'' 1] g = Some h" "hung h"
    using close_and_ask [OF g(2,3,4,5)] by blast
  have "gui_run Q (to_receiving @ [U_close, T_offer ''a'' 1]) (new_gui downloads) = Some h"
    by (simp only: gui_run_append g(1) h(1) Option.bind.bind_lunit)
  moreover have "\<not> (gui_run Q ms h = Some g' \<and> g_closing g' = Window_closed)" for ms g'
    using hung_run [OF _ h(2)] by (auto simp: hung_def)
  ultimately show ?thesis using h(2) by (auto simp: hung_def)
qed

theorem close_can_hang_witness:
  "\<exists>ls g. gui_run plain_qt ls (new_gui ''/d'') = Some g \<and> g_closing g = Join W_recv
    \<and> (\<nexists>ms g'. gui_run plain_qt ms g = Some g' \<and> g_closing g' = Window_closed)"
  by (rule close_can_hang) (simp add: plain_qt_def trim_back_def is_space_def)

text \<open>What Qt documents of \<open>arg\<close> and \<open>contains\<close>, as far as the end of a receive relies on it:
  the first text appears in a message with \<open>%1\<close>, and a text contains its parts.\<close>

definition inserts_path :: "qt_api \<Rightarrow> bool" where
  "inserts_path Q \<longleftrightarrow> (\<forall>result. \<exists>x y. qt_render Q (saved_message result) = x @ frr_path result @ y)"

definition finds_parts :: "qt_api \<Rightarrow> bool" where
  "finds_parts Q \<longleftrightarrow> (\<forall>x w y. qt_contains_ci Q (x @ w @ y) w)"

text \<open>The button of the completion box opens the saved file, if nothing in its path is lost by
  reading the path back out of the message.\<close>

lemma second_line_of: "NL \<notin> set x \<Longrightarrow> NL \<notin> set p \<Longrightarrow> second_line (x @ NL # p @ NL # y) = p"
proof (induction x)
  case Nil
  have "takeWhile (\<lambda>c. c \<noteq> NL) (p @ NL # y) = p @ takeWhile (\<lambda>c. c \<noteq> NL) (NL # y)"
    using Nil by (intro takeWhile_append2) auto
  then show ?case by (simp add: second_line_def)
qed (auto simp: second_line_def)

lemma saved_file_revealed:
  assumes "qt_render Q (saved_message result) = ''Saved to:'' @ NL # frr_path result @ NL # rest"
    and "NL \<notin> set (frr_path result)" and "frr_path result \<noteq> []"
    and "qt_trimmed Q (frr_path result) = frr_path result"
  shows "reveal_file Q True (saved_message result) = Some (frr_path result)"
  using assms(2-) second_line_of [of "''Saved to:''" "frr_path result" rest]
  by (simp add: reveal_file_def assms(1))

text \<open>
  C31: A file whose path contains the word "declined" is taken for a declined transfer. The
  page tells the two apart by searching the message, which holds the path: the worker
  reports success, but the page neither shows that the transfer is complete nor returns
  to the home page.
\<close>

theorem saved_name_taken_for_declined:
  assumes "inserts_path Q" and "finds_parts Q" and "frr_path result = x @ ''declined'' @ y"
  shows "signals (recv_worker_end out True result) = [Sig_finished True (saved_message result)]
    \<and> g_dialogs (dispatch_call Q W_recv (C_finished True (saved_message result)) g) = g_dialogs g
    \<and> g_shown (dispatch_call Q W_recv (C_finished True (saved_message result)) g) = g_shown g"
proof -
  obtain u v where "qt_render Q (saved_message result) = u @ frr_path result @ v"
    using assms(1) unfolding inserts_path_def by blast
  then have "qt_render Q (saved_message result) = (u @ x) @ ''declined'' @ (y @ v)"
    by (simp only: assms(3) append_assoc)
  then have "qt_contains_ci Q (qt_render Q (saved_message result)) ''declined''"
    using assms(2) by (simp only: finds_parts_def)
  then show ?thesis by (simp add: recv_worker_end_def slot_defs recv_on_finished_def)
qed

lemma contains_parts: "contains_text (x @ w @ y) w"
  by (auto simp: contains_text_def list_ex_iff intro!: bexI [of _ "length x"])

lemma plain_inserts: "inserts_path plain_qt" "finds_parts plain_qt"
proof -
  have "qt_render plain_qt (saved_message result) = (''Saved to:'' @ [NL]) @ frr_path result
      @ [NL, NL] @ ''('' @ format_bytes (frr_bytes_received result) @ '', SHA-256 verified)''" for result
    by (simp add: plain_qt_def saved_message_def)
  then show "inserts_path plain_qt" unfolding inserts_path_def by blast
  show "finds_parts plain_qt" by (simp add: finds_parts_def plain_qt_def contains_parts)
qed

theorem saved_name_taken_for_declined_witness:
  "frr_path received_ok = ''/d/declined.txt''
   \<and> g_dialogs (dispatch_call plain_qt W_recv (C_finished True (saved_message received_ok)) (new_gui ''/d'')) = []"
  using saved_name_taken_for_declined [OF plain_inserts, of received_ok "''/d/''" "''.txt''" _ "new_gui ''/d''"]
  by (simp add: received_ok_def new_gui_def)

text \<open>
  C30: A click on Send starts exactly the transfer chosen. The worker starts only when a file
  is set and either a device is selected or an address typed, not both; and it connects to
  that device, or to that address at the default port, and nowhere else.
\<close>

theorem send_goes_where_chosen:
  assumes "gui_run Q ls (new_gui downloads) = Some g"
    and "gui_run Q [U_send_file, T_send_begin \<lparr>se_exists = True, se_directory = False, se_connect = ok\<rparr>] g = Some g'"
  shows "qt_trimmed Q (sp_file (g_send g)) \<noteq> []
    \<and> (selected_peer (g_send g) = None) = (qt_trimmed Q (sp_host (g_send g)) \<noteq> [])
    \<and> {a. (W_send, Did a) \<in> set (g_log g')} = {a. (W_send, Did a) \<in> set (g_log g)} \<union>
        {case selected_peer (g_send g) of
           Some r \<Rightarrow> Act_connect (pr_host r) (pr_port r)
         | None \<Rightarrow> Act_connect (qt_trimmed Q (sp_host (g_send g))) k_default_port}"
proof -
  have ok: "gui_ok g" using gui_ok_run [OF assms(1) gui_ok_new] .
  obtain g1 where g1: "gui_step Q U_send_file g = Some g1"
    and g2: "gui_step Q (T_send_begin \<lparr>se_exists = True, se_directory = False, se_connect = ok\<rparr>) g1 = Some g'"
    using assms(2) by (auto simp: bind_eq_Some_conv)
  have click: "user_at Send g" "sp_send_enabled (g_send g)" "g1 = click_send_file Q g"
    using g1 by (auto simp: gui_step_def user_step_def loop_step_def thread_step_defs only_if_def split: if_splits)
  have idle: "g_phase g W_send \<noteq> Ph_started"
    using user_at_free(6) [OF ok click(1)] click(2) by (auto simp: busy_def)
  have run: "g_phase g1 W_send = Ph_started"
      "g' = send_begin \<lparr>se_exists = True, se_directory = False, se_connect = ok\<rparr> g1"
    using g2 by (auto simp: gui_step_def user_step_def loop_step_def thread_step_defs only_if_def split: if_splits)
  obtain c job p where cs: "click_send Q (g_send g) = (c, job, p)" by (cases "click_send Q (g_send g)")
  have st: "c = Started" using run(1) idle cs
    by (cases c) (auto simp: click(3) click_send_file_def open_dialog_def)
  obtain f host port where j: "job = Some (f, host, port)"
    using cs st by (auto simp: click_send_def Let_def split: if_splits option.splits)
  have log: "g_log g' = g_log g @ map (Pair W_send) (fst (send_worker_begin
      \<lparr>se_exists = True, se_directory = False, se_connect = ok\<rparr> f host port))"
    by (simp add: run(2) click(3) click_send_file_def cs st j send_begin_def start_thread_def set_phase_def
        emit_events_def post_def split: prod.split)
  show ?thesis using cs st j log
    by (auto simp: click_send_def send_worker_begin_def Let_def split: if_splits option.splits)
qed

theorem send_goes_where_chosen_witness:
  "\<exists>g g'. gui_run plain_qt [U_send, U_file ''/f'', U_host ''h''] (new_gui ''/d'') = Some g
     \<and> gui_run plain_qt [U_send_file, T_send_begin \<lparr>se_exists = True, se_directory = False, se_connect = True\<rparr>] g
         = Some g'
     \<and> {a. (W_send, Did a) \<in> set (g_log g')} = {Act_connect ''h'' k_default_port}"
proof -
  obtain g where g: "gui_run plain_qt [U_send, U_file ''/f'', U_host ''h''] (new_gui ''/d'') = Some g"
    and at: "user_at Send g" "sp_send_enabled (g_send g)" "sp_file (g_send g) = ''/f''"
      "sp_host (g_send g) = ''h''" "sp_current (g_send g) = None" "\<not> sp_send_thread (g_send g)" "g_log g = []"
    by (simp add: send_run_simps)
  let ?ls = "[U_send_file, T_send_begin \<lparr>se_exists = True, se_directory = False, se_connect = True\<rparr>]"
  have "\<exists>g'. gui_run plain_qt ?ls g = Some g'"
    using at by (simp add: send_run_simps)
  then obtain g' where g': "gui_run plain_qt ?ls g = Some g'" by blast
  have "selected_peer (g_send g) = None" "qt_trimmed plain_qt (sp_host (g_send g)) = ''h''"
    using at by (simp_all add: selected_peer_def plain_qt_def trim_back_def is_space_def)
  then show ?thesis using send_goes_where_chosen [OF g g'] g g' at(7) by auto
qed

text \<open>
  What a receive in the window does and says. It starts the server, advertises, receives
  into the chosen folder, which \<open>receive_file\<close> always takes for a folder whatever the file
  system says of it, and stops the server; it signals its status once and then its end once,
  and the end is a success exactly when the file was received or the user declined it.
\<close>

theorem window_receives_into_folder:
  assumes "recv_worker_begin Q E d name port = (es, Some out)"
  shows "qs_output_is_dir (receive_begin is_dir out True True s) \<and> qs_output_dir (receive_begin is_dir out True True s) = out
    \<and> (out = re_absolute E \<or> out = re_absolute E @ ''/'')
    \<and> [a. Did a \<leftarrow> es @ recv_worker_end out ok result]
        = [Act_start_server port, Act_advertise (qt_trimmed Q name) port, Act_receive out, Act_stop_server]
    \<and> (\<exists>st t. signals (es @ recv_worker_end out ok result)
        = [Sig_status st, Sig_finished (ok \<or> frr_rejected result) t])"
proof -
  have out: "out = with_separator (re_absolute E)"
    using assms by (auto simp: recv_worker_begin_def Let_def split: if_splits)
  then have dir: "looks_like_dir is_dir out" by (auto simp: looks_like_dir_def with_separator_def)
  show ?thesis
    using assms dir out
    by (auto simp: receive_begin_def recv_worker_begin_def recv_worker_end_def with_separator_def signals_def
        Let_def split: if_splits)
qed

theorem window_receives_into_folder_witness:
  "qs_output_dir (receive_begin (\<lambda>_. False) ''/d/'' True True (new_server 53317 Map.empty)) = ''/d/''"
proof -
  have "\<exists>es. recv_worker_begin plain_qt good_folder ''/d'' [] k_default_port = (es, Some ''/d/'')"
    by (simp add: recv_worker_begin_def good_folder_def with_separator_def Let_def)
  then obtain es where "recv_worker_begin plain_qt good_folder ''/d'' [] k_default_port = (es, Some ''/d/'')"
    by blast
  from window_receives_into_folder [OF this, of "\<lambda>_. False" "new_server 53317 Map.empty"] show ?thesis by simp
qed

end
