(* ===== verification/Prompted_Session.thy ===== *)
theory Prompted_Session
  imports Server_Races Waits_End Gui_Properties
begin

text \<open>
  A receive that asks its user and is told yes: the session that stores the file, for every
  header and body, and what it means for the window, which always receives this way. The
  worker of the window is put together with the sessions of \<open>receive_file\<close> it waits for.
\<close>

section \<open>An accepted offer\<close>

definition accepted_labels :: "handle \<Rightarrow> handle \<Rightarrow> file_transfer_header \<Rightarrow> bytes list \<Rightarrow> session_label list" where
  "accepted_labels c st h ds =
     [L_connection c (PeerStreamStarted st), L_stream st (Receive [encode_file_header h]), L_wake, L_answer True,
      L_send_accept, L_stream st (Receive ds), L_stream st PeerSendShutdown, L_stream st (SendComplete 0),
      L_wake, L_timeout]"

lemma accepted_one_stream: "one_stream (accepted_labels c st h ds)"
  by (simp add: accepted_labels_def no_new_stream_def)

definition offered :: "handle \<Rightarrow> handle \<Rightarrow> file_transfer_header \<Rightarrow> quic_server \<Rightarrow> quic_server" where
  "offered c st h s = (with_header h (on_connection_event c (PeerStreamStarted st) s))\<lparr>qs_offer_ready := True\<rparr>"

text \<open>The offer is made and accepted, and the stream may send its body.\<close>

lemma offer_made:
  assumes "wf_header h" and "s = receive_begin is_dir p True g s0"
  shows "on_stream_event evp E st (Receive [encode_file_header h]) (on_connection_event c (PeerStreamStarted st) s)
      = offered c st h s"
    and "qs_offer_ready (offered c st h s)" and "\<not> qs_file_done (offered c st h s)"
    and "qs_file_header (offered c st h s) = h"
proof -
  show "on_stream_event evp E st (Receive [encode_file_header h]) (on_connection_event c (PeerStreamStarted st) s)
      = offered c st h s"
    unfolding offered_def using assms
    by (intro offer_received) (simp_all add: on_connection_event_def receive_begin_def api_call_def Let_def)
  show "qs_offer_ready (offered c st h s)" "\<not> qs_file_done (offered c st h s)"
    "qs_file_header (offered c st h s) = h"
    using assms(2) by (simp_all add: offered_def with_header_def on_connection_event_def receive_begin_def
        api_call_def Let_def)
qed

definition target_of :: "(path \<Rightarrow> bool) \<Rightarrow> path \<Rightarrow> file_transfer_header \<Rightarrow> path" where
  "target_of is_dir p h = (if looks_like_dir is_dir p then path_append p (fth_name h) else p)"

lemma offer_accepted:
  assumes "s = receive_begin is_dir p True g s0"
  obtains a where "accept_offer good_env (offered c st h s) = (Rf_accepting, a)" and "body_state [] a"
    and "qs_file_header a = h" and "qs_output_path a = target_of is_dir p h" and "qs_receiving_file a"
    and "\<not> qs_file_done a"
proof -
  have open_ok: "env_open good_env q" for q by (simp add: good_env_def)
  let ?a = "snd (accept_offer good_env (offered c st h s))"
  note simps = accept_offer_def open_output_file_def open_ok case_prod_beta offered_def target_of_def
    on_connection_event_def receive_begin_def api_call_def with_header_def Let_def assms
  have "accept_offer good_env (offered c st h s) = (Rf_accepting, ?a)" by (simp add: simps)
  moreover have "body_state [] ?a" by (simp add: simps body_state_def file_truncate_def)
  moreover have "qs_file_header ?a = h" "qs_output_path ?a = target_of is_dir p h" "qs_receiving_file ?a"
    "\<not> qs_file_done ?a" by (simp_all add: simps)
  ultimately show thesis by (rule that)
qed

text \<open>The body, FIN and the completion of the answer.\<close>

lemma accepted_body:
  assumes "evp_streaming evp" and "body_state [] a" and "receive_spec evp h (concat ds)"
    and "\<forall>d \<in> set ds. length d < 4294967296" and "qs_file_header a = h" and "qs_receiving_file a"
    and t: "t = on_stream_event evp good_env st (SendComplete 0) (on_stream_event evp good_env st PeerSendShutdown
              (on_stream_event evp good_env st (Receive ds) a))"
  shows "qs_file_done t" and "qs_file_ok t" and "qs_files t (qs_output_path a) = Some (concat ds)"
proof -
  define r where "r = fold (append_file_bytes good_env) ds a"
  have r: "body_state (concat ds) r" "same_session r a"
    using body_state_fold [OF assms(2) _ assms(4), of good_env] by (simp_all add: r_def good_env_def)
  have h: "qs_file_header r = h" "qs_output_path r = qs_output_path a" "qs_receiving_file r"
    using r(2) assms(5,6) by (simp_all add: same_session_def)
  have v: "verdict_of evp r" using verdict_spec [OF assms(1) r(1)] assms(3) h(1) by simp
  have "on_stream_event evp good_env st (Receive ds) a = r"
    using assms(6) by (simp add: on_stream_event_def r_def)
  moreover have "qs_file_accepted r" using r(1) by (simp add: body_state_def)
  ultimately have fin: "t = on_stream_event evp good_env st (SendComplete 0) (finish_file_receive evp good_env st r)"
    using h(3) by (simp add: t on_stream_event_def)
  show "qs_file_done t" "qs_file_ok t"
    using v h(3) by (simp_all add: fin finish_eq ack_send_def good_env_def on_stream_event_def
        notify_file_waiter_def Let_def)
  have "length (concat ds) = unat (fth_size h)" using assms(3) by (simp add: receive_spec_def)
  then have "qs_files r (qs_output_path a) = Some (concat ds)"
    using r(1) h by (simp add: body_state_def)
  then show "qs_files t (qs_output_path a) = Some (concat ds)"
    by (simp add: fin on_stream_event_def notify_file_waiter_def Let_def)
qed

lemma accepted_session:
  assumes "evp_streaming evp" and "wf_header h" and "receive_spec evp h (concat ds)"
    and "\<forall>d \<in> set ds. length d < 4294967296"
  shows "\<exists>s. session_run evp (receive_start is_dir p True g s0) (accepted_labels c st h ds) (Rf_returned True, s)
    \<and> qs_files s (target_of is_dir p h) = Some (concat ds)"
proof -
  define b where "b = receive_begin is_dir p True g s0"
  note made = offer_made [OF assms(2) b_def]
  obtain a where a: "accept_offer good_env (offered c st h b) = (Rf_accepting, a)" "body_state [] a"
    "qs_file_header a = h" "qs_output_path a = target_of is_dir p h" "qs_receiving_file a" "\<not> qs_file_done a"
    by (rule offer_accepted [OF b_def])
  define a1 where "a1 = snd (server_send good_env (qs_file_stream a) msg_accept False a)"
  have a1: "body_state [] a1" "qs_file_header a1 = h" "qs_receiving_file a1" "qs_output_path a1 = target_of is_dir p h"
    using a by (simp_all add: a1_def body_state_def)
  define t where "t = on_stream_event evp good_env st (SendComplete 0) (on_stream_event evp good_env st PeerSendShutdown
              (on_stream_event evp good_env st (Receive ds) a1))"
  note fin = accepted_body [OF assms(1) a1(1) assms(3,4) a1(2,3) t_def]
  have "session_run evp (Rf_wait_done, t) [L_wake, L_timeout] (Rf_returned True, stop_receiving t)"
    by (intro run_step [OF done_ok] run_step [OF drain_timeout] run_nil fin)
  then have "session_run evp (Rf_wait_done, a1) [L_stream st (Receive ds), L_stream st PeerSendShutdown,
      L_stream st (SendComplete 0), L_wake, L_timeout] (Rf_returned True, stop_receiving t)"
    unfolding t_def by (intro run_step [OF stream_callback])
  then have "session_run evp (Rf_accepting, a) [L_send_accept, L_stream st (Receive ds), L_stream st PeerSendShutdown,
      L_stream st (SendComplete 0), L_wake, L_timeout] (Rf_returned True, stop_receiving t)"
    unfolding a1_def by (rule run_step [OF send_accept])
  moreover have "session_step evp (Rf_prompt h, offered c st h b) (L_answer True) (Rf_accepting, a)"
    using answer_yes [of evp h "offered c st h b" good_env] a(1) by simp
  moreover have "session_step evp (Rf_wait_offer, offered c st h b) L_wake (Rf_prompt h, offered c st h b)"
    using offer_arrived [of "offered c st h b" evp] made by simp
  ultimately have "session_run evp (Rf_wait_offer, offered c st h b)
      [L_wake, L_answer True, L_send_accept, L_stream st (Receive ds), L_stream st PeerSendShutdown,
       L_stream st (SendComplete 0), L_wake, L_timeout] (Rf_returned True, stop_receiving t)"
    by (blast intro: run_step)
  then have "session_run evp (Rf_wait_offer, b) (accepted_labels c st h ds) (Rf_returned True, stop_receiving t)"
    unfolding accepted_labels_def made(1) [of evp good_env st c, symmetric]
    by (intro run_step [OF connection_callback] run_step [OF stream_callback])
  then show ?thesis using fin(3) a1(4)
    by (intro exI [of _ "stop_receiving t"]) (simp add: receive_start_def b_def stop_receiving_def)
qed

section \<open>No acceptance without an answer\<close>

definition not_accepting :: "receive_pc \<Rightarrow> bool" where
  "not_accepting pc \<longleftrightarrow> undecided pc \<or> pc = Rf_drain False \<or> pc = Rf_returned False"

lemma not_accepting_step:
  "session_step evp x l y \<Longrightarrow> l \<noteq> L_answer True \<Longrightarrow> not_accepting (fst x) \<Longrightarrow> not_accepting (fst y)"
  by (induction rule: session_step.induct) (auto simp: not_accepting_def)

lemma accepted_was_answered:
  assumes "session_run evp (receive_start is_dir p True g s0) ls (Rf_returned True, s)"
  shows "L_answer True \<in> set ls"
proof (rule ccontr)
  assume no: "L_answer True \<notin> set ls"
  have "not_accepting (fst (Rf_returned True, s))"
    using assms
  proof (rule run_invariant [where P = "\<lambda>x. not_accepting (fst x)"])
    show "not_accepting (fst (receive_start is_dir p True g s0))"
      by (simp add: receive_start_def not_accepting_def)
    show "not_accepting (fst y)" if "session_step evp x l y" "l \<in> set ls" "not_accepting (fst x)" for x l y
      using not_accepting_step [OF that(1) _ that(3)] that(2) no by auto
  qed
  then show False by (simp add: not_accepting_def)
qed

section \<open>The offer accepted is the file stored\<close>

text \<open>The header does not change once an offer was made, and it is the one the user is asked about.\<close>

definition offer_named :: "receive_pc \<times> quic_server \<Rightarrow> bool" where
  "offer_named x \<longleftrightarrow>
     (qs_offer_ready (snd x) \<longrightarrow> qs_header_parsed (snd x) \<and> wf_header (qs_file_header (snd x))
        \<and> (qs_output_is_dir (snd x) \<longrightarrow> qs_output_path (snd x)
             = path_append (qs_output_dir (snd x)) (fth_name (qs_file_header (snd x)))))
     \<and> (\<forall>h. fst x = Rf_prompt h \<longrightarrow> qs_offer_ready (snd x) \<and> h = qs_file_header (snd x))"

text \<open>What an offer fixes, before and after.\<close>

definition offer_kept :: "quic_server \<Rightarrow> quic_server \<Rightarrow> bool" where
  "offer_kept s t \<longleftrightarrow> qs_output_is_dir t = qs_output_is_dir s \<and> qs_output_dir t = qs_output_dir s
     \<and> (qs_header_parsed s \<longrightarrow> qs_header_parsed t \<and> qs_file_header t = qs_file_header s
          \<and> qs_output_path t = qs_output_path s \<and> qs_offer_ready t = qs_offer_ready s)
     \<and> (\<not> qs_header_parsed s \<and> \<not> qs_offer_ready s \<longrightarrow> qs_offer_ready t \<longrightarrow> qs_header_parsed t \<and> wf_header (qs_file_header t)
          \<and> (qs_output_is_dir t \<longrightarrow> qs_output_path t = path_append (qs_output_dir t) (fth_name (qs_file_header t))))"

lemma offer_kept_refl [simp]: "offer_kept s s"
  by (simp add: offer_kept_def)

lemma offer_kept_trans: "offer_kept s t \<Longrightarrow> offer_kept t u \<Longrightarrow> offer_kept s u"
  unfolding offer_kept_def by (cases "qs_header_parsed s"; cases "qs_header_parsed t"; cases "qs_offer_ready t") auto

lemma offer_kept_frame:
  "qs_output_is_dir t = qs_output_is_dir s \<Longrightarrow> qs_output_dir t = qs_output_dir s \<Longrightarrow>
   qs_header_parsed t = qs_header_parsed s \<Longrightarrow> qs_file_header t = qs_file_header s \<Longrightarrow>
   qs_output_path t = qs_output_path s \<Longrightarrow> qs_offer_ready t = qs_offer_ready s \<Longrightarrow> offer_kept s t"
  by (auto simp: offer_kept_def)

lemma offer_kept_append: "offer_kept s (append_file_bytes E d s)"
proof (cases "qs_header_parsed s")
  case True
  then show ?thesis by (simp add: append_parsed offer_kept_def)
next
  case False
  let ?s = "s\<lparr>qs_receive_buffer := qs_receive_buffer s @ d\<rparr>"
  show ?thesis
  proof (cases "decode_opt (qs_receive_buffer ?s)")
    case None
    with False show ?thesis
      by (simp add: append_file_bytes_def try_parse_cases offer_kept_def notify_file_waiter_def set_error_def)
  next
    case (Some p)
    obtain h n where p: "p = (h, n)" by (cases p)
    have wf: "wf_header h" using Some p by (auto simp: decode_opt_def dest!: decode_wf split: prod.splits if_splits)
    obtain ok s3 where o: "open_output_file E (with_header h ?s) = (ok, s3)"
      by (cases "open_output_file E (with_header h ?s)")
    have s3: "qs_output_is_dir s3 = qs_output_is_dir s" "qs_output_dir s3 = qs_output_dir s"
      "qs_offer_ready s3 = qs_offer_ready s"
      using open_output_file_frame(14,15,11) [of E "with_header h ?s"] by (simp_all add: o)
    from False Some p o s3 wf show ?thesis
      by (auto simp: append_file_bytes_def try_parse_cases offer_kept_def auto_accepted_def with_header_def Let_def)
  qed
qed

lemma offer_kept_fold: "offer_kept s (fold (append_file_bytes E) ds s)"
proof (induction ds arbitrary: s)
  case (Cons d ds)
  show ?case using offer_kept_trans [OF offer_kept_append Cons.IH [of "append_file_bytes E d s"]] by simp
qed simp

lemma offer_kept_stream_event: "offer_kept s (on_stream_event evp E h ev s)"
proof (cases ev)
  case (Receive bufs)
  then show ?thesis by (simp add: on_stream_event_def offer_kept_fold)
qed (auto simp: on_stream_event_def finish_eq peer_aborted_def notify_file_waiter_def set_error_def
      api_call_def Let_def intro!: offer_kept_frame)

lemma offer_kept_connection_event:
  "(\<And>st. ev \<noteq> PeerStreamStarted st) \<Longrightarrow> offer_kept s (on_connection_event c ev s)"
  by (cases ev) (auto simp: on_connection_event_def api_call_def Let_def intro!: offer_kept_frame)

lemma offer_kept_listener_event: "offer_kept s (snd (on_listener_event ok ev s))"
  by (cases ev) (auto simp: on_listener_event_def api_call_def intro!: offer_kept_frame)

lemma offer_kept_step:
  assumes "session_step evp x l y" and "\<And>c st. l \<noteq> L_connection c (PeerStreamStarted st)"
  shows "offer_kept (snd x) (snd y)"
  using assms
proof (induction rule: session_step.induct)
  case (connection_callback pc s c cev)
  then have "\<And>st. cev \<noteq> PeerStreamStarted st" by blast
  then show ?case by (simp add: offer_kept_connection_event)
qed (auto simp: offer_kept_stream_event offer_kept_listener_event stop_receiving_def reject_offer_def
      accept_offer_def case_prod_beta Let_def intro!: offer_kept_frame)

lemma offer_named_step:
  assumes "session_step evp x l y" and "offer_named x" and "\<And>c st. l \<noteq> L_connection c (PeerStreamStarted st)"
  shows "offer_named y"
proof -
  have kept: "offer_kept (snd x) (snd y)" by (rule offer_kept_step [OF assms(1,3)])
  have "fst y = fst x \<or> (\<forall>h. fst y = Rf_prompt h \<longrightarrow> qs_offer_ready (snd y) \<and> h = qs_file_header (snd y))"
    using assms(1) by cases (auto simp: accept_offer_def case_prod_beta)
  with kept assms(2) show ?thesis unfolding offer_named_def offer_kept_def
    by (cases "qs_header_parsed (snd x)"; cases "qs_offer_ready (snd x)") auto
qed

lemma offer_kept_run:
  "session_run evp x ls y \<Longrightarrow> no_new_stream ls \<Longrightarrow> offer_kept (snd x) (snd y)"
proof (induction rule: session_run.induct)
  case (run_step x l y ls z)
  then have "offer_kept (snd x) (snd y)" "offer_kept (snd y) (snd z)"
    using offer_kept_step [OF run_step.hyps(1)] by auto
  then show ?case by (rule offer_kept_trans)
qed simp

text \<open>A run with one stream up to some point: either the stream has not begun, or no other follows.\<close>

lemma one_stream_phase:
  "session_run evp x ls y \<Longrightarrow>
   fresh_session x \<and> one_stream (ls @ ms) \<or> offer_named x \<and> no_new_stream (ls @ ms) \<Longrightarrow>
   fresh_session y \<and> one_stream ms \<or> offer_named y \<and> no_new_stream ms"
proof (induction rule: session_run.induct)
  case (run_step x l y ls z)
  have named: "offer_named x" if "fresh_session x" using that by (auto simp: fresh_session_def offer_named_def)
  have "fresh_session y \<and> one_stream (ls @ ms) \<or> offer_named y \<and> no_new_stream (ls @ ms)"
  proof (cases "fresh_session x \<and> one_stream ((l # ls) @ ms)")
    case True
    have start: "offer_named y" if "l = L_connection c (PeerStreamStarted st)" for c st
    proof -
      have "fresh_session y" by (rule fresh_step [OF run_step.hyps(1)]) (use True that in auto)
      then show ?thesis by (auto simp: fresh_session_def offer_named_def)
    qed
    have other: "offer_named y" if "l = L_stream h ev" for h ev
      by (rule offer_named_step [OF run_step.hyps(1) named]) (use True that in auto)
    show ?thesis
    proof (cases "\<exists>h ev. l = L_stream h ev")
      case True
      then show ?thesis using other \<open>fresh_session x \<and> one_stream ((l # ls) @ ms)\<close> by auto
    next
      case False
      then have f: "fresh_session y" using True fresh_step [OF run_step.hyps(1)] by blast
      then have "offer_named y" by (auto simp: fresh_session_def offer_named_def)
      with f show ?thesis using True one_stream_tl [of l "ls @ ms"] by auto
    qed
  next
    case False
    with run_step.prems have "offer_named x \<and> no_new_stream (l # ls @ ms)" by auto
    then show ?thesis using offer_named_step [OF run_step.hyps(1)] by auto
  qed
  then show ?case by (rule run_step.IH)
qed simp

lemma run_split:
  "session_run evp x ls y \<Longrightarrow> l \<in> set ls \<Longrightarrow>
   \<exists>ls1 ls2 u v. ls = ls1 @ l # ls2 \<and> session_run evp x ls1 u \<and> session_step evp u l v \<and> session_run evp v ls2 y"
proof (induction rule: session_run.induct)
  case (run_step x k y ls z)
  show ?case
  proof (cases "l = k")
    case True
    with run_step.hyps show ?thesis
      by (intro exI [of _ "[]"] exI [of _ ls] exI [of _ x] exI [of _ y]) (simp add: session_run.run_nil)
  next
    case False
    then obtain ls1 ls2 u v where "ls = ls1 @ l # ls2" "session_run evp y ls1 u" "session_step evp u l v" "session_run evp v ls2 z"
      using run_step.IH run_step.prems by auto
    moreover from this run_step.hyps(1) have "session_run evp x (k # ls1) u" by (blast intro: session_run.run_step)
    ultimately show ?thesis by (intro exI [of _ "k # ls1"] exI [of _ ls2] exI [of _ u] exI [of _ v]) simp
  qed
qed simp

text \<open>Before a success the user was asked about the very header whose file is stored, and said yes.\<close>

definition agreed_to ::
  "'c evp_api \<Rightarrow> receive_pc \<times> quic_server \<Rightarrow> session_label list \<Rightarrow> file_transfer_header \<Rightarrow> bool" where
  "agreed_to evp start ls h \<longleftrightarrow>
     (\<exists>ls1 ls2 s. ls = ls1 @ L_answer True # ls2 \<and> session_run evp start ls1 (Rf_prompt h, s))"

lemma accepted_was_offered:
  assumes "session_run evp (receive_start is_dir p True g s0) ls (Rf_returned True, s)" and "one_stream ls"
  shows "agreed_to evp (receive_start is_dir p True g s0) ls (qs_file_header s)" and "wf_header (qs_file_header s)"
    and "qs_output_path s = target_of is_dir p (qs_file_header s)"
proof -
  obtain ls1 ls2 u v where ls: "ls = ls1 @ L_answer True # ls2"
    "session_run evp (receive_start is_dir p True g s0) ls1 u" "session_step evp u (L_answer True) v"
    "session_run evp v ls2 (Rf_returned True, s)"
    using run_split [OF assms(1) accepted_was_answered [OF assms(1)]] by blast
  from ls(3) obtain h s1 where u: "u = (Rf_prompt h, s1)" by (auto elim: session_step.cases)
  from one_stream_phase [OF ls(2), of "L_answer True # ls2"] fresh_start assms(2) ls(1) u
  have n: "offer_named u" and m: "no_new_stream ls2" by (auto simp: fresh_session_def)
  have o: "qs_offer_ready s1" "qs_header_parsed s1" "h = qs_file_header s1"
    using n by (auto simp: u offer_named_def)
  have "offer_kept s1 (snd v)" using offer_kept_step [OF ls(3)] by (simp add: u)
  then have k: "offer_kept s1 s" using offer_kept_trans offer_kept_run [OF ls(4) m] by simp
  with o ls(1,2) u n show "agreed_to evp (receive_start is_dir p True g s0) ls (qs_file_header s)"
    "wf_header (qs_file_header s)"
    by (auto simp: agreed_to_def offer_kept_def offer_named_def)
  have "confined is_dir p (qs_files s0) (Rf_returned True, s)" by (rule confined_run [OF assms(1) confined_start])
  then show "qs_output_path s = target_of is_dir p (qs_file_header s)"
    using k n o u by (auto simp: target_of_def confined_def confined_server_def offer_kept_def offer_named_def)
qed

text \<open>The path of a checked transfer is one the call may write to.\<close>

lemma checked_path_allowed:
  assumes "session_run evp (receive_start is_dir p ofr g s0) ls (Rf_returned True, s)" and "one_stream ls"
  shows "checked evp (Rf_returned True, s)" and "allowed is_dir p (qs_output_path s)"
proof -
  show c: "checked evp (Rf_returned True, s)"
    using one_stream_checked [OF assms(1)] fresh_start assms(2) by blast
  have "confined is_dir p (qs_files s0) (Rf_returned True, s)" by (rule confined_run [OF assms(1) confined_start])
  moreover obtain os where "qs_file_out s = Some os" "os_path os = qs_output_path s"
    using c by (auto simp: checked_def sealed_def verify_true checked_server_def linked_def)
  ultimately show "allowed is_dir p (qs_output_path s)" by (auto simp: confined_def confined_server_def)
qed

text \<open>What a call into a folder leaves behind when it returns true.\<close>

lemma accepted_file:
  assumes "session_run evp (receive_start is_dir p True g s0) ls (Rf_returned True, s)" and "one_stream ls"
    and "looks_like_dir is_dir p"
  shows "\<exists>h b. agreed_to evp (receive_start is_dir p True g s0) ls h \<and> safe_file_name (fth_name h)
    \<and> frr_path (qs_file_result s) = path_append p (fth_name h)
    \<and> qs_files s (frr_path (qs_file_result s)) = Some b
    \<and> length b = unat (fth_size h) \<and> frr_bytes_received (qs_file_result s) = fth_size h
    \<and> file_hash evp (qs_files s) (frr_path (qs_file_result s)) = Some (fth_sha256_hex h)"
proof -
  have c: "sealed evp s" "checked_server evp s"
    using checked_path_allowed(1) [OF assms(1,2)] by (simp_all add: checked_def)
  have r: "frr_path (qs_file_result s) = qs_output_path s" "frr_bytes_received (qs_file_result s) = qs_bytes_written s"
    "qs_bytes_written s = fth_size (qs_file_header s)"
    using c(1) by (simp_all add: sealed_def verify_true)
  have path: "qs_output_path s = path_append p (fth_name (qs_file_header s))"
    using accepted_was_offered(3) [OF assms(1,2)] assms(3) by (simp add: target_of_def)
  have name: "safe_file_name (fth_name (qs_file_header s))"
    using accepted_was_offered(2) [OF assms(1,2)] by (simp add: wf_header_def)
  from checked_sealed_file [OF c(2,1)] accepted_was_offered(1) [OF assms(1,2)] r path name show ?thesis by auto
qed

section \<open>Properties\<close>

text \<open>
  An accepted offer is stored. For every well-formed header and every body that matches
  it, cut into buffers in any way, there is a session in which the user is asked, says yes,
  \<open>receive_file\<close> returns true, and the body is the contents of the file at the path given,
  or under the header's name in the folder given.
\<close>

theorem accepted_offer_is_stored:
  assumes "evp_streaming evp" and "wf_header h" and "receive_spec evp h (concat ds)"
    and "\<forall>d \<in> set ds. length d < 4294967296"
  shows "\<exists>ls s. session_run evp (receive_start is_dir p True g s0) ls (Rf_returned True, s)
    \<and> one_stream ls \<and> L_answer True \<in> set ls
    \<and> qs_files s (if looks_like_dir is_dir p then path_append p (fth_name h) else p) = Some (concat ds)"
proof -
  obtain s where s: "session_run evp (receive_start is_dir p True g s0) (accepted_labels 1 2 h ds) (Rf_returned True, s)"
      "qs_files s (target_of is_dir p h) = Some (concat ds)"
    using accepted_session [OF assms, of is_dir p g s0 1 2] by blast
  show ?thesis
    using s accepted_one_stream [of 1 2 h ds] accepted_was_answered [OF s(1)] unfolding target_of_def by blast
qed

theorem accepted_offer_is_stored_witness:
  "\<exists>ls s. session_run toy_evp (receive_start (\<lambda>_. False) ''/d/'' True True (new_server 53317 Map.empty)) ls
     (Rf_returned True, s) \<and> one_stream ls \<and> qs_files s (path_append ''/d/'' (fth_name abc_header)) = Some ''abc''"
  using accepted_offer_is_stored [OF toy_evp_streaming abc_wf, of "[''ab'', ''c'']" "\<lambda>_. False" "''/d/''" True
      "new_server 53317 Map.empty"] abc_spec
  by (auto simp: looks_like_dir_def)

text \<open>
  C24: What the window says was saved was accepted, checked, and is where the user chose. Let the
  worker of the window signal that a file was saved, with the result of a session of its
  \<open>receive_file\<close> in which no second stream starts. Then the user was asked about the header of that
  very file and said yes, and at that moment the path the message names is the name in the header, a
  plain one, under the folder \<open>receive_file\<close> was given, and the file there has the length the header
  announced, which is the one the message names, and the hash it announced. With a second stream
  this fails: \<open>accepted_offer_can_be_replaced\<close> has such a session.
\<close>

theorem window_tells_the_truth:
  assumes "recv_worker_begin Q E d name port = (es, Some out)"
    and "session_run evp (receive_start is_dir out True True s0) ls (Rf_returned ok, s)" and "one_stream ls"
    and "Sig_finished True (saved_message (qs_file_result s))
           \<in> set (signals (recv_worker_end out ok (qs_file_result s)))"
  shows "\<exists>h b. agreed_to evp (receive_start is_dir out True True s0) ls h \<and> safe_file_name (fth_name h)
    \<and> frr_path (qs_file_result s) = path_append out (fth_name h)
    \<and> qs_files s (frr_path (qs_file_result s)) = Some b
    \<and> length b = unat (fth_size h) \<and> frr_bytes_received (qs_file_result s) = fth_size h
    \<and> file_hash evp (qs_files s) (frr_path (qs_file_result s)) = Some (fth_sha256_hex h)"
proof -
  have ok: ok using assms(4) by (auto simp: recv_worker_end_def saved_message_def split: if_splits)
  note run = assms(2) [unfolded eqTrueI [OF ok]]
  have dir: "looks_like_dir is_dir out"
    using assms(1) by (auto simp: recv_worker_begin_def with_separator_def looks_like_dir_def Let_def split: if_splits)
  from accepted_file [OF run assms(3) dir] show ?thesis by blast
qed

theorem window_tells_the_truth_witness:
  "\<exists>ls s h b. session_run toy_evp (receive_start (\<lambda>_. False) ''/d/'' True True (new_server 53317 Map.empty)) ls
       (Rf_returned True, s)
     \<and> agreed_to toy_evp (receive_start (\<lambda>_. False) ''/d/'' True True (new_server 53317 Map.empty)) ls h
     \<and> qs_files s (path_append ''/d/'' (fth_name h)) = Some b"
proof -
  obtain s where s: "session_run toy_evp (receive_start (\<lambda>_. False) ''/d/'' True True (new_server 53317 Map.empty))
      (accepted_labels 1 2 abc_header [''abc'']) (Rf_returned True, s)"
    using accepted_session [OF toy_evp_streaming abc_wf, of "[''abc'']"] abc_spec by fastforce
  have "\<exists>es. recv_worker_begin plain_qt good_folder ''/d'' [] k_default_port = (es, Some ''/d/'')"
    by (simp add: recv_worker_begin_def good_folder_def with_separator_def Let_def)
  then obtain es where es: "recv_worker_begin plain_qt good_folder ''/d'' [] k_default_port = (es, Some ''/d/'')"
    by blast
  have "Sig_finished True (saved_message (qs_file_result s))
      \<in> set (signals (recv_worker_end ''/d/'' True (qs_file_result s)))"
    by (simp add: recv_worker_end_def)
  from window_tells_the_truth [OF es s accepted_one_stream this] s show ?thesis by metis
qed

end
