(* ===== verification/Client_Outcome.thy ===== *)
theory Client_Outcome
  imports Client_Properties
begin

text \<open>
  From a call of \<open>send_file\<close> to what it put on its stream: lemmas that both front ends use to say
  what a result of the call means.
\<close>

section \<open>From the file to the stream\<close>

text \<open>The call of \<open>send_file_internal\<close> that \<open>send_file\<close> makes for a file with these contents,
  with or without a progress callback.\<close>

definition file_job :: "'c evp_api \<Rightarrow> files \<Rightarrow> path \<Rightarrow> bytes \<Rightarrow> bool \<Rightarrow> send_job" where
  "file_job evp fs p content g =
     \<lparr>sj_header = \<lparr>fth_name = path_filename p, fth_size = of_nat (length content),
                   fth_sha256_hex = fst (snd (sha256_file evp fs p [] 0))\<rparr>,
      sj_size = of_nat (length content), sj_file = Some content, sj_progress = g\<rparr>"

lemma send_file_cases:
  assumes "pi_size info = Some (of_nat (length content))"
  obtains "send_file evp E info fs p s = (Sd_returned False, s)"
  | "pi_exists info" "\<not> pi_directory info" "pi_regular info" "fst (sha256_file evp fs p [] 0)" "ready_client s"
      "send_file evp E info fs p s = send_file_internal E (sj_header (file_job evp fs p content g)) s"
proof (cases "ready_client s \<and> pi_exists info \<and> \<not> pi_directory info \<and> pi_regular info \<and> fst (sha256_file evp fs p [] 0)")
  case True
  then have "send_file evp E info fs p s = send_file_internal E (sj_header (file_job evp fs p content g)) s"
    using assms by (auto simp: send_file_def file_job_def ready_client_def case_prod_beta)
  with True that(2) show thesis by blast
next
  case False
  then have "send_file evp E info fs p s = (Sd_returned False, s)"
    using assms by (auto simp: send_file_def ready_client_def case_prod_beta)
  then show thesis by (rule that(1))
qed

text \<open>Once a call has returned, callbacks change neither its result nor what it sent.\<close>

lemma returned_stays:
  assumes "send_run job (Sd_returned b, s) ls (pc, t)"
  shows "pc = Sd_returned b \<and> qc_rejected t = qc_rejected s \<and> client_sends t = client_sends s"
proof -
  let ?P = "\<lambda>x. fst x = Sd_returned b \<and> qc_rejected (snd x) = qc_rejected s \<and> client_sends (snd x) = client_sends s"
  have "?P (pc, t)"
    using assms
  proof (rule send_invariant)
    show "?P (Sd_returned b, s)" by simp
    show "?P y" if "send_step job x l y" "?P x" for x l y
      using that by (cases x) (auto elim: send_step_returnedE)
  qed
  then show ?thesis by simp
qed

lemma body_sent_whole:
  assumes "body_sent (file_job evp fs p content g) cs" and "length content < 2 ^ 64"
  shows "concat (map fst cs) = content" and "snd (last cs)" and "\<forall>c \<in> set (butlast cs). \<not> snd c"
proof -
  have len: "unat (of_nat (length content) :: u64) = length content"
    using assms(2) by (intro unat_of_nat_u64) simp
  have zero: "(of_nat (length content) :: u64) = 0 \<longleftrightarrow> content = []"
    using len by (metis length_0_conv unat_0 unat_eq_zero)
  show "concat (map fst cs) = content" "snd (last cs)" "\<forall>c \<in> set (butlast cs). \<not> snd c"
    using assms(1) len zero
    by (auto simp: body_sent_def file_job_def chunks_of_def split: if_splits)
qed

text \<open>The invariants of the sender at the end of a call.\<close>

lemma sent_invariants:
  assumes "send_run job (send_file_internal E (sj_header job) s0) ls (pc, s)"
    and "ready_client s0" and "replies_inv s0"
  shows "send_inv job (client_sends s0) (pc, s)"
    and "qc_rejected s \<Longrightarrow> \<not> qc_decision_accepted s \<and> \<not> starts_with (qc_decision_buf s) ''ACCEPT''"
proof -
  show "send_inv job (client_sends s0) (pc, s)"
    by (rule send_inv_run [OF assms(1) send_inv_start [OF refl assms(3)]])
  obtain pc1 s1 where start: "send_file_internal E (sj_header job) s0 = (pc1, s1)"
    by (cases "send_file_internal E (sj_header job) s0")
  have "rejection_inv (client_sends s1) (pc, s)"
    using rejection_run [OF assms(1) [unfolded start] rejection_start [OF assms(2,3) start]] .
  then show "qc_rejected s \<Longrightarrow> \<not> qc_decision_accepted s \<and> \<not> starts_with (qc_decision_buf s) ''ACCEPT''"
    by (auto simp: rejection_inv_def replies_inv_def)
qed

text \<open>A success, and a rejection, in terms of the file and the stream.\<close>

lemma send_file_true:
  assumes "send_run (file_job evp fs p content g) (send_file evp E info fs p s0) ls (Sd_returned True, s)"
    and "pi_size info = Some (of_nat (length content))" and "length content < 2 ^ 64" and "replies_inv s0"
    and "header_send = (u32_part (encode_file_header (sj_header (file_job evp fs p content g))), False)"
  shows "pi_exists info \<and> pi_regular info \<and> \<not> pi_directory info \<and> fst (sha256_file evp fs p [] 0)
    \<and> starts_with (qc_decision_buf s) ''ACCEPT'' \<and> starts_with (qc_file_ack s) ''OK''
    \<and> (\<exists>cs. client_sends s = client_sends s0 @ header_send # cs
        \<and> concat (map fst cs) = content \<and> snd (last cs) \<and> (\<forall>c \<in> set (butlast cs). \<not> snd c))"
proof (rule send_file_cases [OF assms(2), where E = E and evp = evp and fs = fs and p = p and s = s0 and g = g])
  assume "send_file evp E info fs p s0 = (Sd_returned False, s0)"
  from returned_stays [OF assms(1) [unfolded this]] show ?thesis by simp
next
  assume path: "pi_exists info" "\<not> pi_directory info" "pi_regular info" "fst (sha256_file evp fs p [] 0)"
    and ready: "ready_client s0"
    and call: "send_file evp E info fs p s0 = send_file_internal E (sj_header (file_job evp fs p content g)) s0"
  note inv = sent_invariants [OF assms(1) [unfolded call] ready assms(4)]
  obtain cs where "client_sends s = client_sends s0 @ header_send # cs" "body_sent (file_job evp fs p content g) cs"
    using inv(1) by (auto simp: send_inv_def send_progressed_def assms(5))
  moreover have "starts_with (qc_decision_buf s) ''ACCEPT''" "starts_with (qc_file_ack s) ''OK''"
    using inv(1) by (auto simp: send_inv_def send_inv_pc replies_inv_def accepted_client_def)
  ultimately show ?thesis using path body_sent_whole [OF _ assms(3)] by blast
qed

lemma send_file_rejected:
  assumes "send_run (file_job evp fs p content g) (send_file evp E info fs p s0) ls (Sd_returned ok, s)"
    and "pi_size info = Some (of_nat (length content))" and "replies_inv s0" and "\<not> qc_rejected s0"
    and "qc_rejected s"
    and "header_send = (u32_part (encode_file_header (sj_header (file_job evp fs p content g))), False)"
  shows "\<not> starts_with (qc_decision_buf s) ''ACCEPT''
    \<and> client_sends s \<in> {client_sends s0, client_sends s0 @ [header_send]}"
proof (rule send_file_cases [OF assms(2), where E = E and evp = evp and fs = fs and p = p and s = s0 and g = g])
  assume "send_file evp E info fs p s0 = (Sd_returned False, s0)"
  from returned_stays [OF assms(1) [unfolded this]] show ?thesis using assms(4,5) by simp
next
  assume "ready_client s0"
    and call: "send_file evp E info fs p s0 = send_file_internal E (sj_header (file_job evp fs p content g)) s0"
  note inv = sent_invariants [OF assms(1) [unfolded call] this(1) assms(3)]
  then show ?thesis using assms(5) by (auto simp: send_inv_def accepted_client_def assms(6))
qed

text \<open>A run that succeeds.\<close>

lemma demo_file_run:
  obtains ls t where "send_run (file_job toy_evp [''d/a.txt'' \<mapsto> ''abc''] ''d/a.txt'' ''abc'' g)
       (send_file toy_evp (good_client 2)
          \<lparr>pi_exists = True, pi_directory = False, pi_regular = True, pi_size = Some 3\<rparr>
          [''d/a.txt'' \<mapsto> ''abc''] ''d/a.txt'' demo_client)
       ls (Sd_returned True, t)"
proof -
  let ?job = "file_job toy_evp [''d/a.txt'' \<mapsto> ''abc''] ''d/a.txt'' ''abc'' g"
  let ?info = "\<lparr>pi_exists = True, pi_directory = False, pi_regular = True, pi_size = Some 3\<rparr>"
  have "send_file toy_evp (good_client 2) ?info [''d/a.txt'' \<mapsto> ''abc''] ''d/a.txt'' demo_client
      = send_file_internal (good_client 2) (sj_header ?job) demo_client"
    using demo_ready(1) abc_hash by (auto simp: send_file_def file_job_def ready_client_def)
  moreover obtain ls t where
    "send_run ?job (send_file_internal (good_client 2) (sj_header ?job) demo_client) ls (Sd_returned True, t)"
    using send_run_success [OF demo_ready(1) refl, of ?job 2] by (auto simp: file_job_def)
  ultimately show thesis using that by simp
qed

end
