(* ===== verification/Window_Send.thy ===== *)
theory Window_Send
  imports Client_Outcome Gui_Workers
begin

text \<open>
  The send worker of the window put together with the calls of \<open>send_file\<close> it waits for: what
  the two messages that name the receiver's part, sent and rejected, say of the transfer. The
  worker makes a client of its own for every transfer, so a rejection of an earlier one, which
  \<open>was_rejected\<close> would still report, cannot show here.
\<close>

lemma worker_verdict:
  assumes "signals (send_worker_end p ok rejected) = [Sig_finished won message]"
  shows "won = ok" and "message = Str ''Transfer rejected by receiver.'' \<longleftrightarrow> \<not> ok \<and> rejected"
  using assms by (auto simp: send_worker_end_def split: if_splits)

section \<open>Properties\<close>

text \<open>
  C25: What the window says of a transfer it made is true. The worker uses a new client, whose
  flags are clear. When it signals that the file was sent, with the result of any run of its
  \<open>send_file\<close>, the path is a regular file that was hashed, the receiver's replies began with
  \<open>ACCEPT\<close> and \<open>OK\<close>, and what went out is the header of this file and then its whole contents,
  with FIN on the last send only. When it says that the receiver rejected the transfer, the
  reply did not begin with \<open>ACCEPT\<close> and nothing but the header went out.
\<close>

theorem sent_message_tells_the_truth:
  assumes "send_run (file_job evp fs p content True) (send_file evp E info fs p s0) ls (Sd_returned ok, s)"
    and "pi_size info = Some (of_nat (length content))" and "length content < 2 ^ 64"
    and "replies_inv s0" and "\<not> qc_rejected s0"
    and "signals (send_worker_end p ok (qc_rejected s)) = [Sig_finished won message]"
    and "header_send = (u32_part (encode_file_header (sj_header (file_job evp fs p content True))), False)"
  shows "(won \<longrightarrow> pi_exists info \<and> pi_regular info \<and> \<not> pi_directory info \<and> fst (sha256_file evp fs p [] 0)
        \<and> starts_with (qc_decision_buf s) ''ACCEPT'' \<and> starts_with (qc_file_ack s) ''OK''
        \<and> (\<exists>cs. client_sends s = client_sends s0 @ header_send # cs
            \<and> concat (map fst cs) = content \<and> snd (last cs) \<and> (\<forall>c \<in> set (butlast cs). \<not> snd c)))
    \<and> (message = Str ''Transfer rejected by receiver.'' \<longrightarrow>
        \<not> starts_with (qc_decision_buf s) ''ACCEPT''
        \<and> client_sends s \<in> {client_sends s0, client_sends s0 @ [header_send]})"
proof (cases ok)
  case True
  then show ?thesis using send_file_true [OF assms(1) [unfolded eqTrueI [OF True]] assms(2-4,7)] worker_verdict [OF assms(6)]
    by simp
next
  case False
  then show ?thesis
    using send_file_rejected [OF assms(1,2,4,5) _ assms(7)] worker_verdict [OF assms(6)] by blast
qed

theorem sent_message_tells_the_truth_witness:
  "\<exists>ls t. send_run (file_job toy_evp [''d/a.txt'' \<mapsto> ''abc''] ''d/a.txt'' ''abc'' True)
       (send_file toy_evp (good_client 2)
          \<lparr>pi_exists = True, pi_directory = False, pi_regular = True, pi_size = Some 3\<rparr>
          [''d/a.txt'' \<mapsto> ''abc''] ''d/a.txt'' demo_client)
       ls (Sd_returned True, t)
     \<and> starts_with (qc_file_ack t) ''OK''
     \<and> (\<exists>h cs. client_sends t = client_sends demo_client @ h # cs \<and> concat (map fst cs) = ''abc'' \<and> snd (last cs))"
proof -
  let ?info = "\<lparr>pi_exists = True, pi_directory = False, pi_regular = True, pi_size = Some 3\<rparr>"
  have size: "pi_size ?info = Some (of_nat (length ''abc''))" and len: "length ''abc'' < 2 ^ 64"
    by simp_all
  obtain ls t where run: "send_run (file_job toy_evp [''d/a.txt'' \<mapsto> ''abc''] ''d/a.txt'' ''abc'' True)
      (send_file toy_evp (good_client 2) ?info [''d/a.txt'' \<mapsto> ''abc''] ''d/a.txt'' demo_client) ls (Sd_returned True, t)"
    by (rule demo_file_run)
  have clear: "\<not> qc_rejected demo_client" by (simp add: demo_client_def new_client_def)
  have sg: "signals (send_worker_end ''d/a.txt'' True (qc_rejected t))
      = [Sig_finished True (Arg (Str ''Sent \"%1\" successfully.'') [Str ''d/a.txt''])]"
    by (simp add: send_worker_end_def)
  from sent_message_tells_the_truth [OF run size len demo_ready(2) clear sg refl] run show ?thesis by blast
qed

end
