(* ===== verification/Cut_Callbacks.thy ===== *)
theory Cut_Callbacks
  imports LFT_Prelude
begin

text \<open>
  A callback that is cut into operations: the locale \<open>cut_callbacks\<close> is all that the two endpoints
  share here. An operation may leave further operations to do, which weigh less than it does; done
  together they are the \<open>whole\<close> operation, and a callback that is begun and worked off without
  interruption is the \<open>atomic\<close> callback. The server and the client interpret it on their callbacks.
\<close>

locale cut_callbacks =
  fixes piece :: "'o \<Rightarrow> 's \<Rightarrow> 's \<times> 'o list"
    and whole :: "'o \<Rightarrow> 's \<Rightarrow> 's"
    and begun :: "'e \<Rightarrow> 's \<Rightarrow> 's \<times> 'o list"
    and atomic :: "'e \<Rightarrow> 's \<Rightarrow> 's"
    and weight :: "'o \<Rightarrow> nat"
  assumes piece_whole: "piece op s = (s1, new) \<Longrightarrow> fold whole new s1 = whole op s"
    and piece_lighter: "piece op s = (s1, new) \<Longrightarrow> sum_list (map weight new) < weight op"
    and begun_whole: "begun e s = (s1, ops) \<Longrightarrow> fold whole ops s1 = atomic e s"
begin

text \<open>A relation that can do one operation at a time can do them all.\<close>

lemma works_off:
  assumes nothing_left: "\<And>s. R s [] s"
    and one: "\<And>op ops s s1 new t. piece op s = (s1, new) \<Longrightarrow> R s1 (new @ ops) t \<Longrightarrow> R s (op # ops) t"
  shows "R s ops (fold whole ops s)"
proof (induction "sum_list (map weight ops)" arbitrary: ops s rule: less_induct)
  case less
  show ?case
  proof (cases ops)
    case Nil
    then show ?thesis using nothing_left by simp
  next
    case (Cons op rest)
    obtain s1 new where p: "piece op s = (s1, new)" by (cases "piece op s")
    have "R s1 (new @ rest) (fold whole (new @ rest) s1)"
      by (rule less) (simp add: Cons piece_lighter [OF p])
    from one [OF p this] show ?thesis by (simp add: Cons piece_whole [OF p])
  qed
qed

lemma callback_works_off:
  assumes "\<And>s. R s [] s"
    and "\<And>op ops s s1 new t. piece op s = (s1, new) \<Longrightarrow> R s1 (new @ ops) t \<Longrightarrow> R s (op # ops) t"
    and "begun e s = (s1, ops)"
  shows "R s1 ops (atomic e s)"
  using works_off [of R s1 ops] assms(1,2) begun_whole [OF assms(3)] by simp

text \<open>In what order the remaining operations are grouped does not matter.\<close>

lemma piece_fold: "piece op s = (s1, new) \<Longrightarrow> fold whole (new @ ops) s1 = fold whole (op # ops) s"
  by (simp add: piece_whole)

end

end
