(* ===== verification/Server_Locks.thy ===== *)
theory Server_Locks
  imports Server_Checked Cut_Callbacks "HOL-Library.Sublist"
begin

text \<open>
  The receiver at the granularity of its mutex. \<open>Server_Session\<close> takes a callback as one step;
  in the code a stream callback runs without a lock, takes \<open>file_mutex_\<close> only to publish a flag,
  and the caller of \<open>receive_file\<close> may run between the two, and between the buffers of one
  RECEIVE event. Here a callback is a list of operations that is worked off one at a time. The
  callbacks of one connection do not overlap, as msquic documents; what lies between two
  operations on the mutex is one step. The theory also keeps who holds the mutex across a wait:
  when the output file cannot be opened, \<open>receive_file\<close> waits for the connection to close with
  \<open>file_mutex_\<close> locked.
\<close>

section \<open>Critical sections of the callbacks\<close>

datatype locked_part =
    Lk_notify bool \<comment> \<open>\<open>notify_file_waiter\<close>\<close>
  | Lk_offer \<comment> \<open>the offer is published, still under the lock the buffer is cleared\<close>

definition run_locked :: "locked_part \<Rightarrow> quic_server \<Rightarrow> quic_server" where
  "run_locked k s =
     (case k of
        Lk_notify success \<Rightarrow> notify_file_waiter success s
      | Lk_offer \<Rightarrow> s\<lparr>qs_offer_ready := True, qs_receive_buffer := []\<rparr>)"

section \<open>Callbacks up to their critical section\<close>

text \<open>\<open>try_parse_file_header\<close>; the branch without a prompt takes no lock.\<close>

definition header_before_lock :: "server_env \<Rightarrow> quic_server \<Rightarrow> quic_server \<times> locked_part option" where
  "header_before_lock E s =
     (if qs_header_parsed s then (s, None)
      else case decode_file_header (qs_receive_buffer s) empty_header 0 of
        (ok, header, header_bytes) \<Rightarrow>
          if \<not> ok then
            (if length (qs_receive_buffer s) > k_max_header_bytes
             then ((set_error ''header too large or malformed'' (s\<lparr>qs_io_error := True\<rparr>))
                     \<lparr>qs_header_parsed := True, qs_receive_buffer := []\<rparr>, Some (Lk_notify False))
             else (s, None))
          else if qs_has_offer s then
            (let s1 = s\<lparr>qs_file_header := header, qs_header_parsed := True\<rparr>
             in (if qs_output_is_dir s1
                 then s1\<lparr>qs_output_path := path_append (qs_output_dir s1) (fth_name header)\<rparr>
                 else s1, Some Lk_offer))
          else (try_parse_file_header E s, None))"

definition buffer_before_lock :: "server_env \<Rightarrow> bytes \<Rightarrow> quic_server \<Rightarrow> quic_server \<times> locked_part option" where
  "buffer_before_lock E data s =
     (if \<not> qs_header_parsed s
      then header_before_lock E (s\<lparr>qs_receive_buffer := qs_receive_buffer s @ data\<rparr>)
      else (append_body_bytes E data s, None))"

definition finish_before_lock ::
  "'c evp_api \<Rightarrow> server_env \<Rightarrow> handle \<Rightarrow> quic_server \<Rightarrow> quic_server \<times> locked_part option" where
  "finish_before_lock evp E stream s =
     (let s1 = close_file_out s
      in case verify_received evp s1 of
           (verify_ok, r) \<Rightarrow>
             let s2 = s1\<lparr>qs_file_result := r\<lparr>frr_success := verify_ok\<rparr>, qs_sending_final_ack := True\<rparr>
             in case send_file_ack E stream verify_ok s2 of
                  (sent, s3) \<Rightarrow>
                    if \<not> sent then (s3\<lparr>qs_sending_final_ack := False\<rparr>, Some (Lk_notify False))
                    else (s3, None))"

definition abort_before_lock :: "quic_server \<Rightarrow> quic_server \<times> locked_part option" where
  "abort_before_lock s =
     (if qs_receiving_file s then
        let s1 = close_file_out s
        in (if frr_error (qs_file_result s1) = []
            then set_error ''peer aborted the transfer'' s1 else s1, Some (Lk_notify False))
      else (s, None))"

text \<open>Every stream event but RECEIVE.\<close>

definition event_before_lock ::
  "'c evp_api \<Rightarrow> server_env \<Rightarrow> handle \<Rightarrow> stream_event \<Rightarrow> quic_server \<Rightarrow> quic_server \<times> locked_part option" where
  "event_before_lock evp E stream ev s =
     (case ev of
        PeerSendShutdown \<Rightarrow>
          if qs_receiving_file s \<and> (qs_file_accepted s \<or> qs_io_error s)
          then finish_before_lock evp E stream s else (s, None)
      | SendComplete ctx \<Rightarrow>
          (let s1 = s\<lparr>qs_io := free_block ctx (qs_io s)\<rparr>
           in (s1, if qs_receiving_file s1 \<and> qs_sending_final_ack s1
                   then Some (Lk_notify (frr_success (qs_file_result s1))) else None))
      | PeerSendAborted \<Rightarrow> abort_before_lock s
      | PeerReceiveAborted \<Rightarrow> abort_before_lock s
      | _ \<Rightarrow> (on_stream_event evp E stream ev s, None))"

section \<open>A callback as a list of operations\<close>

datatype callback_op =
    Op_buffer bytes
  | Op_locked locked_part

definition locked_ops :: "locked_part option \<Rightarrow> callback_op list" where
  "locked_ops k = (case k of None \<Rightarrow> [] | Some l \<Rightarrow> [Op_locked l])"

lemma locked_ops_simps [simp]: "locked_ops None = []" "locked_ops (Some l) = [Op_locked l]"
  by (simp_all add: locked_ops_def)

definition callback_begin ::
  "'c evp_api \<Rightarrow> server_env \<Rightarrow> handle \<Rightarrow> stream_event \<Rightarrow> quic_server \<Rightarrow> quic_server \<times> callback_op list" where
  "callback_begin evp E stream ev s =
     (case ev of
        Receive bufs \<Rightarrow> (s, if qs_receiving_file s then map Op_buffer bufs else [])
      | _ \<Rightarrow> (case event_before_lock evp E stream ev s of (s1, k) \<Rightarrow> (s1, locked_ops k)))"

text \<open>What is left of a callback, run without interruption.\<close>

fun run_ops :: "server_env \<Rightarrow> callback_op list \<Rightarrow> quic_server \<Rightarrow> quic_server" where
  "run_ops E [] s = s"
| "run_ops E (Op_buffer d # ops) s =
     (case buffer_before_lock E d s of (s1, k) \<Rightarrow>
        run_ops E ops (case k of None \<Rightarrow> s1 | Some l \<Rightarrow> run_locked l s1))"
| "run_ops E (Op_locked k # ops) s = run_ops E ops (run_locked k s)"

section \<open>Steps\<close>

datatype caller_pc =
    At receive_pc
  | At_locked_drain \<comment> \<open>draining after a failed open, with \<open>file_mutex_\<close> held\<close>

type_synonym lock_state = "caller_pc \<times> quic_server \<times> callback_op list"

datatype lock_label =
    F_enter handle stream_event
  | F_turn
  | F_lock
  | F_connection handle connection_event
  | F_listener listener_event
  | F_caller session_label

definition in_call :: "caller_pc \<Rightarrow> bool" where
  "in_call p \<longleftrightarrow> p \<noteq> At (Rf_returned True) \<and> p \<noteq> At (Rf_returned False)"

definition caller_label :: "session_label \<Rightarrow> bool" where
  "caller_label l \<longleftrightarrow>
     (case l of L_wake \<Rightarrow> True | L_timeout \<Rightarrow> True | L_answer b \<Rightarrow> True | L_send_accept \<Rightarrow> True | _ \<Rightarrow> False)"

text \<open>The position after a step of the caller: a yes that is followed by a drain is a failed
  open, and holds the mutex.\<close>

definition caller_at :: "session_label \<Rightarrow> receive_pc \<Rightarrow> caller_pc" where
  "caller_at l pc = (if l = L_answer True \<and> pc = Rf_drain False then At_locked_drain else At pc)"

inductive lock_step :: "'c evp_api \<Rightarrow> lock_state \<Rightarrow> lock_label \<Rightarrow> lock_state \<Rightarrow> bool" for evp where
  enter:
    "in_call p \<Longrightarrow> callback_begin evp E h ev s = (s1, ops) \<Longrightarrow>
     lock_step evp (p, s, []) (F_enter h ev) (p, s1, ops)"
| turn:
    "in_call p \<Longrightarrow> buffer_before_lock E d s = (s1, k) \<Longrightarrow>
     lock_step evp (p, s, Op_buffer d # ops) F_turn (p, s1, locked_ops k @ ops)"
| lock:
    "in_call p \<Longrightarrow> p \<noteq> At_locked_drain \<Longrightarrow>
     lock_step evp (p, s, Op_locked k # ops) F_lock (p, run_locked k s, ops)"
| connection:
    "in_call p \<Longrightarrow> lock_step evp (p, s, []) (F_connection c cev) (p, on_connection_event c cev s, [])"
| listener:
    "in_call p \<Longrightarrow> lock_step evp (p, s, ops) (F_listener lev) (p, snd (on_listener_event ok lev s), ops)"
| caller:
    "session_step evp (pc, s) l (pc1, s1) \<Longrightarrow> caller_label l \<Longrightarrow>
     lock_step evp (At pc, s, ops) (F_caller l) (caller_at l pc1, s1, ops)"
| locked_drained:
    "qs_client_connection s = None \<Longrightarrow>
     lock_step evp (At_locked_drain, s, ops) (F_caller L_wake) (At (Rf_returned False), stop_receiving s, ops)"
| locked_timeout:
    "lock_step evp (At_locked_drain, s, ops) (F_caller L_timeout) (At (Rf_returned False), stop_receiving s, ops)"

text \<open>Runs grow at their end.\<close>

inductive lock_run :: "'c evp_api \<Rightarrow> lock_state \<Rightarrow> lock_label list \<Rightarrow> lock_state \<Rightarrow> bool" for evp where
  lock_nil: "lock_run evp x [] x"
| lock_snoc: "lock_run evp x ls y \<Longrightarrow> lock_step evp y l z \<Longrightarrow> lock_run evp x (ls @ [l]) z"

definition lock_start ::
  "(path \<Rightarrow> bool) \<Rightarrow> path \<Rightarrow> bool \<Rightarrow> bool \<Rightarrow> quic_server \<Rightarrow> lock_state" where
  "lock_start is_dir p has_offer has_progress s =
     (case receive_start is_dir p has_offer has_progress s of (pc, t) \<Rightarrow> (At pc, t, []))"

section \<open>An uninterrupted callback is the atomic one\<close>

lemma header_split:
  "try_parse_file_header E s =
     (case header_before_lock E s of (s1, k) \<Rightarrow> (case k of None \<Rightarrow> s1 | Some l \<Rightarrow> run_locked l s1))"
  by (simp add: try_parse_file_header_def header_before_lock_def run_locked_def Let_def split: prod.split)

lemma buffer_split:
  "append_file_bytes E d s =
     (case buffer_before_lock E d s of (s1, k) \<Rightarrow> (case k of None \<Rightarrow> s1 | Some l \<Rightarrow> run_locked l s1))"
  by (simp add: append_file_bytes_def buffer_before_lock_def header_split)

lemma run_ops_buffers: "run_ops E (map Op_buffer ds) s = fold (append_file_bytes E) ds s"
  by (induction ds arbitrary: s) (simp_all add: buffer_split split: prod.split)

lemma event_split:
  "\<forall>bufs. ev \<noteq> Receive bufs \<Longrightarrow> event_before_lock evp E h ev s = (s1, k) \<Longrightarrow>
   on_stream_event evp E h ev s = (case k of None \<Rightarrow> s1 | Some l \<Rightarrow> run_locked l s1)"
  by (cases ev) (auto simp: event_before_lock_def on_stream_event_def peer_aborted_def abort_before_lock_def
      finish_file_receive_def finish_before_lock_def run_locked_def Let_def split: if_splits prod.splits)

lemma callback_split:
  assumes "callback_begin evp E h ev s = (s1, ops)"
  shows "on_stream_event evp E h ev s = run_ops E ops s1"
proof (cases "\<exists>bufs. ev = Receive bufs")
  case True
  with assms show ?thesis
    by (auto simp: callback_begin_def on_stream_event_def run_ops_buffers)
next
  case False
  obtain t k where t: "event_before_lock evp E h ev s = (t, k)" by (cases "event_before_lock evp E h ev s")
  have "(s1, ops) = (t, locked_ops k)" using assms False t by (cases ev) (simp_all add: callback_begin_def)
  with event_split [OF _ t] False show ?thesis by (cases k) auto
qed

section \<open>The callbacks as cut callbacks\<close>

definition server_piece :: "server_env \<Rightarrow> callback_op \<Rightarrow> quic_server \<Rightarrow> quic_server \<times> callback_op list" where
  "server_piece E op s =
     (case op of
        Op_buffer d \<Rightarrow> (case buffer_before_lock E d s of (s1, k) \<Rightarrow> (s1, locked_ops k))
      | Op_locked k \<Rightarrow> (run_locked k s, []))"

lemma run_ops_fold: "fold (\<lambda>op. run_ops E [op]) ops s = run_ops E ops s"
  by (induction E ops s rule: run_ops.induct) (auto split: prod.splits)

lemma run_locked_ops: "run_ops E (locked_ops k) s = (case k of None \<Rightarrow> s | Some l \<Rightarrow> run_locked l s)"
  by (cases k) simp_all

interpretation server_cut:
  cut_callbacks "server_piece E" "\<lambda>op. run_ops E [op]" "\<lambda>(h, ev). callback_begin evp E h ev"
    "\<lambda>(h, ev). on_stream_event evp E h ev" "\<lambda>op. case op of Op_buffer d \<Rightarrow> 2 | Op_locked k \<Rightarrow> 1"
proof unfold_locales
  fix op s s1 new
  assume p: "server_piece E op s = (s1, new)"
  then show "fold (\<lambda>op. run_ops E [op]) new s1 = run_ops E [op] s"
    by (cases op) (auto simp: server_piece_def run_ops_fold run_locked_ops split: prod.splits)
  show "sum_list (map (\<lambda>op. case op of Op_buffer d \<Rightarrow> 2 | Op_locked k \<Rightarrow> 1) new)
      < (case op of Op_buffer d \<Rightarrow> 2 | Op_locked k \<Rightarrow> (1 :: nat))"
    using p by (cases op) (auto simp: server_piece_def locked_ops_def split: prod.splits option.splits)
next
  fix e s s1 ops
  assume "(\<lambda>(h, ev). callback_begin evp E h ev) e s = (s1, ops)"
  then show "fold (\<lambda>op. run_ops E [op]) ops s1 = (\<lambda>(h, ev). on_stream_event evp E h ev) e s"
    by (cases e) (simp add: run_ops_fold callback_split)
qed

end
