(* ===== verification/Lock_Refinement.thy ===== *)
theory Lock_Refinement
  imports Server_Locks
begin

text \<open>
  The receiver at the granularity of its mutex refines the receiver with atomic callbacks: what a
  call of \<open>receive_file\<close> returns, and the files at that moment, are those of a run of
  \<open>session_step\<close>. The calls of msquic may be logged in another order, so states are compared
  without their log. A callback that waits for the lock is placed before the caller's step when
  the two commute, and after it when the caller only looked at the flags.
\<close>

section \<open>States that differ in their log\<close>

definition same_but_io :: "quic_server \<Rightarrow> quic_server \<Rightarrow> bool" where
  "same_but_io s t \<longleftrightarrow> (\<exists>io. t = s\<lparr>qs_io := io\<rparr>)"

lemma same_io_refl [simp]: "same_but_io s s"
  unfolding same_but_io_def by (rule exI [of _ "qs_io s"]) simp

lemma same_io_update [simp]: "same_but_io s (s\<lparr>qs_io := io\<rparr>)" "same_but_io (s\<lparr>qs_io := io\<rparr>) s"
proof -
  show "same_but_io s (s\<lparr>qs_io := io\<rparr>)" by (auto simp: same_but_io_def)
  show "same_but_io (s\<lparr>qs_io := io\<rparr>) s" unfolding same_but_io_def by (rule exI [of _ "qs_io s"]) simp
qed

lemma same_io_trans: "same_but_io s t \<Longrightarrow> same_but_io t u \<Longrightarrow> same_but_io s u"
  by (auto simp: same_but_io_def)

lemma same_io_sym: "same_but_io s t \<Longrightarrow> same_but_io t s"
  using same_io_update(2) by (auto simp: same_but_io_def)

lemma same_io_fields:
  assumes "same_but_io s t"
  shows "qs_file_done t = qs_file_done s" "qs_file_ok t = qs_file_ok s" "qs_offer_ready t = qs_offer_ready s"
    "qs_file_header t = qs_file_header s" "qs_client_connection t = qs_client_connection s"
    "qs_receiving_file t = qs_receiving_file s" "qs_files t = qs_files s" "qs_file_result t = qs_file_result s"
    "qs_output_path t = qs_output_path s"
  using assms by (auto simp: same_but_io_def)

text \<open>The operations do not look at the log.\<close>

lemma send_copy_ok: "fst (stream_send_copy E h d f io) = fst (stream_send_copy E h d f io')"
  by (simp add: stream_send_copy_def Let_def split: option.split)

lemma server_send_io:
  "\<exists>io'. server_send E h m f (s\<lparr>qs_io := io\<rparr>) = (fst (server_send E h m f s), s\<lparr>qs_io := io'\<rparr>)"
  using send_copy_ok [of "env_send E" h m f io "qs_io s"]
  by (auto simp: server_send_def case_prod_beta)

lemma server_send_same: "same_but_io s (snd (server_send E h m f s))"
  by (simp add: server_send_def case_prod_beta)

lemma io_indep [simp]:
  "file_out_open (s\<lparr>qs_io := io\<rparr>) = file_out_open s"
  "set_error e (s\<lparr>qs_io := io\<rparr>) = (set_error e s)\<lparr>qs_io := io\<rparr>"
  "notify_file_waiter b (s\<lparr>qs_io := io\<rparr>) = (notify_file_waiter b s)\<lparr>qs_io := io\<rparr>"
  "body_overflows (s\<lparr>qs_io := io\<rparr>) n = body_overflows s n"
  "stop_receiving (s\<lparr>qs_io := io\<rparr>) = (stop_receiving s)\<lparr>qs_io := io\<rparr>"
  by (simp_all add: file_out_open_def set_error_def notify_file_waiter_def body_overflows_def stop_receiving_def)

lemma io_indep_case [simp]:
  "close_file_out (s\<lparr>qs_io := io\<rparr>) = (close_file_out s)\<lparr>qs_io := io\<rparr>"
  "verify_received evp (s\<lparr>qs_io := io\<rparr>) = verify_received evp s"
  "body_to_write (s\<lparr>qs_io := io\<rparr>) n = body_to_write s n"
  "open_output_file E (s\<lparr>qs_io := io\<rparr>) = (case open_output_file E s of (b, t) \<Rightarrow> (b, t\<lparr>qs_io := io\<rparr>))"
  "write_out E d (s\<lparr>qs_io := io\<rparr>) = (case write_out E d s of (b, t) \<Rightarrow> (b, t\<lparr>qs_io := io\<rparr>))"
  "run_locked k (s\<lparr>qs_io := io\<rparr>) = (run_locked k s)\<lparr>qs_io := io\<rparr>"
proof -
  show "close_file_out (s\<lparr>qs_io := io\<rparr>) = (close_file_out s)\<lparr>qs_io := io\<rparr>"
    by (simp add: close_file_out_def)
  show "verify_received evp (s\<lparr>qs_io := io\<rparr>) = verify_received evp s"
    by (simp add: verify_received_def Let_def case_prod_beta)
  show "body_to_write (s\<lparr>qs_io := io\<rparr>) n = body_to_write s n"
    by (simp add: body_to_write_def)
  show "open_output_file E (s\<lparr>qs_io := io\<rparr>) = (case open_output_file E s of (b, t) \<Rightarrow> (b, t\<lparr>qs_io := io\<rparr>))"
    by (simp add: open_output_file_def set_error_def)
  show "write_out E d (s\<lparr>qs_io := io\<rparr>) = (case write_out E d s of (b, t) \<Rightarrow> (b, t\<lparr>qs_io := io\<rparr>))"
    by (simp add: write_out_def split: option.split)
  show "run_locked k (s\<lparr>qs_io := io\<rparr>) = (run_locked k s)\<lparr>qs_io := io\<rparr>"
    by (cases k) (simp_all add: run_locked_def)
qed

lemma append_body_io [simp]:
  "append_body_bytes E d (s\<lparr>qs_io := io\<rparr>) = (append_body_bytes E d s)\<lparr>qs_io := io\<rparr>"
  by (cases "qs_file_out s"; cases "body_overflows s (length d)")
    (simp_all add: append_body_bytes_def set_error_def write_out_def body_to_write_def body_overflows_def
      file_out_open_def Let_def split del: if_split split: if_split)

text \<open>Updates and operations keep such states together.\<close>

lemma same_io_update_cong:
  assumes "same_but_io s t"
  shows "same_but_io (s\<lparr>qs_receive_buffer := b\<rparr>) (t\<lparr>qs_receive_buffer := b\<rparr>)"
    and "same_but_io (s\<lparr>qs_file_accepted := x\<rparr>) (t\<lparr>qs_file_accepted := x\<rparr>)"
    and "same_but_io (s\<lparr>qs_sending_final_ack := x\<rparr>) (t\<lparr>qs_sending_final_ack := x\<rparr>)"
    and "same_but_io (s\<lparr>qs_file_result := r\<rparr>) (t\<lparr>qs_file_result := r\<rparr>)"
    and "same_but_io (s\<lparr>qs_offer_ready := x\<rparr>) (t\<lparr>qs_offer_ready := x\<rparr>)"
proof -
  obtain io where t: "t = s\<lparr>qs_io := io\<rparr>" using assms by (auto simp: same_but_io_def)
  show "same_but_io (s\<lparr>qs_receive_buffer := b\<rparr>) (t\<lparr>qs_receive_buffer := b\<rparr>)"
    "same_but_io (s\<lparr>qs_file_accepted := x\<rparr>) (t\<lparr>qs_file_accepted := x\<rparr>)"
    "same_but_io (s\<lparr>qs_sending_final_ack := x\<rparr>) (t\<lparr>qs_sending_final_ack := x\<rparr>)"
    "same_but_io (s\<lparr>qs_file_result := r\<rparr>) (t\<lparr>qs_file_result := r\<rparr>)"
    "same_but_io (s\<lparr>qs_offer_ready := x\<rparr>) (t\<lparr>qs_offer_ready := x\<rparr>)"
    unfolding t same_but_io_def by (rule exI [of _ io], simp)+
qed

lemma same_io_ops:
  assumes "same_but_io s t"
  shows "same_but_io (append_body_bytes E d s) (append_body_bytes E d t)"
    and "same_but_io (notify_file_waiter b s) (notify_file_waiter b t)"
    and "same_but_io (run_locked k s) (run_locked k t)"
    and "same_but_io (stop_receiving s) (stop_receiving t)"
    and "same_but_io (close_file_out s) (close_file_out t)"
    and "same_but_io (set_error e s) (set_error e t)"
    and "same_but_io (with_header h s) (with_header h t)"
    and "verify_received evp t = verify_received evp s"
proof -
  obtain io where t: "t = s\<lparr>qs_io := io\<rparr>" using assms by (auto simp: same_but_io_def)
  show "same_but_io (append_body_bytes E d s) (append_body_bytes E d t)"
    "same_but_io (notify_file_waiter b s) (notify_file_waiter b t)"
    "same_but_io (run_locked k s) (run_locked k t)" "same_but_io (stop_receiving s) (stop_receiving t)"
    "same_but_io (close_file_out s) (close_file_out t)" "same_but_io (set_error e s) (set_error e t)"
    "verify_received evp t = verify_received evp s"
    by (simp_all only: t io_indep io_indep_case append_body_io same_io_update)
  have "with_header h t = (with_header h s)\<lparr>qs_io := io\<rparr>" by (simp add: t with_header_def Let_def)
  then show "same_but_io (with_header h s) (with_header h t)" by simp
qed

lemma same_io_open:
  assumes "same_but_io s t" and "open_output_file E s = (ok, s1)"
  obtains t1 where "open_output_file E t = (ok, t1)" and "same_but_io s1 t1"
proof -
  obtain io where "t = s\<lparr>qs_io := io\<rparr>" using assms(1) by (auto simp: same_but_io_def)
  then have "open_output_file E t = (ok, s1\<lparr>qs_io := io\<rparr>)" using assms(2) by simp
  then show thesis by (rule that) simp
qed

lemma same_io_send:
  assumes "same_but_io s t" and "server_send E h m f s = (ok, s1)"
  obtains t1 where "server_send E h m f t = (ok, t1)" and "same_but_io s1 t1"
proof -
  obtain io where t: "t = s\<lparr>qs_io := io\<rparr>" using assms by (auto simp: same_but_io_def)
  obtain io' where "server_send E h m f t = (ok, s\<lparr>qs_io := io'\<rparr>)"
    using server_send_io [of E h m f io s] assms(2) t by auto
  moreover have "same_but_io s1 (s\<lparr>qs_io := io'\<rparr>)"
    using server_send_same [of s E h m f] assms(2) same_io_sym same_io_trans same_io_update(1) by (metis snd_conv)
  ultimately show thesis by (rule that)
qed

lemma same_io_auto:
  assumes "same_but_io s t"
  shows "same_but_io (auto_accepted E n s) (auto_accepted E n t)"
proof -
  let ?s = "s\<lparr>qs_file_accepted := True\<rparr>" and ?t = "t\<lparr>qs_file_accepted := True\<rparr>"
  have st: "same_but_io ?s ?t" using assms by (rule same_io_update_cong)
  obtain ok s1 where s1: "server_send E (qs_file_stream ?s) msg_accept False ?s = (ok, s1)"
    by (cases "server_send E (qs_file_stream ?s) msg_accept False ?s")
  obtain t1 where t1: "server_send E (qs_file_stream ?s) msg_accept False ?t = (ok, t1)" "same_but_io s1 t1"
    using same_io_send [OF st s1] .
  have f: "qs_file_stream ?t = qs_file_stream ?s" "qs_receive_buffer t1 = qs_receive_buffer s1"
    using assms t1(2) by (auto simp: same_but_io_def)
  have "same_but_io (if d \<noteq> [] then append_body_bytes E (u32_part d) s1 else s1)
      (if d \<noteq> [] then append_body_bytes E (u32_part d) t1 else t1)" for d
    using t1(2) same_io_ops(1) by simp
  then show ?thesis unfolding auto_accepted_def Let_def f(1) s1 t1(1) snd_conv f(2)
    by (rule same_io_update_cong)
qed

lemma same_io_try_parse:
  assumes "same_but_io s t"
  shows "same_but_io (try_parse_file_header E s) (try_parse_file_header E t)"
proof (cases "qs_header_parsed s")
  case True
  with assms show ?thesis by (auto simp: try_parse_file_header_def same_but_io_def)
next
  case False
  obtain io where t: "t = s\<lparr>qs_io := io\<rparr>" using assms by (auto simp: same_but_io_def)
  have same: "qs_receive_buffer t = qs_receive_buffer s" "\<not> qs_header_parsed t" "qs_has_offer t = qs_has_offer s"
    using False by (simp_all add: t)
  show ?thesis
  proof (cases "decode_opt (qs_receive_buffer s)")
    case None
    have "same_but_io (notify_file_waiter False ((set_error e (s\<lparr>qs_io_error := True\<rparr>))
              \<lparr>qs_header_parsed := True, qs_receive_buffer := []\<rparr>))
            (notify_file_waiter False ((set_error e (t\<lparr>qs_io_error := True\<rparr>))
              \<lparr>qs_header_parsed := True, qs_receive_buffer := []\<rparr>))" for e
      unfolding t same_but_io_def by (rule exI [of _ io]) (simp add: set_error_def notify_file_waiter_def)
    with None False same assms show ?thesis by (simp add: try_parse_cases)
  next
    case (Some p)
    obtain h n where p: "p = (h, n)" by (cases p)
    have w: "same_but_io (with_header h s) (with_header h t)" using assms by (rule same_io_ops)
    obtain ok s1 where s1: "open_output_file E (with_header h s) = (ok, s1)"
      by (cases "open_output_file E (with_header h s)")
    obtain t1 where t1: "open_output_file E (with_header h t) = (ok, t1)" "same_but_io s1 t1"
      using same_io_open [OF w s1] .
    show ?thesis using Some p False same s1 t1 w
      by (auto simp: try_parse_cases intro!: same_io_update_cong same_io_auto)
  qed
qed

lemma same_io_append_file:
  "same_but_io s t \<Longrightarrow> same_but_io (append_file_bytes E d s) (append_file_bytes E d t)"
proof -
  assume st: "same_but_io s t"
  have "qs_header_parsed t = qs_header_parsed s" "qs_receive_buffer t = qs_receive_buffer s"
    using st by (auto simp: same_but_io_def)
  then show ?thesis unfolding append_file_bytes_def
    by (auto intro: st same_io_try_parse same_io_update_cong same_io_ops)
qed

lemma same_io_fold:
  "same_but_io s t \<Longrightarrow> same_but_io (fold (append_file_bytes E) ds s) (fold (append_file_bytes E) ds t)"
  by (induction ds arbitrary: s t) (simp_all add: same_io_append_file)

lemma same_io_finish:
  assumes "same_but_io s t"
  shows "same_but_io (finish_file_receive evp E h s) (finish_file_receive evp E h t)"
proof -
  let ?r = "\<lambda>s. (snd (verify_received evp (close_file_out s)))\<lparr>frr_success := fst (verify_received evp (close_file_out s))\<rparr>"
  let ?u = "\<lambda>s. (close_file_out s)\<lparr>qs_file_result := ?r s, qs_sending_final_ack := True\<rparr>"
  have c: "same_but_io (close_file_out s) (close_file_out t)" using assms by (rule same_io_ops)
  then have v: "verify_received evp (close_file_out t) = verify_received evp (close_file_out s)"
    by (rule same_io_ops)
  have u: "same_but_io (?u s) (?u t)" unfolding v using c by (intro same_io_update_cong)
  obtain ok s1 where s1: "send_file_ack E h (fst (verify_received evp (close_file_out s))) (?u s) = (ok, s1)"
    by (cases "send_file_ack E h (fst (verify_received evp (close_file_out s))) (?u s)")
  obtain t1 where t1: "send_file_ack E h (fst (verify_received evp (close_file_out s))) (?u t) = (ok, t1)"
      "same_but_io s1 t1"
    using same_io_send [OF u s1 [unfolded send_file_ack_def]] by (auto simp: send_file_ack_def)
  have "finish_file_receive evp E h s = (if ok then s1 else notify_file_waiter False (s1\<lparr>qs_sending_final_ack := False\<rparr>))"
    using s1 by (simp add: finish_file_receive_def case_prod_beta Let_def)
  moreover have "finish_file_receive evp E h t = (if ok then t1 else notify_file_waiter False (t1\<lparr>qs_sending_final_ack := False\<rparr>))"
    using t1(1) unfolding v by (simp add: finish_file_receive_def case_prod_beta Let_def v)
  ultimately show ?thesis using t1(2) by (auto intro!: same_io_ops same_io_update_cong)
qed

lemma same_io_aborted: "same_but_io s t \<Longrightarrow> same_but_io (peer_aborted s) (peer_aborted t)"
proof -
  assume st: "same_but_io s t"
  have f: "qs_receiving_file t = qs_receiving_file s"
    "qs_file_result (close_file_out t) = qs_file_result (close_file_out s)"
    using st same_io_fields(8) [OF same_io_ops(5) [OF st]] by (auto simp: same_but_io_def)
  show ?thesis unfolding peer_aborted_def Let_def f
    using st same_io_ops(5) [OF st] by (auto intro: same_io_ops(2) same_io_ops(2) [OF same_io_ops(6)])
qed

lemma same_io_stream_event:
  assumes "same_but_io s t"
  shows "same_but_io (on_stream_event evp E h ev s) (on_stream_event evp E h ev t)"
proof -
  have f: "qs_receiving_file t = qs_receiving_file s" "qs_file_accepted t = qs_file_accepted s"
    "qs_io_error t = qs_io_error s" "qs_sending_final_ack t = qs_sending_final_ack s"
    "qs_file_result t = qs_file_result s"
    using assms by (auto simp: same_but_io_def)
  have free: "same_but_io (s\<lparr>qs_io := a\<rparr>) (t\<lparr>qs_io := b\<rparr>)" for a b
    using assms by (auto simp: same_but_io_def)
  show ?thesis
  proof (cases ev)
    case (SendComplete ctx)
    then show ?thesis using same_io_ops(2) [OF free] free
      by (auto simp: on_stream_event_def f Let_def)
  next
    case (StreamShutdownComplete a)
    then show ?thesis using assms free by (auto simp: on_stream_event_def api_call_def)
  qed (auto simp: on_stream_event_def f intro: assms same_io_fold [OF assms] same_io_finish [OF assms]
      same_io_aborted [OF assms])
qed

lemma same_io_connection_event:
  assumes "same_but_io s t"
  shows "same_but_io (on_connection_event c ev s) (on_connection_event c ev t)"
proof -
  obtain io where t: "t = s\<lparr>qs_io := io\<rparr>" using assms by (auto simp: same_but_io_def)
  have "\<exists>io'. on_connection_event c ev t = (on_connection_event c ev s)\<lparr>qs_io := io'\<rparr>"
  proof (cases ev)
    case Connected
    then show ?thesis by (intro exI [of _ io]) (simp add: on_connection_event_def t)
  next
    case (ConnShutdownComplete a)
    then show ?thesis
      by (intro exI [of _ "if a then io else io_call (ConnectionClose c) io"])
        (simp add: on_connection_event_def t api_call_def Let_def)
  next
    case (PeerStreamStarted st)
    then show ?thesis
      by (intro exI [of _ "io_call (SetCallbackHandler st) io"])
        (simp add: on_connection_event_def t api_call_def Let_def)
  next
    case OtherConnectionEvent
    then show ?thesis by (intro exI [of _ io]) (simp add: on_connection_event_def t)
  qed
  then show ?thesis by (auto simp: same_but_io_def)
qed

lemma listener_same: "same_but_io s (snd (on_listener_event ok ev s))"
  by (cases ev) (simp_all add: on_listener_event_def api_call_def)

section \<open>The caller\<close>

lemma caller_io:
  assumes "session_step evp (pc, s) l (pc1, s1)" and "caller_label l" and "same_but_io s t"
  obtains t1 where "session_step evp (pc, t) l (pc1, t1)" and "same_but_io s1 t1"
proof -
  note f = same_io_fields [OF assms(3)]
  have stream: "qs_file_stream t = qs_file_stream s" using assms(3) by (auto simp: same_but_io_def)
  have "\<exists>t1. session_step evp (pc, t) l (pc1, t1) \<and> same_but_io s1 t1"
    using assms(1)
  proof cases
    case (offer_timeout)
    then show ?thesis using f same_io_ops(4) [OF assms(3)] by (auto intro!: session_step.offer_timeout)
  next
    case offer_aborted
    then show ?thesis using f same_io_ops(4) [OF assms(3)] by (auto intro!: session_step.offer_aborted)
  next
    case offer_arrived
    then show ?thesis using f assms(3) session_step.offer_arrived [of t evp] by auto
  next
    case (answer_no h E)
    then have "s1 = reject_offer E s" by simp
    moreover have "same_but_io (reject_offer E s) (reject_offer E t)"
    proof -
      obtain ok u where u: "server_send E (qs_file_stream s) msg_reject True s = (ok, u)"
        by (cases "server_send E (qs_file_stream s) msg_reject True s")
      obtain v where v: "server_send E (qs_file_stream s) msg_reject True t = (ok, v)" "same_but_io u v"
        using same_io_send [OF assms(3) u] .
      show ?thesis unfolding reject_offer_def Let_def stream u v(1) snd_conv same_io_fields(8) [OF v(2)]
        by (rule same_io_update_cong [OF v(2)])
    qed
    ultimately show ?thesis using answer_no by (auto intro: session_step.answer_no)
  next
    case (answer_yes h E)
    obtain ok u where u: "open_output_file E s = (ok, u)" by (cases "open_output_file E s")
    obtain v where v: "open_output_file E t = (ok, v)" "same_but_io u v" using same_io_open [OF assms(3) u] .
    have vs: "qs_file_stream v = qs_file_stream u" using v(2) by (auto simp: same_but_io_def)
    obtain sent w where w: "server_send E (qs_file_stream u) msg_reject True u = (sent, w)"
      by (cases "server_send E (qs_file_stream u) msg_reject True u")
    obtain x where x: "server_send E (qs_file_stream u) msg_reject True v = (sent, x)" "same_but_io w x"
      using same_io_send [OF v(2) w] .
    have "fst (accept_offer E t) = fst (accept_offer E s)
        \<and> same_but_io (snd (accept_offer E s)) (snd (accept_offer E t))"
      using x(2) v(2) by (simp add: accept_offer_def u v(1) vs w x(1) same_io_update_cong)
    with answer_yes show ?thesis using session_step.answer_yes [of evp h t E] by (metis fst_conv prod.collapse snd_conv)
  next
    case (send_accept E)
    obtain ok u where u: "server_send E (qs_file_stream s) msg_accept False s = (ok, u)"
      by (cases "server_send E (qs_file_stream s) msg_accept False s")
    obtain v where v: "server_send E (qs_file_stream s) msg_accept False t = (ok, v)" "same_but_io u v"
      using same_io_send [OF assms(3) u] .
    then show ?thesis using send_accept u session_step.send_accept [of evp t E] by (auto simp: stream)
  next
    case done_timeout
    then show ?thesis using f same_io_ops(4) [OF same_io_ops(5) [OF assms(3)]]
      by (auto intro!: session_step.done_timeout)
  next
    case done_failed
    then show ?thesis using f same_io_ops(4) [OF same_io_ops(5) [OF assms(3)]]
      by (auto intro!: session_step.done_failed)
  next
    case done_ok
    then show ?thesis using f assms(3) by (auto intro!: session_step.done_ok)
  next
    case drained
    then show ?thesis using f same_io_ops(4) [OF assms(3)] by (auto intro!: session_step.drained)
  next
    case drain_timeout
    then show ?thesis using same_io_ops(4) [OF assms(3)] by (auto intro!: session_step.drain_timeout)
  qed (use assms(2) in \<open>auto simp: caller_label_def\<close>)
  then show thesis using that by blast
qed

text \<open>Away from the two waits for a flag, a step of the caller and a critical section commute.\<close>

lemma caller_commutes:
  assumes "session_step evp (pc, s) l (pc1, s1)" and "caller_label l"
    and "pc \<noteq> Rf_wait_offer" and "pc \<noteq> Rf_wait_done"
  shows "session_step evp (pc, run_locked k s) l (pc1, run_locked k s1)"
  using assms(1)
proof cases
  case (answer_no h E)
  have "reject_offer E (run_locked k s) = run_locked k (reject_offer E s)"
    by (cases k) (simp_all add: reject_offer_def run_locked_def notify_file_waiter_def server_send_def
        case_prod_beta Let_def)
  with answer_no show ?thesis using session_step.answer_no [of evp h "run_locked k s" E] by simp
next
  case (answer_yes h E)
  have "accept_offer E (run_locked k s) = (fst (accept_offer E s), run_locked k (snd (accept_offer E s)))"
    by (cases k) (simp_all add: accept_offer_def open_output_file_def run_locked_def notify_file_waiter_def
        server_send_def set_error_def case_prod_beta)
  with answer_yes show ?thesis using session_step.answer_yes [of evp h "run_locked k s" E]
    by (metis fst_conv snd_conv)
next
  case (send_accept E)
  have "snd (server_send E (qs_file_stream (run_locked k s)) msg_accept False (run_locked k s))
      = run_locked k (snd (server_send E (qs_file_stream s) msg_accept False s))"
    by (cases k) (simp_all add: run_locked_def notify_file_waiter_def server_send_def case_prod_beta)
  with send_accept show ?thesis using session_step.send_accept [of evp "run_locked k s" E] by simp
next
  case drained
  have "stop_receiving (run_locked k s) = run_locked k (stop_receiving s)"
    "qs_client_connection (run_locked k s) = None"
    using drained by (cases k; simp add: run_locked_def stop_receiving_def notify_file_waiter_def)+
  with drained show ?thesis using session_step.drained [of "run_locked k s" evp] by simp
next
  case drain_timeout
  have "stop_receiving (run_locked k s) = run_locked k (stop_receiving s)"
    by (cases k) (simp_all add: run_locked_def stop_receiving_def notify_file_waiter_def)
  with drain_timeout show ?thesis using session_step.drain_timeout [of evp _ "run_locked k s"] by simp
qed (use assms in \<open>auto simp: caller_label_def\<close>)

section \<open>A callback before its critical section\<close>

text \<open>What a callback leaves alone until it takes the lock.\<close>

definition before_frame :: "quic_server \<Rightarrow> quic_server \<times> locked_part option \<Rightarrow> bool" where
  "before_frame s r \<longleftrightarrow> qs_receiving_file (fst r) = qs_receiving_file s
     \<and> (snd r \<noteq> None \<longrightarrow> qs_file_done (fst r) = qs_file_done s \<and> qs_file_ok (fst r) = qs_file_ok s
        \<and> qs_offer_ready (fst r) = qs_offer_ready s \<and> qs_files (fst r) = qs_files s
        \<and> qs_client_connection (fst r) = qs_client_connection s
        \<and> frr_rejected (qs_file_result (fst r)) = frr_rejected (qs_file_result s)
        \<and> (snd r \<noteq> Some Lk_offer \<longrightarrow> qs_file_header (fst r) = qs_file_header s))"

lemma try_parse_receiving [simp]: "qs_receiving_file (try_parse_file_header E s) = qs_receiving_file s"
  by (cases "qs_header_parsed s")
    (auto simp: try_parse_file_header_def try_parse_cases auto_accepted_def case_prod_beta
      notify_file_waiter_def set_error_def Let_def split: option.splits)

lemma header_frame: "before_frame s (header_before_lock E s)"
  by (cases "decode_file_header (qs_receive_buffer s) empty_header 0")
    (auto simp: header_before_lock_def before_frame_def set_error_def Let_def)

lemma buffer_frame: "before_frame s (buffer_before_lock E d s)"
  using header_frame [of "s\<lparr>qs_receive_buffer := qs_receive_buffer s @ d\<rparr>" E]
  by (auto simp: buffer_before_lock_def before_frame_def)

lemma finish_before_frame: "before_frame s (finish_before_lock evp E h s)"
  by (auto simp: finish_before_lock_def before_frame_def send_file_ack_def server_send_def case_prod_beta
      rejected_verify Let_def)

lemma event_frame: "\<forall>bufs. ev \<noteq> Receive bufs \<Longrightarrow> before_frame s (event_before_lock evp E h ev s)"
  using finish_before_frame [of s evp E h]
  by (cases ev) (auto simp: event_before_lock_def abort_before_lock_def on_stream_event_def api_call_def
      before_frame_def set_error_def Let_def)

section \<open>No success before the answer\<close>

definition unsuccessful :: "receive_pc \<times> quic_server \<Rightarrow> bool" where
  "unsuccessful x \<longleftrightarrow> session_inv x
     \<and> (undecided (fst x) \<longrightarrow> \<not> qs_file_ok (snd x) \<and> \<not> frr_success (qs_file_result (snd x)))"

definition no_success :: "quic_server \<Rightarrow> bool" where
  "no_success s \<longleftrightarrow> qs_has_offer s \<and> \<not> qs_file_accepted s \<and> \<not> qs_file_ok s \<and> \<not> frr_success (qs_file_result s)"

lemma no_success_append: "no_success s \<Longrightarrow> no_success (append_file_bytes E d s)"
proof (cases "qs_header_parsed s")
  case True
  then show "no_success s \<Longrightarrow> ?thesis" by (simp add: no_success_def append_file_bytes_def append_body_bytes_def)
next
  case False
  then show "no_success s \<Longrightarrow> ?thesis"
    by (auto simp: no_success_def append_file_bytes_def try_parse_cases notify_file_waiter_def set_error_def
        split: option.splits)
qed

lemma no_success_fold: "no_success s \<Longrightarrow> no_success (fold (append_file_bytes E) ds s)"
  by (induction ds arbitrary: s) (simp_all add: no_success_append)

lemma no_success_stream_event:
  assumes "no_success s"
  shows "no_success (on_stream_event evp E h ev s)"
proof (cases ev)
  case PeerSendShutdown
  have "\<not> verdict_of evp s" if "qs_io_error s"
    using that by (simp add: verdict_of_def verify_true close_file_out_def)
  then show ?thesis using assms PeerSendShutdown
    by (auto simp: on_stream_event_def no_success_def finish_eq)
qed (use assms no_success_fold [OF assms] in \<open>auto simp: on_stream_event_def no_success_def peer_aborted_def
      notify_file_waiter_def set_error_def api_call_def close_file_out_def Let_def\<close>)

lemma unsuccessful_step: "session_step evp x l y \<Longrightarrow> unsuccessful x \<Longrightarrow> unsuccessful y"
proof -
  assume st: "session_step evp x l y" and u: "unsuccessful x"
  have inv: "session_inv y" using session_inv_step [OF st] u by (simp add: unsuccessful_def)
  have "\<not> qs_file_ok (snd y) \<and> \<not> frr_success (qs_file_result (snd y))" if "undecided (fst y)"
    using st u that
  proof (induction rule: session_step.induct)
    case (stream_callback pc s h ev E)
    then have "no_success s" by (simp add: unsuccessful_def session_inv_def no_success_def)
    from no_success_stream_event [OF this, of evp E h ev] show ?case by (simp add: no_success_def)
  next
    case (connection_callback pc s c cev)
    then show ?case
      by (cases cev) (simp_all add: unsuccessful_def on_connection_event_def api_call_def Let_def)
  next
    case (listener_callback pc s lev ok)
    then show ?case
      by (cases lev) (simp_all add: unsuccessful_def on_listener_event_def api_call_def)
  qed (auto simp: unsuccessful_def accept_offer_def split: prod.splits if_splits)
  with inv show ?thesis by (simp add: unsuccessful_def)
qed

lemma unsuccessful_run: "session_run evp (receive_start is_dir p ofr g s0) ls y \<Longrightarrow> unsuccessful y"
proof (erule run_invariant)
  show "unsuccessful (receive_start is_dir p ofr g s0)"
    using session_inv_start [of is_dir p ofr g s0]
    by (auto simp: unsuccessful_def receive_start_def receive_begin_def empty_result_def Let_def)
qed (rule unsuccessful_step)

section \<open>Traffic\<close>

text \<open>The stream events of a run, and the streams that start in it (true), in order.\<close>

definition traffic :: "session_label list \<Rightarrow> bool list" where
  "traffic ls = concat (map (\<lambda>l. case l of L_stream h ev \<Rightarrow> [False]
     | L_connection c (PeerStreamStarted st) \<Rightarrow> [True] | _ \<Rightarrow> []) ls)"

lemma traffic_simps [simp]:
  "traffic [] = []" "traffic (L_stream h ev # ls) = False # traffic ls"
  "traffic (L_connection c (PeerStreamStarted st) # ls) = True # traffic ls"
  "traffic (ls @ ms) = traffic ls @ traffic ms"
  by (simp_all add: traffic_def)

lemma traffic_quiet [simp]:
  "\<forall>h ev. l \<noteq> L_stream h ev \<Longrightarrow> \<forall>c st. l \<noteq> L_connection c (PeerStreamStarted st) \<Longrightarrow> traffic (l # ls) = traffic ls"
  by (auto simp: traffic_def split: session_label.split connection_event.split)

lemma no_new_stream_traffic: "no_new_stream ls \<longleftrightarrow> True \<notin> set (traffic ls)"
  by (induction ls) (auto simp: no_new_stream_def traffic_def split: session_label.split connection_event.split)

lemma one_stream_traffic: "one_stream ls \<longleftrightarrow> True \<notin> set (tl (traffic ls))"
  by (induction ls rule: one_stream.induct) (simp_all add: no_new_stream_traffic)

definition lock_traffic :: "lock_label list \<Rightarrow> bool list" where
  "lock_traffic ls = concat (map (\<lambda>l. case l of F_enter h ev \<Rightarrow> [False] | F_turn \<Rightarrow> [False]
     | F_connection c (PeerStreamStarted st) \<Rightarrow> [True] | _ \<Rightarrow> []) ls)"

definition one_stream_lock :: "lock_label list \<Rightarrow> bool" where
  "one_stream_lock ls \<longleftrightarrow> True \<notin> set (tl (lock_traffic ls))"

lemma subseq_one_stream:
  assumes "subseq (traffic ls) (lock_traffic fs)" and "one_stream_lock fs"
  shows "one_stream ls"
proof -
  have "set (tl (traffic ls)) \<subseteq> set (tl (lock_traffic fs))"
  proof (cases "lock_traffic fs")
    case Nil
    with assms(1) show ?thesis by (cases "traffic ls") auto
  next
    case (Cons y ys)
    show ?thesis
    proof (cases "traffic ls")
      case (Cons x xs)
      then have "subseq xs ys"
        using assms(1) \<open>lock_traffic fs = y # ys\<close> by (cases "x = y") (auto dest: subseq_Cons')
      then have "set xs \<subseteq> set ys" by (auto dest: list_emb_set)
      then show ?thesis using Cons \<open>lock_traffic fs = y # ys\<close> by simp
    qed simp
  qed
  with assms(2) show ?thesis by (auto simp: one_stream_traffic one_stream_lock_def)
qed

end
