(* ===== verification/Lock_Guarantees.thy ===== *)
theory Lock_Guarantees
  imports Lock_Refinement
begin

text \<open>
  The simulation: along a run of \<open>lock_step\<close> there is a run of \<open>session_step\<close> that ends in the same
  state, with a waiting critical section already done. As long as the caller waits for a flag
  there is also one that ends before the waiting callback, because the caller may still miss the
  flag the callback is about to set.
\<close>

section \<open>The simulation relation\<close>

fun pc_of :: "caller_pc \<Rightarrow> receive_pc" where
  "pc_of (At pc) = pc"
| "pc_of At_locked_drain = Rf_drain False"

lemma session_run_snoc:
  "session_run evp x ls y \<Longrightarrow> session_step evp y l z \<Longrightarrow> session_run evp x (ls @ [l]) z"
  by (induction rule: session_run.induct) (auto intro: run_step run_nil)

definition committed ::
  "'c evp_api \<Rightarrow> receive_pc \<times> quic_server \<Rightarrow> bool list \<Rightarrow> receive_pc \<Rightarrow> quic_server \<Rightarrow> bool" where
  "committed evp x tr pc s \<longleftrightarrow>
     (\<exists>ls t. session_run evp x ls (pc, t) \<and> same_but_io s t \<and> subseq (traffic ls) tr)"

text \<open>A run to a state from which the waiting callback is still to be made.\<close>

definition delayed ::
  "'c evp_api \<Rightarrow> receive_pc \<times> quic_server \<Rightarrow> bool list \<Rightarrow> receive_pc \<Rightarrow> locked_part \<Rightarrow> quic_server \<Rightarrow> bool" where
  "delayed evp x tr pc k s \<longleftrightarrow>
     (\<exists>ls t E h ev. session_run evp x ls (pc, t) \<and> subseq (traffic ls @ [False]) tr
        \<and> before_frame t (s, Some k) \<and> same_but_io (run_locked k s) (on_stream_event evp E h ev t))"

definition same_outcome :: "bool \<Rightarrow> quic_server \<Rightarrow> quic_server \<Rightarrow> bool" where
  "same_outcome b s t \<longleftrightarrow> qs_files t = qs_files s
     \<and> frr_rejected (qs_file_result t) = frr_rejected (qs_file_result s)
     \<and> (b \<longrightarrow> qs_file_header t = qs_file_header s \<and> qs_output_path t = qs_output_path s
          \<and> (qs_file_result t)\<lparr>frr_success := True\<rparr> = (qs_file_result s)\<lparr>frr_success := True\<rparr>)"

definition returned ::
  "'c evp_api \<Rightarrow> receive_pc \<times> quic_server \<Rightarrow> bool list \<Rightarrow> bool \<Rightarrow> quic_server \<Rightarrow> bool" where
  "returned evp x tr b s \<longleftrightarrow>
     (\<exists>ls t. session_run evp x ls (Rf_returned b, t) \<and> subseq (traffic ls) tr \<and> same_outcome b s t)"

definition head_lock :: "callback_op list \<Rightarrow> locked_part option" where
  "head_lock ops = (case ops of Op_locked k # _ \<Rightarrow> Some k | _ \<Rightarrow> None)"

lemma head_lock_simps [simp]:
  "head_lock [] = None" "head_lock (Op_buffer d # ops) = None" "head_lock (Op_locked k # ops) = Some k"
  by (simp_all add: head_lock_def)

definition waiting_lock ::
  "'c evp_api \<Rightarrow> receive_pc \<times> quic_server \<Rightarrow> bool list \<Rightarrow> caller_pc \<Rightarrow> locked_part \<Rightarrow> quic_server \<Rightarrow> bool" where
  "waiting_lock evp x tr p k s \<longleftrightarrow> committed evp x tr (pc_of p) (run_locked k s)
     \<and> (p = At Rf_wait_offer \<longrightarrow> delayed evp x tr Rf_wait_offer k s)
     \<and> (p = At Rf_accepting \<or> p = At Rf_wait_done \<longrightarrow>
          delayed evp x tr (pc_of p) k s \<or> \<not> qs_file_ok s \<and> k \<noteq> Lk_notify True)"

definition live ::
  "'c evp_api \<Rightarrow> receive_pc \<times> quic_server \<Rightarrow> bool list \<Rightarrow> lock_state \<Rightarrow> bool" where
  "live evp x tr y \<longleftrightarrow>
     (case y of (p, s, ops) \<Rightarrow>
        qs_receiving_file s \<and> (\<forall>k. Op_locked k \<notin> set (tl ops)) \<and> (undecided (pc_of p) \<longrightarrow> \<not> qs_file_ok s)
        \<and> (case head_lock ops of None \<Rightarrow> committed evp x tr (pc_of p) s
           | Some k \<Rightarrow> waiting_lock evp x tr p k s))"

definition lock_inv ::
  "'c evp_api \<Rightarrow> receive_pc \<times> quic_server \<Rightarrow> bool list \<Rightarrow> lock_state \<Rightarrow> bool" where
  "lock_inv evp x tr y \<longleftrightarrow>
     (case fst y of At (Rf_returned b) \<Rightarrow> returned evp x tr b (fst (snd y)) | _ \<Rightarrow> live evp x tr y)"

lemma lock_inv_in_call: "in_call p \<Longrightarrow> lock_inv evp x tr (p, y) = live evp x tr (p, y)"
  by (auto simp: lock_inv_def in_call_def split: caller_pc.splits receive_pc.splits)

lemma subseq_more: "subseq xs ys \<Longrightarrow> subseq xs (ys @ zs)"
  by (rule subseq_order.trans [of _ ys]) auto

lemma committed_more: "committed evp x tr pc s \<Longrightarrow> committed evp x (tr @ us) pc s"
  by (auto simp: committed_def intro: subseq_more)

lemma committed_same: "committed evp x tr pc s \<Longrightarrow> same_but_io s s' \<Longrightarrow> committed evp x tr pc s'"
  by (meson committed_def same_io_sym same_io_trans)

lemma delayed_same:
  "delayed evp x tr pc k s \<Longrightarrow> same_but_io s s' \<Longrightarrow> delayed evp x tr pc k s'"
proof -
  assume d: "delayed evp x tr pc k s" and ss: "same_but_io s s'"
  then obtain ls t E h ev where t: "session_run evp x ls (pc, t)" "subseq (traffic ls @ [False]) tr"
      "before_frame t (s, Some k)" "same_but_io (run_locked k s) (on_stream_event evp E h ev t)"
    by (auto simp: delayed_def)
  have "before_frame t (s', Some k)"
    using t(3) same_io_fields [OF ss] by (simp add: before_frame_def)
  moreover have "same_but_io (run_locked k s') (on_stream_event evp E h ev t)"
    using same_io_trans [OF same_io_sym [OF same_io_ops(3) [OF ss]] t(4)] .
  ultimately show ?thesis using t(1,2) unfolding delayed_def by blast
qed

text \<open>From before the callback to after it, at any position of the caller.\<close>

lemma delayed_commit:
  assumes "session_run evp x ls (pc, t)" and "subseq (traffic ls @ [False]) tr"
    and "same_but_io (run_locked k s) (on_stream_event evp E h ev t)"
  shows "committed evp x tr pc (run_locked k s)"
proof -
  have "session_run evp x (ls @ [L_stream h ev]) (pc, on_stream_event evp E h ev t)"
    by (rule session_run_snoc [OF assms(1) stream_callback])
  then show ?thesis using assms(2,3) unfolding committed_def by (intro exI conjI) auto
qed

section \<open>Callbacks\<close>

text \<open>Any callback, or turn of one, that reaches its critical section.\<close>

lemma before_lock_live:
  assumes start: "x = receive_start is_dir p0 ofr g s0"
    and live: "live evp x tr (p, s, op)" and head: "head_lock op = None"
    and split: "on_stream_event evp E h ev s = (case k of None \<Rightarrow> s1 | Some l \<Rightarrow> run_locked l s1)"
    and frame: "before_frame s (s1, k)" and rest: "\<forall>l. Op_locked l \<notin> set ops"
  shows "live evp x (tr @ [False]) (p, s1, locked_ops k @ ops)"
proof -
  from live head have l: "qs_receiving_file s" "undecided (pc_of p) \<Longrightarrow> \<not> qs_file_ok s"
    "committed evp x tr (pc_of p) s"
    by (simp_all add: live_def)
  then obtain ls t where t: "session_run evp x ls (pc_of p, t)" "same_but_io s t" "subseq (traffic ls) tr"
    by (auto simp: committed_def)
  have ss: "subseq (traffic ls @ [False]) (tr @ [False])" using t(3) by simp
  have run: "session_run evp x (ls @ [L_stream h ev]) (pc_of p, on_stream_event evp E h ev t)"
    by (rule session_run_snoc [OF t(1) stream_callback])
  have same: "same_but_io (on_stream_event evp E h ev s) (on_stream_event evp E h ev t)"
    using t(2) by (rule same_io_stream_event)
  have recv: "qs_receiving_file s1" using frame l(1) by (simp add: before_frame_def)
  have tail: "\<forall>l. Op_locked l \<notin> set (tl (locked_ops k @ ops))" using rest by (cases k; cases ops) auto
  show ?thesis
  proof (cases k)
    case None
    then have eq: "on_stream_event evp E h ev s = s1" using split by simp
    have "unsuccessful (pc_of p, on_stream_event evp E h ev t)" using unsuccessful_run run start by blast
    then have "undecided (pc_of p) \<Longrightarrow> \<not> qs_file_ok s1"
      using same_io_fields(2) [OF same] eq by (simp add: unsuccessful_def)
    moreover have "committed evp x (tr @ [False]) (pc_of p) s1"
      using run same ss unfolding committed_def eq by (intro exI conjI) auto
    moreover have "head_lock ops = None"
      using rest by (cases ops rule: list.exhaust) (auto simp: head_lock_def split: callback_op.split)
    ultimately show ?thesis using recv tail None by (simp add: live_def)
  next
    case (Some l)
    then have eq: "on_stream_event evp E h ev s = run_locked l s1" using split by simp
    have "before_frame t (s1, Some l)"
      using frame Some same_io_fields [OF t(2)] by (simp add: before_frame_def)
    then have d: "delayed evp x (tr @ [False]) (pc_of p) l s1"
      using t(1) ss same unfolding delayed_def eq by blast
    have "committed evp x (tr @ [False]) (pc_of p) (run_locked l s1)"
      by (rule delayed_commit [OF t(1) ss]) (use same eq in simp)
    moreover have "undecided (pc_of p) \<Longrightarrow> \<not> qs_file_ok s1"
      using l(2) frame Some by (simp add: before_frame_def)
    ultimately show ?thesis using recv tail Some d by (auto simp: live_def waiting_lock_def)
  qed
qed

lemma live_enter:
  assumes "x = receive_start is_dir p0 ofr g s0" and "live evp x tr (p, s, [])"
    and "callback_begin evp E h ev s = (s1, ops)"
  shows "live evp x (tr @ [False]) (p, s1, ops)"
proof (cases "\<exists>bufs. ev = Receive bufs")
  case True
  then have "s1 = s" "\<exists>ds. ops = map Op_buffer ds"
    using assms(3) by (auto simp: callback_begin_def split: if_splits intro: exI [of _ "[]"])
  then obtain ds where o: "s1 = s" "ops = map Op_buffer ds" by blast
  have h: "head_lock ops = None" unfolding o(2) by (cases ds) simp_all
  have "Op_locked k \<notin> set (tl ops)" for k unfolding o(2) by (cases ds) auto
  then show ?thesis using assms(2) h o(1) by (auto simp: live_def intro: committed_more)
next
  case False
  obtain k where k: "event_before_lock evp E h ev s = (s1, k)" "ops = locked_ops k"
    using assms(3) False by (cases ev) (auto simp: callback_begin_def split: prod.splits)
  have "on_stream_event evp E h ev s = (case k of None \<Rightarrow> s1 | Some l \<Rightarrow> run_locked l s1)"
    using event_split [OF _ k(1)] False by blast
  moreover have "before_frame s (s1, k)" using event_frame [of ev s evp E h] False k(1) by auto
  ultimately show ?thesis
    using before_lock_live [OF assms(1,2), where E = E and h = h and ev = ev and k = k and ?s1.0 = s1 and ops = "[]"] k(2)
    by simp
qed

lemma live_turn:
  assumes "x = receive_start is_dir p0 ofr g s0" and "live evp x tr (p, s, Op_buffer d # ops)"
    and "buffer_before_lock E d s = (s1, k)"
  shows "live evp x (tr @ [False]) (p, s1, locked_ops k @ ops)"
proof -
  have l: "qs_receiving_file s" "\<forall>k. Op_locked k \<notin> set ops" using assms(2) by (simp_all add: live_def)
  have "on_stream_event evp E 0 (Receive [d]) s = (case k of None \<Rightarrow> s1 | Some l \<Rightarrow> run_locked l s1)"
    using l(1) buffer_split [of E d s] assms(3) by (simp add: on_stream_event_def)
  moreover have "before_frame s (s1, k)" using buffer_frame [of s E d] assms(3) by simp
  ultimately show ?thesis using before_lock_live [OF assms(1,2)] l(2) by simp
qed

lemma run_locked_receiving [simp]: "qs_receiving_file (run_locked k s) = qs_receiving_file s"
  by (cases k) (simp_all add: run_locked_def notify_file_waiter_def)

lemma committed_unsuccessful:
  assumes "committed evp (receive_start is_dir p0 ofr g s0) tr pc s" and "undecided pc"
  shows "\<not> qs_file_ok s"
proof -
  obtain ls t where t: "session_run evp (receive_start is_dir p0 ofr g s0) ls (pc, t)" "same_but_io s t"
    using assms(1) by (auto simp: committed_def)
  have "\<not> qs_file_ok t" using unsuccessful_run [OF t(1)] assms(2) by (simp add: unsuccessful_def)
  then show ?thesis using same_io_fields(2) [OF t(2)] by simp
qed

lemma live_lock:
  assumes "x = receive_start is_dir p0 ofr g s0" and "live evp x tr (p, s, Op_locked k # ops)"
  shows "live evp x tr (p, run_locked k s, ops)"
proof -
  have c: "committed evp x tr (pc_of p) (run_locked k s)" and t: "\<forall>k. Op_locked k \<notin> set ops"
    using assms(2) by (simp_all add: live_def waiting_lock_def)
  have "head_lock ops = None" using t by (cases ops) (auto simp: head_lock_def split: callback_op.split)
  moreover have "Op_locked l \<notin> set (tl ops)" for l using t by (cases ops) auto
  ultimately show ?thesis
    using assms(2) c committed_unsuccessful [of evp is_dir p0 ofr g s0 tr "pc_of p"] assms(1)
    by (auto simp: live_def)
qed

lemma live_connection:
  assumes "x = receive_start is_dir p0 ofr g s0" and "live evp x tr (p, s, [])"
  shows "live evp x (tr @ lock_traffic [F_connection c cev]) (p, on_connection_event c cev s, [])"
proof -
  obtain ls t where t: "session_run evp x ls (pc_of p, t)" "same_but_io s t" "subseq (traffic ls) tr"
    using assms(2) by (auto simp: live_def committed_def)
  have "session_run evp x (ls @ [L_connection c cev]) (pc_of p, on_connection_event c cev t)"
    by (rule session_run_snoc [OF t(1) connection_callback])
  moreover have "subseq (traffic (ls @ [L_connection c cev])) (tr @ lock_traffic [F_connection c cev])"
    using t(3) by (cases cev) (auto simp: traffic_def lock_traffic_def intro: subseq_more)
  ultimately have k: "committed evp x (tr @ lock_traffic [F_connection c cev]) (pc_of p) (on_connection_event c cev s)"
    using same_io_connection_event [OF t(2), of c cev] unfolding committed_def by blast
  have "qs_receiving_file (on_connection_event c cev s) = qs_receiving_file s"
    by (cases cev) (simp_all add: on_connection_event_def api_call_def Let_def)
  with k show ?thesis
    using assms(2) committed_unsuccessful [of evp is_dir p0 ofr g s0 _ "pc_of p"] assms(1)
    by (auto simp: live_def)
qed

lemma live_listener:
  assumes "live evp x tr (p, s, ops)"
  shows "live evp x tr (p, snd (on_listener_event ok lev s), ops)"
proof -
  have ss: "same_but_io s (snd (on_listener_event ok lev s))" by (rule listener_same)
  have "committed evp x tr pc (run_locked k s) \<Longrightarrow>
      committed evp x tr pc (run_locked k (snd (on_listener_event ok lev s)))" for pc k
    by (rule committed_same [OF _ same_io_ops(3) [OF ss]])
  then have w: "waiting_lock evp x tr p k s \<Longrightarrow> waiting_lock evp x tr p k (snd (on_listener_event ok lev s))" for k
    using delayed_same [OF _ ss] same_io_fields(2) [OF ss] unfolding waiting_lock_def by metis
  show ?thesis
  proof (cases "head_lock ops")
    case None
    then show ?thesis using assms same_io_fields(2,6) [OF ss] committed_same [OF _ ss, of evp x tr "pc_of p"]
      by (simp add: live_def)
  next
    case (Some k)
    then show ?thesis using assms same_io_fields(2,6) [OF ss] w by (simp add: live_def)
  qed
qed

section \<open>The caller\<close>

lemma same_outcome_io: "same_but_io s t \<Longrightarrow> same_outcome b s t"
  using same_io_fields [of s t] by (simp add: same_outcome_def)

lemma same_outcome_locked: "same_but_io (run_locked k s) t \<Longrightarrow> same_outcome b s t"
  using same_io_fields [of "run_locked k s" t]
  by (cases k) (auto simp: same_outcome_def run_locked_def notify_file_waiter_def)

text \<open>The caller's step, taken from the state of a run with atomic callbacks.\<close>

lemma committed_caller:
  assumes "committed evp x tr pc s" and "session_step evp (pc, s) l (pc1, s1)" and "caller_label l"
  shows "committed evp x tr pc1 s1"
proof -
  obtain ls t where t: "session_run evp x ls (pc, t)" "same_but_io s t" "subseq (traffic ls) tr"
    using assms(1) by (auto simp: committed_def)
  obtain t1 where t1: "session_step evp (pc, t) l (pc1, t1)" "same_but_io s1 t1"
    using caller_io [OF assms(2,3) t(2)] .
  have "traffic [l] = []" using assms(3) by (cases l) (simp_all add: caller_label_def traffic_def)
  then have "subseq (traffic (ls @ [l])) tr" using t(3) by simp
  then show ?thesis using session_run_snoc [OF t(1) t1(1)] t1(2) unfolding committed_def by blast
qed

lemma committed_returned:
  "committed evp x tr (Rf_returned b) s \<Longrightarrow> returned evp x tr b s"
  "committed evp x tr (Rf_returned b) (run_locked k s) \<Longrightarrow> returned evp x tr b s"
proof -
  show "committed evp x tr (Rf_returned b) s \<Longrightarrow> returned evp x tr b s"
    unfolding committed_def returned_def using same_outcome_io by blast
  show "committed evp x tr (Rf_returned b) (run_locked k s) \<Longrightarrow> returned evp x tr b s"
    unfolding committed_def returned_def using same_outcome_locked by blast
qed

lemma pc_of_caller_at [simp]: "pc_of (caller_at l pc) = pc"
  by (simp add: caller_at_def)

lemma answer_frame:
  "qs_receiving_file (reject_offer E s) = qs_receiving_file s" "qs_file_ok (reject_offer E s) = qs_file_ok s"
  "qs_receiving_file (snd (accept_offer E s)) = qs_receiving_file s"
  "qs_file_ok (snd (accept_offer E s)) = qs_file_ok s"
  "fst (accept_offer E s) = Rf_accepting \<or> fst (accept_offer E s) = Rf_drain False"
  by (simp_all add: reject_offer_def accept_offer_def server_send_def open_output_file_def set_error_def
      case_prod_beta Let_def)

lemma caller_frame:
  assumes "session_step evp (pc, s) l (pc1, s1)" and "caller_label l"
  shows "(\<forall>b. pc1 \<noteq> Rf_returned b) \<longrightarrow> qs_receiving_file s1 = qs_receiving_file s"
    and "undecided pc1 \<longrightarrow> undecided pc" and "qs_file_ok s1 = qs_file_ok s"
proof -
  have "((\<forall>b. pc1 \<noteq> Rf_returned b) \<longrightarrow> qs_receiving_file s1 = qs_receiving_file s)
      \<and> (undecided pc1 \<longrightarrow> undecided pc) \<and> qs_file_ok s1 = qs_file_ok s"
    using assms(1)
  proof cases
    case (answer_yes h E)
    then show ?thesis using answer_frame(3-5) [of E s] by (metis fst_conv snd_conv undecided_simps(2))
  qed (use assms(2) in \<open>auto simp: caller_label_def answer_frame server_send_def close_file_out_def
      stop_receiving_def case_prod_beta\<close>)
  then show "(\<forall>b. pc1 \<noteq> Rf_returned b) \<longrightarrow> qs_receiving_file s1 = qs_receiving_file s"
    "undecided pc1 \<longrightarrow> undecided pc" "qs_file_ok s1 = qs_file_ok s" by blast+
qed

text \<open>After a step the caller has returned, or the relation for a live call is to be shown.\<close>

lemma after_caller:
  assumes "session_step evp (pc, s) l (pc1, s1)" and "caller_label l"
    and "qs_receiving_file s" and "\<forall>k. Op_locked k \<notin> set (tl ops)" and "undecided pc \<longrightarrow> \<not> qs_file_ok s"
    and "\<And>b. pc1 = Rf_returned b \<Longrightarrow> returned evp x tr b s1"
    and "(\<forall>b. pc1 \<noteq> Rf_returned b) \<Longrightarrow>
       (case head_lock ops of None \<Rightarrow> committed evp x tr pc1 s1 | Some k \<Rightarrow> waiting_lock evp x tr (caller_at l pc1) k s1)"
  shows "lock_inv evp x tr (caller_at l pc1, s1, ops)"
proof (cases "\<exists>b. pc1 = Rf_returned b")
  case True
  then obtain b where "pc1 = Rf_returned b" by blast
  then show ?thesis using assms(6) by (simp add: lock_inv_def caller_at_def)
next
  case False
  have "undecided pc1 \<longrightarrow> \<not> qs_file_ok s1"
    using caller_frame(2,3) [OF assms(1,2)] assms(5) by simp
  moreover have "qs_receiving_file s1" using caller_frame(1) [OF assms(1,2)] False assms(3) by simp
  ultimately have "live evp x tr (caller_at l pc1, s1, ops)"
    using assms(4,7) False by (cases "head_lock ops") (simp_all add: live_def)
  moreover have "in_call (caller_at l pc1)" using False by (auto simp: caller_at_def in_call_def)
  ultimately show ?thesis by (simp add: lock_inv_in_call)
qed

text \<open>Closing and stopping at the end of a call.\<close>

lemma end_commutes:
  "stop_receiving (run_locked k s) = run_locked k (stop_receiving s)"
  "stop_receiving (close_file_out (run_locked k s)) = run_locked k (stop_receiving (close_file_out s))"
proof -
  show "stop_receiving (run_locked k s) = run_locked k (stop_receiving s)"
    by (cases k) (simp_all add: run_locked_def stop_receiving_def notify_file_waiter_def)
  show "stop_receiving (close_file_out (run_locked k s)) = run_locked k (stop_receiving (close_file_out s))"
    by (cases k) (simp_all add: run_locked_def stop_receiving_def notify_file_waiter_def close_file_out_def file_out_open_def)
qed

lemma end_outcome:
  "same_outcome False s t \<Longrightarrow> same_outcome False (stop_receiving s) (stop_receiving t)"
  "same_outcome False s t \<Longrightarrow> same_outcome False (stop_receiving (close_file_out s)) (stop_receiving (close_file_out t))"
  by (simp_all add: same_outcome_def stop_receiving_def close_file_out_def)

lemma delayed_outcome: "before_frame t (s, Some k) \<Longrightarrow> same_outcome False s t"
  by (simp add: before_frame_def same_outcome_def)

text \<open>The caller leaves a run that has not made the waiting callback.\<close>

lemma leave_delayed:
  assumes "session_run evp x ls (pc, t)" and "subseq (traffic ls @ [False]) tr"
    and "session_step evp (pc, t) l (Rf_returned b, t1)" and "caller_label l" and "same_outcome b s1 t1"
  shows "returned evp x tr b s1"
proof -
  have "traffic [l] = []" using assms(4) by (cases l) (simp_all add: caller_label_def traffic_def)
  moreover have "subseq (traffic ls) tr"
    by (rule subseq_order.trans [OF subseq_more [OF subseq_order.order_refl] assms(2)])
  ultimately have "subseq (traffic (ls @ [l])) tr" by simp
  then show ?thesis using session_run_snoc [OF assms(1,3)] assms(5) unfolding returned_def by blast
qed

text \<open>While a callback waits for the lock: the caller waits for an offer.\<close>

lemma caller_wait_offer:
  assumes "waiting_lock evp x tr (At Rf_wait_offer) k s"
    and "session_step evp (Rf_wait_offer, s) l (pc1, s1)" and "caller_label l"
  shows "(\<exists>h. pc1 = Rf_prompt h \<and> committed evp x tr pc1 (run_locked k s1))
    \<or> (pc1 = Rf_returned False \<and> returned evp x tr False s1)"
proof -
  have c: "committed evp x tr Rf_wait_offer (run_locked k s)" using assms(1) by (simp add: waiting_lock_def)
  obtain ls t E h ev where t: "session_run evp x ls (Rf_wait_offer, t)" "subseq (traffic ls @ [False]) tr"
      "before_frame t (s, Some k)" "same_but_io (run_locked k s) (on_stream_event evp E h ev t)"
    using assms(1) by (auto simp: waiting_lock_def delayed_def)
  have f: "qs_file_done t = qs_file_done s" "qs_offer_ready t = qs_offer_ready s"
    "k \<noteq> Lk_offer \<Longrightarrow> qs_file_header t = qs_file_header s"
    using t(3) by (simp_all add: before_frame_def)
  have fin: "returned evp x tr False (stop_receiving s)"
    if "session_step evp (Rf_wait_offer, t) l (Rf_returned False, stop_receiving t)"
    by (rule leave_delayed [OF t(1,2) that assms(3) end_outcome(1) [OF delayed_outcome [OF t(3)]]])
  from assms(2) show ?thesis
  proof cases
    case offer_timeout
    then show ?thesis using fin session_step.offer_timeout [of t evp] f by simp
  next
    case offer_aborted
    then show ?thesis using fin session_step.offer_aborted [of t evp] f by simp
  next
    case offer_arrived
    show ?thesis
    proof (cases "k = Lk_offer")
      case True
      have "session_step evp (Rf_wait_offer, run_locked k s) L_wake
          (Rf_prompt (qs_file_header (run_locked k s)), run_locked k s)"
        using offer_arrived True by (intro session_step.offer_arrived) (simp_all add: run_locked_def)
      then have "session_step evp (Rf_wait_offer, run_locked k s) L_wake (Rf_prompt (qs_file_header s), run_locked k s)"
        using True by (simp add: run_locked_def)
      from committed_caller [OF c this] show ?thesis using offer_arrived by (simp add: caller_label_def)
    next
      case False
      have "session_step evp (Rf_wait_offer, t) L_wake (Rf_prompt (qs_file_header t), t)"
        using offer_arrived f by (intro session_step.offer_arrived) simp_all
      then have "session_run evp x (ls @ [L_wake]) (Rf_prompt (qs_file_header s), t)"
        using session_run_snoc [OF t(1)] f(3) False by simp
      from delayed_commit [OF this _ t(4)] t(2) show ?thesis using offer_arrived by simp
    qed
  qed (use assms(3) in \<open>simp_all add: caller_label_def\<close>)
qed

text \<open>The caller waits for the end of the transfer.\<close>

lemma caller_wait_done:
  assumes "waiting_lock evp x tr (At Rf_wait_done) k s"
    and "session_step evp (Rf_wait_done, s) l (pc1, s1)" and "caller_label l"
  shows "(pc1 = Rf_drain True \<and> committed evp x tr pc1 (run_locked k s1))
    \<or> (pc1 = Rf_returned False \<and> returned evp x tr False s1)"
proof (cases "delayed evp x tr Rf_wait_done k s")
  case True
  then obtain ls t E h ev where t: "session_run evp x ls (Rf_wait_done, t)" "subseq (traffic ls @ [False]) tr"
      "before_frame t (s, Some k)" "same_but_io (run_locked k s) (on_stream_event evp E h ev t)"
    by (auto simp: delayed_def)
  have f: "qs_file_done t = qs_file_done s" "qs_file_ok t = qs_file_ok s"
    using t(3) by (simp_all add: before_frame_def)
  have fin: "returned evp x tr False (stop_receiving (close_file_out s))"
    if "session_step evp (Rf_wait_done, t) l (Rf_returned False, stop_receiving (close_file_out t))"
    by (rule leave_delayed [OF t(1,2) that assms(3) end_outcome(2) [OF delayed_outcome [OF t(3)]]])
  from assms(2) show ?thesis
  proof cases
    case done_timeout
    then show ?thesis using fin session_step.done_timeout [of t evp] f by simp
  next
    case done_failed
    then show ?thesis using fin session_step.done_failed [of t evp] f by simp
  next
    case done_ok
    have "session_step evp (Rf_wait_done, t) L_wake (Rf_drain True, t)"
      using done_ok f by (intro session_step.done_ok) simp_all
    then have "session_run evp x (ls @ [L_wake]) (Rf_drain True, t)" by (rule session_run_snoc [OF t(1)])
    from delayed_commit [OF this _ t(4)] t(2) show ?thesis using done_ok by simp
  qed (use assms(3) in \<open>simp_all add: caller_label_def\<close>)
next
  case False
  let ?u = "run_locked k s"
  have c: "committed evp x tr Rf_wait_done ?u" and n: "\<not> qs_file_ok s" "k \<noteq> Lk_notify True"
    using assms(1) False by (simp_all add: waiting_lock_def)
  have u: "qs_file_done ?u \<longleftrightarrow> k \<noteq> Lk_offer \<or> qs_file_done s" "\<not> qs_file_ok ?u"
    using n by (cases k; auto simp: run_locked_def notify_file_waiter_def)+
  have "\<exists>l. caller_label l
      \<and> session_step evp (Rf_wait_done, ?u) l (Rf_returned False, stop_receiving (close_file_out ?u))"
    using u(2) session_step.done_timeout [of ?u evp] session_step.done_failed [of ?u evp]
    by (intro exI [of _ "if qs_file_done ?u then L_wake else L_timeout"]) (simp add: caller_label_def)
  then have "committed evp x tr (Rf_returned False) (run_locked k (stop_receiving (close_file_out s)))"
    using committed_caller [OF c] end_commutes(2) by metis
  then have "returned evp x tr False (stop_receiving (close_file_out s))" by (rule committed_returned)
  moreover have "pc1 = Rf_returned False \<and> s1 = stop_receiving (close_file_out s)"
    using assms(2) by cases (use assms(3) n in \<open>simp_all add: caller_label_def\<close>)
  ultimately show ?thesis by simp
qed

text \<open>A send between the user's yes and the wait keeps a waiting callback waiting.\<close>

lemma delayed_send_accept:
  assumes "delayed evp x tr Rf_accepting k s" and "session_step evp (Rf_accepting, s) l (Rf_wait_done, s1)"
    and "caller_label l"
  shows "delayed evp x tr Rf_wait_done k s1"
proof -
  have ss: "same_but_io s s1"
    using assms(2) by cases (use assms(3) server_send_same in \<open>auto simp: caller_label_def\<close>)
  from delayed_same [OF assms(1) this]
  obtain ls t E h ev where t: "session_run evp x ls (Rf_accepting, t)" "subseq (traffic ls @ [False]) tr"
      "before_frame t (s1, Some k)" "same_but_io (run_locked k s1) (on_stream_event evp E h ev t)"
    by (auto simp: delayed_def)
  let ?t = "snd (server_send good_env (qs_file_stream t) msg_accept False t)"
  have tt: "same_but_io t ?t" by (rule server_send_same)
  have "session_run evp x (ls @ [L_send_accept]) (Rf_wait_done, ?t)"
    by (rule session_run_snoc [OF t(1) session_step.send_accept])
  moreover have "before_frame ?t (s1, Some k)" using t(3) same_io_fields [OF tt] by (simp add: before_frame_def)
  moreover have "same_but_io (run_locked k s1) (on_stream_event evp E h ev ?t)"
    by (rule same_io_trans [OF t(4) same_io_stream_event [OF tt]])
  ultimately show ?thesis using t(2) unfolding delayed_def
    by (intro exI [of _ "ls @ [L_send_accept]"] exI [of _ ?t]) auto
qed

lemma caller_case:
  assumes "x = receive_start is_dir p0 ofr g s0" and "live evp x tr (At pc, s, ops)"
    and "session_step evp (pc, s) l (pc1, s1)" and "caller_label l"
  shows "(\<forall>b. pc1 = Rf_returned b \<longrightarrow> returned evp x tr b s1)
      \<and> ((\<forall>b. pc1 \<noteq> Rf_returned b) \<longrightarrow>
          (case head_lock ops of None \<Rightarrow> committed evp x tr pc1 s1 | Some k \<Rightarrow> waiting_lock evp x tr (caller_at l pc1) k s1))"
proof (cases "head_lock ops")
  case None
  then have "committed evp x tr pc1 s1"
    using committed_caller [OF _ assms(3,4)] assms(2) by (simp add: live_def)
  then show ?thesis using None committed_returned(1) [of evp x tr _ s1] by auto
next
case (Some k)
  then have w: "waiting_lock evp x tr (At pc) k s" using assms(2) by (simp add: live_def)
  then have c: "committed evp x tr pc (run_locked k s)" by (simp add: waiting_lock_def)
  have "(\<exists>b. pc1 = Rf_returned b \<and> returned evp x tr b s1)
      \<or> ((\<forall>b. pc1 \<noteq> Rf_returned b) \<and> waiting_lock evp x tr (caller_at l pc1) k s1)"
  proof (cases "pc = Rf_wait_offer \<or> pc = Rf_wait_done")
    case True
    then show ?thesis
      using caller_wait_offer [of evp x tr k s l pc1 s1] caller_wait_done [of evp x tr k s l pc1 s1] w assms(3,4)
      by (auto simp: waiting_lock_def caller_at_def)
  next
    case False
    then have c1: "committed evp x tr pc1 (run_locked k s1)"
      using committed_caller [OF c caller_commutes [OF assms(3,4)]] assms(4) by blast
    have ok: "qs_file_ok s1 = qs_file_ok s" by (rule caller_frame(3) [OF assms(3,4)])
    have "pc1 \<noteq> Rf_wait_offer" using assms(3) by cases (use assms(4) False answer_frame(5) in
        \<open>auto simp: caller_label_def accept_offer_def split: prod.splits if_splits\<close>)
    moreover have "delayed evp x tr Rf_wait_done k s1 \<or> \<not> qs_file_ok s1 \<and> k \<noteq> Lk_notify True"
      if "pc1 = Rf_wait_done"
    proof -
      have "pc = Rf_accepting" using assms(3) that by cases (use assms(4) False in
          \<open>auto simp: caller_label_def accept_offer_def split: prod.splits if_splits\<close>)
      then show ?thesis using w delayed_send_accept [of evp x tr k s l s1] assms(3,4) that ok
        by (auto simp: waiting_lock_def)
    qed
    moreover have "\<not> qs_file_ok s1 \<and> k \<noteq> Lk_notify True" if "pc1 = Rf_accepting"
    proof -
      have u: "undecided pc" using assms(3) that by cases (use assms(4) in \<open>auto simp: caller_label_def\<close>)
      have "\<not> qs_file_ok (run_locked k s)" using committed_unsuccessful c u assms(1) by blast
      then show ?thesis using assms(2) u ok by (auto simp: live_def run_locked_def notify_file_waiter_def)
    qed
    ultimately show ?thesis using c1 committed_returned(2) [of evp x tr _ k s1]
      by (auto simp: waiting_lock_def caller_at_def)
  qed
  then show ?thesis using Some by auto
qed

lemma live_caller:
  assumes "x = receive_start is_dir p0 ofr g s0" and "live evp x tr (At pc, s, ops)"
    and "session_step evp (pc, s) l (pc1, s1)" and "caller_label l"
  shows "lock_inv evp x tr (caller_at l pc1, s1, ops)"
proof (rule after_caller [OF assms(3,4)])
  show "qs_receiving_file s" "\<forall>k. Op_locked k \<notin> set (tl ops)" "undecided pc \<longrightarrow> \<not> qs_file_ok s"
    using assms(2) by (simp_all add: live_def)
  have "(\<forall>b. pc1 = Rf_returned b \<longrightarrow> returned evp x tr b s1)
      \<and> ((\<forall>b. pc1 \<noteq> Rf_returned b) \<longrightarrow>
          (case head_lock ops of None \<Rightarrow> committed evp x tr pc1 s1 | Some k \<Rightarrow> waiting_lock evp x tr (caller_at l pc1) k s1))"
    using caller_case [OF assms] .
  then show "\<And>b. pc1 = Rf_returned b \<Longrightarrow> returned evp x tr b s1"
    "\<forall>b. pc1 \<noteq> Rf_returned b \<Longrightarrow>
       (case head_lock ops of None \<Rightarrow> committed evp x tr pc1 s1 | Some k \<Rightarrow> waiting_lock evp x tr (caller_at l pc1) k s1)"
    by blast+
qed

lemma live_locked_drain:
  assumes "live evp x tr (At_locked_drain, s, ops)"
    and "session_step evp (Rf_drain False, s) l (Rf_returned False, s1)" and "caller_label l"
  shows "lock_inv evp x tr (At (Rf_returned False), s1, ops)"
proof (cases "head_lock ops")
  case None
  then have "committed evp x tr (Rf_returned False) s1"
    using committed_caller [OF _ assms(2,3), of x tr] assms(1) by (simp add: live_def)
  then show ?thesis by (simp add: lock_inv_def committed_returned(1))
next
  case (Some k)
  have "session_step evp (Rf_drain False, run_locked k s) l (Rf_returned False, run_locked k s1)"
    by (rule caller_commutes [OF assms(2,3)]) simp_all
  then have "committed evp x tr (Rf_returned False) (run_locked k s1)"
    using committed_caller [OF _ _ assms(3), of evp x tr "Rf_drain False" "run_locked k s"] assms(1) Some
    by (simp add: live_def waiting_lock_def)
  then show ?thesis by (simp add: lock_inv_def committed_returned(2))
qed

section \<open>Runs\<close>

lemma lock_traffic_snoc [simp]: "lock_traffic (ls @ [l]) = lock_traffic ls @ lock_traffic [l]"
  by (simp add: lock_traffic_def)

lemma lock_traffic_single [simp]:
  "lock_traffic [F_enter h ev] = [False]" "lock_traffic [F_turn] = [False]" "lock_traffic [F_lock] = []"
  "lock_traffic [F_listener lev] = []" "lock_traffic [F_caller l] = []"
  by (simp_all add: lock_traffic_def)

lemma lock_inv_step:
  assumes "x = receive_start is_dir p0 ofr g s0" and "lock_step evp y l z"
    and "lock_inv evp x (lock_traffic ls) y"
  shows "lock_inv evp x (lock_traffic (ls @ [l])) z"
  using assms(2,3)
proof (induction rule: lock_step.induct)
  case (enter p E h ev s s1 ops)
  then show ?case using live_enter [OF assms(1)] by (simp add: lock_inv_in_call)
next
  case (turn p E d s s1 k ops)
  then show ?case using live_turn [OF assms(1)] by (simp add: lock_inv_in_call)
next
  case (lock p s k ops)
  then show ?case using live_lock [OF assms(1)] by (simp add: lock_inv_in_call)
next
  case (connection p s c cev)
  then show ?case using live_connection [OF assms(1)] by (simp add: lock_inv_in_call)
next
  case (listener p s ops lev ok)
  then show ?case using live_listener by (simp add: lock_inv_in_call)
next
  case (caller pc s l pc1 s1 ops)
  have "pc \<noteq> Rf_returned b" for b using caller(1) by cases (use caller(2) in \<open>auto simp: caller_label_def\<close>)
  then have "in_call (At pc)" by (simp add: in_call_def)
  then show ?case using caller live_caller [OF assms(1)] by (simp add: lock_inv_in_call)
next
  case (locked_drained s ops)
  then show ?case using live_locked_drain [OF _ session_step.drained [of s evp False]]
    by (simp add: lock_inv_in_call in_call_def caller_label_def)
next
  case (locked_timeout s ops)
  then show ?case using live_locked_drain [OF _ session_step.drain_timeout [of evp False s]]
    by (simp add: lock_inv_in_call in_call_def caller_label_def)
qed

lemma lock_inv_start:
  assumes "x = receive_start is_dir p0 ofr g s0"
  shows "lock_inv evp x tr (lock_start is_dir p0 ofr g s0)"
proof -
  obtain pc t where s: "receive_start is_dir p0 ofr g s0 = (pc, t)" by (cases "receive_start is_dir p0 ofr g s0")
  have "committed evp x tr pc t" unfolding committed_def assms s using run_nil same_io_refl by fastforce
  moreover have "qs_receiving_file t" "\<not> qs_file_ok t" "in_call (At pc)"
    using s by (auto simp: receive_start_def receive_begin_def in_call_def Let_def split: if_splits)
  ultimately show ?thesis by (simp add: lock_start_def s lock_inv_in_call live_def)
qed

lemma lock_inv_run:
  assumes "lock_run evp y ls z" and "y = lock_start is_dir p0 ofr g s0"
  shows "lock_inv evp (receive_start is_dir p0 ofr g s0) (lock_traffic ls) z"
  using assms
proof (induction rule: lock_run.induct)
  case (lock_nil x)
  then show ?case using lock_inv_start by blast
next
  case (lock_snoc x ls y l z)
  then show ?case using lock_inv_step by blast
qed

end
