(* ===== verification/Lock_Properties.thy ===== *)
theory Lock_Properties
  imports Lock_Guarantees Server_Races
begin

text \<open>
  What the granularity of the mutex changes, and what it does not: the refinement of the receiver
  with atomic callbacks, the check behind a returned success, and the wait that holds the mutex.
\<close>

section \<open>Runs with atomic callbacks are among the runs\<close>

lemma lock_run_append: "lock_run evp y ms z \<Longrightarrow> lock_run evp x ls y \<Longrightarrow> lock_run evp x (ls @ ms) z"
proof (induction rule: lock_run.induct)
  case (lock_snoc y ms z l u)
  then have "lock_run evp x ((ls @ ms) @ [l]) u" by (intro lock_run.lock_snoc)
  then show ?case by simp
qed simp

lemma lock_run_one: "lock_step evp x l y \<Longrightarrow> lock_run evp x [l] y"
  using lock_snoc [OF lock_nil, of evp x l y] by simp

text \<open>A callback that is not interrupted ends in the state of the atomic callback.\<close>

lemma piece_run:
  assumes "in_call p" and "p \<noteq> At_locked_drain" and "server_piece E op s = (s1, new)"
  shows "\<exists>l. lock_step evp (p, s, op # ops) l (p, s1, new @ ops) \<and> True \<notin> set (lock_traffic [l])"
proof (cases op)
  case (Op_buffer d)
  then obtain k where "buffer_before_lock E d s = (s1, k)" "new = locked_ops k"
    using assms(3) by (auto simp: server_piece_def split: prod.splits)
  with turn [OF assms(1), of E d s s1 k evp ops] Op_buffer show ?thesis by (auto simp: lock_traffic_def)
next
  case (Op_locked k)
  with lock [OF assms(1,2), of evp s k ops] assms(3) show ?thesis by (auto simp: server_piece_def lock_traffic_def)
qed

lemma callback_run:
  assumes "in_call p" and "p \<noteq> At_locked_drain"
  shows "\<exists>fs. lock_run evp (p, s, []) fs (p, on_stream_event evp E h ev s, []) \<and> True \<notin> set (lock_traffic fs)"
proof -
  let ?R = "\<lambda>s ops t. \<exists>fs. lock_run evp (p, s, ops) fs (p, t, []) \<and> True \<notin> set (lock_traffic fs)"
  obtain s1 ops where b: "callback_begin evp E h ev s = (s1, ops)" by (cases "callback_begin evp E h ev s")
  have "?R s1 ops (on_stream_event evp E h ev s)"
  proof (rule server_cut.callback_works_off [of ?R E evp "(h, ev)", simplified prod.case])
    show "?R u [] u" for u using lock_nil [of evp "(p, u, [])"] by (intro exI [of _ "[]"]) (simp add: lock_traffic_def)
    show "?R u (op # ops) t" if p: "server_piece E op u = (u1, new)" and r: "?R u1 (new @ ops) t" for op ops u u1 new t
    proof -
      obtain l where l: "lock_step evp (p, u, op # ops) l (p, u1, new @ ops)" "True \<notin> set (lock_traffic [l])"
        using piece_run [OF assms p] by blast
      obtain fs where fs: "lock_run evp (p, u1, new @ ops) fs (p, t, [])" "True \<notin> set (lock_traffic fs)" using r by blast
      from lock_run_append [OF fs(1) lock_run_one [OF l(1)]] l(2) fs(2) show ?thesis
        by (intro exI [of _ "[l] @ fs"]) (simp add: lock_traffic_def)
    qed
    show "callback_begin evp E h ev s = (s1, ops)" by (rule b)
  qed
  then obtain fs where fs: "lock_run evp (p, s1, ops) fs (p, on_stream_event evp E h ev s, [])" "True \<notin> set (lock_traffic fs)" by blast
  from lock_run_append [OF fs(1) lock_run_one [OF enter [OF assms(1) b]]] fs(2) show ?thesis
    by (intro exI [of _ "[F_enter h ev] @ fs"]) (simp add: lock_traffic_def)
qed

lemma atomic_step_included:
  assumes "session_step evp (pc, s) l (pc1, s1)" and "in_call (At pc)" and "l \<noteq> L_answer True"
  shows "\<exists>fs. lock_run evp (At pc, s, []) fs (At pc1, s1, [])
    \<and> (if \<exists>h ev. l = L_stream h ev then True \<notin> set (lock_traffic fs) else lock_traffic fs = traffic [l])"
proof (cases "caller_label l")
  case True
  then have "caller_at l pc1 = At pc1" using assms(3) by (simp add: caller_at_def)
  with lock_run_one [OF caller [OF assms(1) True]] True show ?thesis
    by (intro exI [of _ "[F_caller l]"]) (cases l; simp add: caller_label_def traffic_def)
next
  case False
  from assms(1) show ?thesis
  proof cases
    case (stream_callback h ev E)
    then show ?thesis using callback_run [OF assms(2), of evp s E h ev] by auto
  next
    case (connection_callback c cev)
    then show ?thesis using lock_run_one [OF connection [OF assms(2)], of evp s c cev]
      by (intro exI [of _ "[F_connection c cev]"]) (simp add: lock_traffic_def traffic_def split: connection_event.split)
  next
    case (listener_callback lev ok)
    then show ?thesis using lock_run_one [OF listener [OF assms(2)], of evp s "[]" lev ok]
      by (intro exI [of _ "[F_listener lev]"]) (simp add: lock_traffic_def traffic_def)
  qed (use False in \<open>simp_all add: caller_label_def\<close>)
qed

lemma returned_run: "session_run evp x ls y \<Longrightarrow> fst x = Rf_returned b \<Longrightarrow> fst y = Rf_returned b"
proof (induction rule: session_run.induct)
  case (run_step x l y ls z)
  from run_step(1,4) have "fst y = Rf_returned b" by (cases rule: session_step.cases) auto
  then show ?case by (rule run_step.IH)
qed simp

lemma atomic_run_included:
  assumes "session_run evp x ls y" and "L_answer True \<notin> set ls"
  shows "\<exists>fs t. lock_run evp (At (fst x), snd x, []) fs (At (fst y), t, [])
    \<and> (no_new_stream ls \<longrightarrow> True \<notin> set (lock_traffic fs)) \<and> (one_stream ls \<longrightarrow> one_stream_lock fs)"
  using assms
proof (induction rule: session_run.induct)
  case (run_nil x)
  then show ?case using lock_nil [of evp "(At (fst x), snd x, [])"]
    by (intro exI [of _ "[]"] exI [of _ "snd x"]) (simp add: lock_traffic_def one_stream_lock_def)
next
  case (run_step x l y ls z)
  obtain pc s pc1 s1 where xy: "x = (pc, s)" "y = (pc1, s1)" by (cases x; cases y)
  show ?case
  proof (cases "in_call (At pc)")
    case False
    then obtain b where "pc = Rf_returned b" by (auto simp: in_call_def)
    then have "fst z = pc" using returned_run [OF session_run.run_step [OF run_step(1,2)]] xy by simp
    then show ?thesis using lock_nil [of evp "(At pc, s, [])"] xy
      by (intro exI [of _ "[]"] exI [of _ s]) (simp add: lock_traffic_def one_stream_lock_def)
  next
    case True
    obtain fs t where fs: "lock_run evp (At pc1, s1, []) fs (At (fst z), t, [])"
        "no_new_stream ls \<Longrightarrow> True \<notin> set (lock_traffic fs)" "one_stream ls \<Longrightarrow> one_stream_lock fs"
      using run_step.IH run_step.prems xy by auto
    obtain gs where gs: "lock_run evp (At pc, s, []) gs (At pc1, s1, [])"
        "if \<exists>h ev. l = L_stream h ev then True \<notin> set (lock_traffic gs) else lock_traffic gs = traffic [l]"
      using atomic_step_included [OF run_step(1) [unfolded xy] True] run_step.prems by auto
    have app: "lock_traffic (gs @ fs) = lock_traffic gs @ lock_traffic fs" by (simp add: lock_traffic_def)
    have "no_new_stream (l # ls) \<longrightarrow> True \<notin> set (lock_traffic (gs @ fs))"
    proof
      assume n: "no_new_stream (l # ls)"
      then have "True \<notin> set (lock_traffic gs)"
        using gs(2) no_new_stream_traffic [of "[l]"] by (auto simp: no_new_stream_def split: if_splits)
      then show "True \<notin> set (lock_traffic (gs @ fs))" using n fs(2) app by simp
    qed
    moreover have "one_stream (l # ls) \<longrightarrow> one_stream_lock (gs @ fs)"
    proof
      assume o: "one_stream (l # ls)"
      have "traffic [l] = [] \<or> (\<exists>b. traffic [l] = [b])"
        by (auto simp: traffic_def split: session_label.split connection_event.split)
      then consider "traffic [l] = []" | b where "traffic [l] = [b]" by blast
      then show "one_stream_lock (gs @ fs)"
      proof cases
        case 1
        then have "one_stream ls" "\<nexists>h ev. l = L_stream h ev"
          using o one_stream_traffic [of "l # ls"] one_stream_traffic [of ls] traffic_simps(4) [of "[l]" ls] by auto
        then show ?thesis using fs(3) gs(2) 1 by (simp add: one_stream_lock_def app)
      next
        case 2
        then have "no_new_stream ls"
          using o one_stream_traffic [of "l # ls"] no_new_stream_traffic [of ls] traffic_simps(4) [of "[l]" ls] by simp
        then have "True \<notin> set (lock_traffic fs)" by (rule fs(2))
        moreover have "True \<notin> set (tl (lock_traffic gs))"
          using gs(2) 2 by (cases "lock_traffic gs") (auto split: if_splits)
        ultimately show ?thesis by (cases "lock_traffic gs"; cases "lock_traffic fs") (auto simp: one_stream_lock_def app)
      qed
    qed
    ultimately show ?thesis using lock_run_append [OF fs(1) gs(1)] xy by auto
  qed
qed

section \<open>The wait that holds the mutex\<close>








section \<open>Properties\<close>

text \<open>
  C16: The granularity of the lock does not show in the results. Take any run in which stream
  callbacks are cut where they take \<open>file_mutex_\<close> and between the buffers of a RECEIVE event,
  and interleaved there with the caller. What \<open>receive_file\<close> returns in it, whether the transfer
  was declined, and all files at that moment are those of a run with atomic callbacks, and after
  a success so are the header and the whole result. If the run carries one stream, so does the other.
\<close>

theorem lock_granularity_refines:
  assumes "lock_run evp (lock_start is_dir p ofr g s0) fs (At (Rf_returned b), s, ops)"
  shows "\<exists>ls t. session_run evp (receive_start is_dir p ofr g s0) ls (Rf_returned b, t)
    \<and> (one_stream_lock fs \<longrightarrow> one_stream ls)
    \<and> qs_files t = qs_files s \<and> frr_rejected (qs_file_result t) = frr_rejected (qs_file_result s)
    \<and> (b \<longrightarrow> qs_file_header t = qs_file_header s \<and> qs_output_path t = qs_output_path s
         \<and> (qs_file_result t)\<lparr>frr_success := True\<rparr> = (qs_file_result s)\<lparr>frr_success := True\<rparr>)"
proof -
  have "returned evp (receive_start is_dir p ofr g s0) (lock_traffic fs) b s"
    using lock_inv_run [OF assms refl] by (simp add: lock_inv_def)
  then show ?thesis unfolding returned_def same_outcome_def using subseq_one_stream by blast
qed

lemma abc_lock_run:
  obtains fs t where "lock_run toy_evp (lock_start (\<lambda>_. False) ''in/'' False False (new_server 4433 Map.empty)) fs
      (At (Rf_returned True), t, [])" and "one_stream_lock fs"
proof -
  obtain s where s: "session_run toy_evp (receive_start (\<lambda>_. False) ''in/'' False False (new_server 4433 Map.empty))
     abc_labels (Rf_returned True, s)" using abc_session by blast
  have "L_answer True \<notin> set abc_labels" by (auto simp: abc_labels_def)
  from atomic_run_included [OF s this] that show thesis
    using abc_one_stream by (auto simp: lock_start_def receive_start_def)
qed

theorem lock_granularity_refines_witness:
  "\<exists>fs s ls t. lock_run toy_evp (lock_start (\<lambda>_. False) ''in/'' False False (new_server 4433 Map.empty)) fs
       (At (Rf_returned True), s, [])
     \<and> session_run toy_evp (receive_start (\<lambda>_. False) ''in/'' False False (new_server 4433 Map.empty)) ls
         (Rf_returned True, t) \<and> one_stream ls \<and> qs_files t = qs_files s"
proof -
  obtain fs s where r: "lock_run toy_evp (lock_start (\<lambda>_. False) ''in/'' False False (new_server 4433 Map.empty)) fs
      (At (Rf_returned True), s, [])" and o: "one_stream_lock fs" by (rule abc_lock_run)
  from lock_granularity_refines [OF r] r o show ?thesis by blast
qed

text \<open>
  C6: A returned success was checked, also at the granularity of the mutex. When \<open>receive_file\<close>
  returns true in a run with one stream, then at that moment the file its result names exists,
  has the length of the result and the hash that the sender announced, even if a callback is
  in the middle of its work.
\<close>

theorem success_checked_under_locks:
  assumes "lock_run evp (lock_start is_dir p ofr g s0) fs (At (Rf_returned True), s, ops)"
    and "one_stream_lock fs"
  shows "\<exists>b. qs_files s (frr_path (qs_file_result s)) = Some b
    \<and> length b = unat (frr_bytes_received (qs_file_result s))
    \<and> frr_bytes_received (qs_file_result s) = fth_size (qs_file_header s)
    \<and> file_hash evp (qs_files s) (frr_path (qs_file_result s)) = Some (fth_sha256_hex (qs_file_header s))
    \<and> frr_computed_hash (qs_file_result s) = fth_sha256_hex (qs_file_header s)"
proof -
  have "returned evp (receive_start is_dir p ofr g s0) (lock_traffic fs) True s"
    using lock_inv_run [OF assms(1) refl] by (simp add: lock_inv_def)
  then obtain ls t where t: "session_run evp (receive_start is_dir p ofr g s0) ls (Rf_returned True, t)"
      "one_stream ls" "qs_files t = qs_files s" "qs_file_header t = qs_file_header s"
      "(qs_file_result t)\<lparr>frr_success := True\<rparr> = (qs_file_result s)\<lparr>frr_success := True\<rparr>"
    unfolding returned_def same_outcome_def using subseq_one_stream [OF _ assms(2)] by blast
  have "frr_path (qs_file_result t) = frr_path (qs_file_result s)"
    "frr_bytes_received (qs_file_result t) = frr_bytes_received (qs_file_result s)"
    "frr_computed_hash (qs_file_result t) = frr_computed_hash (qs_file_result s)"
    using arg_cong [OF t(5), of frr_path] arg_cong [OF t(5), of frr_bytes_received]
      arg_cong [OF t(5), of frr_computed_hash] by simp_all
  with returned_true_checked [OF t(1,2)] t(3,4) show ?thesis by auto
qed

theorem success_checked_under_locks_witness:
  "\<exists>fs s b. lock_run toy_evp (lock_start (\<lambda>_. False) ''in/'' False False (new_server 4433 Map.empty)) fs
       (At (Rf_returned True), s, [])
     \<and> qs_files s (frr_path (qs_file_result s)) = Some b"
proof -
  obtain fs s where r: "lock_run toy_evp (lock_start (\<lambda>_. False) ''in/'' False False (new_server 4433 Map.empty)) fs
      (At (Rf_returned True), s, [])" and o: "one_stream_lock fs" by (rule abc_lock_run)
  from success_checked_under_locks [OF r o] r show ?thesis by blast
qed



end
