(* ===== verification/Client_Locks.thy ===== *)
theory Client_Locks
  imports Client_Outcome Cut_Callbacks "HOL-Library.Sublist"
begin

text \<open>
  The sender at the granularity of its mutexes. \<open>Client_Session\<close> takes a callback as one step; in
  the code a callback reads and writes \<open>awaiting_decision_\<close>, the two reply texts, \<open>stream_\<close> and
  \<open>connection_\<close> without a lock and takes one of its five mutexes only to publish a flag, and the
  thread in \<open>send_file\<close> may run between any two of these. Here a callback is a list of operations
  that are worked off one at a time. The callbacks of one connection do not overlap, as msquic
  documents. The thread sees only the flags, \<open>stream_\<close> and the API table, and each operation
  that changes one of these is the last of its callback: so every such run has a run with atomic
  callbacks in which the thread does the same. What differs is the order of the calls of msquic.
\<close>

section \<open>Operations of the callbacks\<close>

datatype client_op =
    Co_reply bytes \<comment> \<open>one buffer of a RECEIVE event\<close>
  | Co_look \<comment> \<open>is the decision complete?\<close>
  | Co_decide bool \<comment> \<open>\<open>resolve_decision\<close>, under \<open>decision_mutex_\<close>\<close>
  | Co_file_done bool \<comment> \<open>\<open>notify_file_waiter\<close>\<close>
  | Co_send_done \<comment> \<open>\<open>notify_send_waiter\<close>\<close>
  | Co_connect_done bool \<comment> \<open>\<open>notify_connect_waiter\<close>\<close>
  | Co_stream_gone \<comment> \<open>\<open>stream_ = nullptr\<close>\<close>
  | Co_connection_gone \<comment> \<open>\<open>connection_ = nullptr\<close>\<close>
  | Co_shutdown_done \<comment> \<open>under \<open>shutdown_mutex_\<close>\<close>

definition run_client_op :: "client_op \<Rightarrow> quic_client \<Rightarrow> quic_client \<times> client_op list" where
  "run_client_op op s =
     (case op of
        Co_reply buf \<Rightarrow> (receive_reply buf s, [])
      | Co_look \<Rightarrow>
          if qc_awaiting_decision s \<and> str_find [NL] (qc_decision_buf s) \<noteq> None
          then (s\<lparr>qc_awaiting_decision := False\<rparr>, [Co_decide (starts_with (qc_decision_buf s) ''ACCEPT'')])
          else (s, [])
      | Co_decide accepted \<Rightarrow> (s\<lparr>qc_decision_accepted := accepted, qc_decision_ready := True\<rparr>, [])
      | Co_file_done success \<Rightarrow> (client_notify_file_waiter success s, [])
      | Co_send_done \<Rightarrow> (notify_send_waiter () s, [])
      | Co_connect_done success \<Rightarrow> (notify_connect_waiter success s, [])
      | Co_stream_gone \<Rightarrow> (s\<lparr>qc_stream := None\<rparr>, [])
      | Co_connection_gone \<Rightarrow> (s\<lparr>qc_connection := None\<rparr>, [])
      | Co_shutdown_done \<Rightarrow> (s\<lparr>qc_shutdown_complete := True\<rparr>, []))"

section \<open>Callbacks\<close>

datatype client_event =
    Ev_stream handle stream_event
  | Ev_connection handle client_connection_event

definition client_callback :: "client_event \<Rightarrow> quic_client \<Rightarrow> quic_client" where
  "client_callback e s =
     (case e of
        Ev_stream h ev \<Rightarrow> client_on_stream_event h ev s
      | Ev_connection c cev \<Rightarrow> client_on_connection_event c cev s)"

text \<open>A callback up to its first operation, and its operations.\<close>

definition stream_event_begin :: "handle \<Rightarrow> stream_event \<Rightarrow> quic_client \<Rightarrow> quic_client \<times> client_op list" where
  "stream_event_begin stream ev s =
     (case ev of
        Receive bufs \<Rightarrow> (s, map Co_reply bufs @ [Co_look])
      | PeerSendShutdown \<Rightarrow>
          if qc_awaiting_decision s
          then (s\<lparr>qc_awaiting_decision := False\<rparr>, [Co_decide (starts_with (qc_decision_buf s) ''ACCEPT'')])
          else (s, [Co_file_done (starts_with (qc_file_ack s) ''OK'')])
      | SendComplete ctx \<Rightarrow> (s\<lparr>qc_io := free_block ctx (qc_io s)\<rparr>, [Co_send_done])
      | StreamShutdownComplete app_close \<Rightarrow>
          (if \<not> app_close then client_call (StreamClose stream) s else s, [Co_stream_gone])
      | PeerSendAborted \<Rightarrow> (s, [])
      | PeerReceiveAborted \<Rightarrow> (s, [])
      | OtherStreamEvent \<Rightarrow> (s, []))"

definition connection_event_begin ::
  "handle \<Rightarrow> client_connection_event \<Rightarrow> quic_client \<Rightarrow> quic_client \<times> client_op list" where
  "connection_event_begin connection cev s =
     (case cev of
        C_connected \<Rightarrow> (s\<lparr>qc_connected := True\<rparr>, [Co_connect_done True])
      | C_shutdown_by_transport \<Rightarrow> (s, if \<not> qc_connected s then [Co_connect_done False] else [])
      | C_shutdown_by_peer \<Rightarrow> (s, if \<not> qc_connected s then [Co_connect_done False] else [])
      | C_shutdown_complete app_close \<Rightarrow>
          (let s1 = s\<lparr>qc_connected := False\<rparr>
           in (if \<not> app_close then client_call (ConnectionClose connection) s1 else s1,
               [Co_connection_gone, Co_shutdown_done]))
      | C_other \<Rightarrow> (s, []))"

definition client_callback_begin :: "client_event \<Rightarrow> quic_client \<Rightarrow> quic_client \<times> client_op list" where
  "client_callback_begin e s =
     (case e of
        Ev_stream h ev \<Rightarrow> stream_event_begin h ev s
      | Ev_connection c cev \<Rightarrow> connection_event_begin c cev s)"

section \<open>Steps\<close>

type_synonym client_lock_state = "send_pc \<times> quic_client \<times> client_op list"

datatype client_lock_label =
    Cut_enter client_event
  | Cut_op
  | Cut_wake
  | Cut_timeout

inductive client_lock_step ::
  "send_job \<Rightarrow> client_lock_state \<Rightarrow> client_lock_label \<Rightarrow> client_lock_state \<Rightarrow> bool" for job where
  k_enter:
    "client_callback_begin e s = (s1, ops) \<Longrightarrow>
     client_lock_step job (pc, s, []) (Cut_enter e) (pc, s1, ops)"
| k_op:
    "run_client_op op s = (s1, new) \<Longrightarrow>
     client_lock_step job (pc, s, op # ops) Cut_op (pc, s1, new @ ops)"
| k_wake:
    "send_step job (pc, s) S_wake (pc1, s1) \<Longrightarrow>
     client_lock_step job (pc, s, ops) Cut_wake (pc1, s1, ops)"
| k_timeout:
    "send_step job (pc, s) S_timeout (pc1, s1) \<Longrightarrow>
     client_lock_step job (pc, s, ops) Cut_timeout (pc1, s1, ops)"

text \<open>Runs grow at their end.\<close>

inductive client_lock_run ::
  "send_job \<Rightarrow> client_lock_state \<Rightarrow> client_lock_label list \<Rightarrow> client_lock_state \<Rightarrow> bool" for job where
  k_nil: "client_lock_run job x [] x"
| k_snoc: "client_lock_run job x ls y \<Longrightarrow> client_lock_step job y l z \<Longrightarrow> client_lock_run job x (ls @ [l]) z"

definition with_no_callback :: "send_pc \<times> quic_client \<Rightarrow> client_lock_state" where
  "with_no_callback x = (fst x, snd x, [])"

section \<open>An uninterrupted callback is the atomic one\<close>

text \<open>An operation with those it adds.\<close>

definition whole_op :: "client_op \<Rightarrow> quic_client \<Rightarrow> quic_client" where
  "whole_op op s = (case run_client_op op s of (s1, new) \<Rightarrow> fold (\<lambda>o'. fst \<circ> run_client_op o') new s1)"

lemma whole_op_simps [simp]:
  "whole_op (Co_reply buf) s = receive_reply buf s"
  "whole_op Co_look s = (if qc_awaiting_decision s \<and> str_find [NL] (qc_decision_buf s) \<noteq> None
     then resolve_decision (starts_with (qc_decision_buf s) ''ACCEPT'') s else s)"
  "whole_op (Co_decide a) s = s\<lparr>qc_decision_accepted := a, qc_decision_ready := True\<rparr>"
  "whole_op (Co_file_done b) s = client_notify_file_waiter b s"
  "whole_op Co_send_done s = notify_send_waiter () s"
  "whole_op (Co_connect_done b) s = notify_connect_waiter b s"
  "whole_op Co_stream_gone s = s\<lparr>qc_stream := None\<rparr>"
  "whole_op Co_connection_gone s = s\<lparr>qc_connection := None\<rparr>"
  "whole_op Co_shutdown_done s = s\<lparr>qc_shutdown_complete := True\<rparr>"
  by (auto simp: whole_op_def run_client_op_def resolve_decision_def)

lemma whole_op_new: "run_client_op op s = (s1, new) \<Longrightarrow> fold whole_op new s1 = whole_op op s"
  by (cases op) (auto simp: run_client_op_def resolve_decision_def split: if_splits)

lemma whole_replies: "fold whole_op (map Co_reply bufs) s = fold receive_reply bufs s"
  by (induction bufs arbitrary: s) simp_all

lemma client_callback_split:
  assumes "client_callback_begin e s = (s1, ops)"
  shows "fold whole_op ops s1 = client_callback e s"
proof (cases e)
  case (Ev_stream h ev)
  with assms show ?thesis
    by (cases ev) (auto simp: client_callback_def client_callback_begin_def stream_event_begin_def
        client_on_stream_event_def whole_replies resolve_decision_def Let_def split: if_splits)
next
  case (Ev_connection c cev)
  with assms show ?thesis
    by (cases cev) (auto simp: client_callback_def client_callback_begin_def connection_event_begin_def
        client_on_connection_event_def Let_def split: if_splits)
qed

interpretation client_cut:
  cut_callbacks run_client_op whole_op client_callback_begin client_callback "\<lambda>op. if op = Co_look then 2 else 1"
proof unfold_locales
  fix op s s1 new
  assume p: "run_client_op op s = (s1, new)"
  then show "fold whole_op new s1 = whole_op op s" by (rule whole_op_new)
  show "sum_list (map (\<lambda>op. if op = Co_look then 2 else 1) new) < (if op = Co_look then 2 else (1 :: nat))"
    using p by (cases op) (auto simp: run_client_op_def split: if_splits)
qed (rule client_callback_split)

end
