(* ===== verification/Client_Lock_Refinement.thy ===== *)
theory Client_Lock_Refinement
  imports Client_Locks
begin

text \<open>
  The sender at the granularity of its mutexes refines the sender with atomic callbacks. While a
  callback is under way the run with atomic callbacks has not begun it; what is left of the
  callback leads to the same state as the whole callback does there, up to the order in the log,
  and the thread cannot tell the two states apart. The callback is caught up on at its last
  operation.
\<close>

section \<open>States that differ in their log\<close>

text \<open>The calls of msquic may have another order; the sends among them have the same.\<close>

definition same_log :: "quic_client \<Rightarrow> quic_client \<Rightarrow> bool" where
  "same_log s t \<longleftrightarrow> (\<exists>io. t = s\<lparr>qc_io := io\<rparr> \<and> sends_of (io_calls io) = client_sends s)"

text \<open>What the thread reads, and what it writes.\<close>

definition seen_alike :: "quic_client \<Rightarrow> quic_client \<Rightarrow> bool" where
  "seen_alike s t \<longleftrightarrow> qc_send_done s = qc_send_done t \<and> qc_decision_ready s = qc_decision_ready t
     \<and> qc_decision_accepted s = qc_decision_accepted t \<and> qc_file_done s = qc_file_done t
     \<and> qc_file_ok s = qc_file_ok t \<and> qc_stream s = qc_stream t \<and> qc_api s = qc_api t
     \<and> qc_rejected s = qc_rejected t \<and> qc_progress s = qc_progress t \<and> client_sends s = client_sends t"

definition thread_write ::
  "bool \<Rightarrow> bool \<Rightarrow> (u64 \<times> u64) list \<Rightarrow> quic_io \<Rightarrow> quic_client \<Rightarrow> quic_client" where
  "thread_write r d g io s = s\<lparr>qc_rejected := r, qc_send_done := d, qc_progress := g, qc_io := io\<rparr>"

definition writes_alike ::
  "quic_client \<Rightarrow> quic_client \<Rightarrow> send_pc \<times> quic_client \<Rightarrow> send_pc \<times> quic_client \<Rightarrow> bool" where
  "writes_alike s t x y \<longleftrightarrow> fst x = fst y \<and> (\<exists>r d g io io'. snd x = thread_write r d g io s
     \<and> snd y = thread_write r d g io' t \<and> sends_of (io_calls io) = sends_of (io_calls io'))"

lemma same_log_refl [simp]: "same_log s s"
  unfolding same_log_def by (rule exI [of _ "qc_io s"]) simp

lemma same_log_seen: "same_log s t \<Longrightarrow> seen_alike t s"
  by (auto simp: same_log_def seen_alike_def)

lemma thread_write_frame [simp]:
  "qc_decision_ready (thread_write r d g io s) = qc_decision_ready s"
  "qc_decision_accepted (thread_write r d g io s) = qc_decision_accepted s"
  "qc_file_done (thread_write r d g io s) = qc_file_done s" "qc_file_ok (thread_write r d g io s) = qc_file_ok s"
  "qc_stream (thread_write r d g io s) = qc_stream s" "qc_api (thread_write r d g io s) = qc_api s"
  "qc_rejected (thread_write r d g io s) = r" "qc_send_done (thread_write r d g io s) = d"
  "qc_progress (thread_write r d g io s) = g" "qc_io (thread_write r d g io s) = io"
  "qc_decision_buf (thread_write r d g io s) = qc_decision_buf s"
  "qc_file_ack (thread_write r d g io s) = qc_file_ack s"
  "qc_awaiting_decision (thread_write r d g io s) = qc_awaiting_decision s"
  "thread_write r d g io (thread_write r' d' g' io' s) = thread_write r d g io s"
  "thread_write r d g io (s\<lparr>qc_io := io'\<rparr>) = thread_write r d g io s"
  by (simp_all add: thread_write_def)

text \<open>A step of the thread writes the same into states it sees alike.\<close>

lemma writes_alike_same:
  "seen_alike s t \<Longrightarrow> writes_alike s t (pc, s) (pc, t)"
  unfolding writes_alike_def seen_alike_def thread_write_def
  by (intro conjI exI [of _ "qc_rejected s"] exI [of _ "qc_send_done s"] exI [of _ "qc_progress s"]
      exI [of _ "qc_io s"] exI [of _ "qc_io t"]) simp_all

lemma writes_alike_trans:
  assumes "writes_alike s t (pc, s1) (pc, t1)" and "writes_alike s1 t1 x y"
  shows "writes_alike s t x y"
proof -
  obtain r d g io io' where 1: "s1 = thread_write r d g io s" "t1 = thread_write r d g io' t"
    using assms(1) by (auto simp: writes_alike_def)
  obtain r2 d2 g2 jo jo' where 2: "fst x = fst y" "snd x = thread_write r2 d2 g2 jo s1"
      "snd y = thread_write r2 d2 g2 jo' t1" "sends_of (io_calls jo) = sends_of (io_calls jo')"
    using assms(2) by (auto simp: writes_alike_def)
  have "snd x = thread_write r2 d2 g2 jo s" "snd y = thread_write r2 d2 g2 jo' t" using 1 2 by simp_all
  with 2(1,4) show ?thesis unfolding writes_alike_def by blast
qed

lemma writes_seen:
  assumes "writes_alike s t (pc, s1) (pc', t1)" and "seen_alike s t"
  shows "seen_alike s1 t1"
proof -
  obtain r d g io io' where "s1 = thread_write r d g io s" "t1 = thread_write r d g io' t"
      "sends_of (io_calls io) = sends_of (io_calls io')"
    using assms(1) by (auto simp: writes_alike_def)
  then show ?thesis using assms(2) by (simp add: seen_alike_def)
qed

lemma writes_alike_pc: "writes_alike s t (pc, s1) (pc, t1) \<Longrightarrow> writes_alike s t (pc', s1) (pc', t1)"
  by (simp add: writes_alike_def)

lemma writes_update:
  assumes "seen_alike s t" and "sends_of (io_calls io) = sends_of (io_calls io')"
  shows "writes_alike s t (pc, s\<lparr>qc_rejected := r, qc_io := io\<rparr>) (pc, t\<lparr>qc_rejected := r, qc_io := io'\<rparr>)"
    and "writes_alike s t (pc, s\<lparr>qc_send_done := d, qc_io := io\<rparr>) (pc, t\<lparr>qc_send_done := d, qc_io := io'\<rparr>)"
    and "writes_alike s t (pc, s\<lparr>qc_progress := g, qc_io := io\<rparr>) (pc, t\<lparr>qc_progress := g, qc_io := io'\<rparr>)"
proof -
  note u = writes_alike_def fst_conv snd_conv thread_write_def
  show "writes_alike s t (pc, s\<lparr>qc_rejected := r, qc_io := io\<rparr>) (pc, t\<lparr>qc_rejected := r, qc_io := io'\<rparr>)"
    using assms unfolding u seen_alike_def
    by (intro conjI exI [of _ r] exI [of _ "qc_send_done s"] exI [of _ "qc_progress s"] exI [of _ io] exI [of _ io']) simp_all
  show "writes_alike s t (pc, s\<lparr>qc_send_done := d, qc_io := io\<rparr>) (pc, t\<lparr>qc_send_done := d, qc_io := io'\<rparr>)"
    using assms unfolding u seen_alike_def
    by (intro conjI exI [of _ "qc_rejected s"] exI [of _ d] exI [of _ "qc_progress s"] exI [of _ io] exI [of _ io']) simp_all
  show "writes_alike s t (pc, s\<lparr>qc_progress := g, qc_io := io\<rparr>) (pc, t\<lparr>qc_progress := g, qc_io := io'\<rparr>)"
    using assms unfolding u seen_alike_def
    by (intro conjI exI [of _ "qc_rejected s"] exI [of _ "qc_send_done s"] exI [of _ g] exI [of _ io] exI [of _ io']) simp_all
qed

lemma fail_alike:
  assumes "seen_alike s t"
  shows "writes_alike s t (send_fail s) (send_fail t)"
proof -
  have sends: "client_sends s = client_sends t" and eq: "qc_api s = qc_api t" "qc_stream s = qc_stream t"
      "qc_rejected s = qc_rejected t"
    using assms by (simp_all add: seen_alike_def)
  show ?thesis
  proof (cases "qc_api s \<and> qc_stream s \<noteq> None")
    case True
    then obtain h where h: "qc_stream s = Some h" by blast
    have a: "abort_stream s = s\<lparr>qc_rejected := qc_rejected s, qc_io := io_call (StreamShutdown h) (qc_io s)\<rparr>"
      "abort_stream t = t\<lparr>qc_rejected := qc_rejected s, qc_io := io_call (StreamShutdown h) (qc_io t)\<rparr>"
      using True h eq by (simp_all add: abort_stream_def client_call_def)
    show ?thesis unfolding send_fail_def a
      by (rule writes_update(1) [OF assms]) (simp add: io_call_def sends)
  next
    case False
    then have "abort_stream s = s" "abort_stream t = t" using eq by (auto simp: abort_stream_def)
    then show ?thesis by (simp add: send_fail_def writes_alike_same [OF assms])
  qed
qed

lemma begin_alike:
  assumes "seen_alike s t"
  shows "fst (stream_send_begin E d f t) = fst (stream_send_begin E d f s)"
    and "writes_alike s t (pc, snd (stream_send_begin E d f s)) (pc, snd (stream_send_begin E d f t))"
proof -
  have sends: "client_sends s = client_sends t" and stream: "qc_stream t = qc_stream s"
    using assms by (simp_all add: seen_alike_def)
  show ok: "fst (stream_send_begin E d f t) = fst (stream_send_begin E d f s)"
    by (simp add: stream_send_begin_def stream stream_send_copy_def Let_def split: option.split)
  obtain o1 s1 t1 where r: "stream_send_begin E d f s = (o1, s1)" "stream_send_begin E d f t = (o1, t1)"
    using ok by (cases "stream_send_begin E d f s"; cases "stream_send_begin E d f t") auto
  have "client_sends (snd (stream_send_begin E d f s)) = client_sends (snd (stream_send_begin E d f t))"
    using send_begin_cases(1) [OF r(1)] send_begin_cases(1) [OF r(2)] sends unfolding r snd_conv by simp
  then show "writes_alike s t (pc, snd (stream_send_begin E d f s)) (pc, snd (stream_send_begin E d f t))"
    by (simp add: stream_send_begin_def case_prod_beta writes_update(2) [OF assms])
qed

lemma begin_then_fail:
  assumes "seen_alike s t"
  shows "writes_alike s t
     (case stream_send_begin E d f s of (ok, s1) \<Rightarrow> if ok then (pc, s1) else send_fail s1)
     (case stream_send_begin E d f t of (ok, t1) \<Rightarrow> if ok then (pc, t1) else send_fail t1)"
proof -
  note b = begin_alike [OF assms, where E = E and d = d and f = f]
  from b(2) [where pc = pc] have "seen_alike (snd (stream_send_begin E d f s)) (snd (stream_send_begin E d f t))"
    by (rule writes_seen [OF _ assms])
  from writes_alike_trans [OF b(2) fail_alike [OF this]] b show ?thesis by (simp add: case_prod_beta)
qed

lemma chunk_alike:
  assumes "seen_alike s t"
  shows "writes_alike s t (send_chunk E n sent input s) (send_chunk E n sent input t)"
proof -
  note a = begin_then_fail [OF assms] fail_alike [OF assms] writes_alike_same [OF assms]
  show ?thesis unfolding send_chunk_def Let_def
    by (cases "sent < n"; cases "length (take (min (unat (n - sent)) k_file_chunk_size) input) = 0"; cases "sent = n")
      (simp_all only: a if_True if_False not_True_eq_False not_False_eq_True simp_thms less_irrefl refl)
qed

lemma body_alike:
  assumes "seen_alike s t"
  shows "writes_alike s t (send_body E job s) (send_body E job t)"
  unfolding send_body_def
  by (cases "sj_size job = 0"; cases "sj_file job")
    (simp_all only: begin_then_fail [OF assms] fail_alike [OF assms] chunk_alike [OF assms] if_True if_False option.case simp_thms)

lemma reported_alike:
  assumes "seen_alike s t"
  shows "writes_alike s t (pc, report_progress job n m s) (pc, report_progress job n m t)"
proof (cases "sj_progress job")
  case True
  have "qc_progress s = qc_progress t" "client_sends s = client_sends t" using assms by (simp_all add: seen_alike_def)
  then show ?thesis
    using writes_update(3) [OF assms, of "qc_io s" "qc_io t" pc "qc_progress t @ [(n, m)]"] True
    by (simp add: report_progress_def)
next
  case False
  then show ?thesis by (simp add: report_progress_def writes_alike_same [OF assms])
qed

lemma thread_step_alike:
  assumes "send_step job (pc, s) l x" and "l = S_wake \<or> l = S_timeout" and a: "seen_alike s t"
  obtains y where "send_step job (pc, t) l y" and "writes_alike s t x y"
proof -
  have eq: "qc_send_done t = qc_send_done s" "qc_decision_ready t = qc_decision_ready s" "qc_file_ok t = qc_file_ok s"
    "qc_decision_accepted t = qc_decision_accepted s" "qc_file_done t = qc_file_done s"
    using a by (simp_all add: seen_alike_def)
  note same = writes_alike_same [OF a] and rep = reported_alike [OF a]
  have io: "client_sends s = client_sends t" using a by (simp add: seen_alike_def)
  from assms(1) show thesis
  proof cases
    case header_sent
    then show ?thesis using same eq by (intro that [of "(Sd_decision, t)"]) (auto intro: send_step.intros)
  next
    case header_timeout
    then show ?thesis using fail_alike [OF a] eq by (intro that [of "send_fail t"]) (auto intro: send_step.intros)
  next
    case decision_timeout
    then show ?thesis using fail_alike [OF a] eq by (intro that [of "send_fail t"]) (auto intro: send_step.intros)
  next
    case decision_no
    have w: "writes_alike s t (pc, s\<lparr>qc_rejected := True\<rparr>) (pc, t\<lparr>qc_rejected := True\<rparr>)"
      using writes_update(1) [OF a io, of pc True] by simp
    from writes_alike_trans [OF w fail_alike [OF writes_seen [OF w a]]] decision_no eq show ?thesis
      by (intro that [of "send_fail (t\<lparr>qc_rejected := True\<rparr>)"]) (auto intro: send_step.intros)
  next
    case (decision_yes E)
    then show ?thesis using body_alike [OF a] eq by (intro that [of "send_body E job t"]) (auto intro: send_step.intros)
  next
    case (chunk_sent sent input E)
    note w = rep [where pc = pc and n = sent and m = "fth_size (sj_header job)" and job = job]
    from writes_alike_trans [OF w chunk_alike [OF writes_seen [OF w a]]] chunk_sent eq show ?thesis
      by (intro that [of "send_chunk E (sj_size job) sent input (report_progress job sent (fth_size (sj_header job)) t)"])
        (auto intro: send_step.intros)
  next
    case (chunk_timeout sent input)
    then show ?thesis using fail_alike [OF a] eq by (intro that [of "send_fail t"]) (auto intro: send_step.intros)
  next
    case empty_sent
    then show ?thesis using rep eq by (intro that [of "(Sd_ack_wait, report_progress job 0 0 t)"]) (auto intro: send_step.intros)
  next
    case empty_timeout
    then show ?thesis using fail_alike [OF a] eq by (intro that [of "send_fail t"]) (auto intro: send_step.intros)
  next
    case ack_arrived
    then show ?thesis using same eq send_step.ack_arrived [of t job] by (intro that [of "(Sd_returned (qc_file_ok s), t)"]) auto
  next
    case ack_timeout
    then show ?thesis using same eq by (intro that [of "(Sd_returned False, t)"]) (auto intro: send_step.intros)
  qed (use assms(2) in auto)
qed

section \<open>The thread and what is left of a callback\<close>

definition completes_send :: "client_event \<Rightarrow> bool" where
  "completes_send e \<longleftrightarrow> (\<exists>h ctx. e = Ev_stream h (SendComplete ctx))"

text \<open>What a callback does to the log.\<close>

definition event_io :: "client_event \<Rightarrow> quic_io \<Rightarrow> quic_io" where
  "event_io e io =
     (case e of
        Ev_stream h (SendComplete ctx) \<Rightarrow> free_block ctx io
      | Ev_stream h (StreamShutdownComplete False) \<Rightarrow> io_call (StreamClose h) io
      | Ev_connection c (C_shutdown_complete False) \<Rightarrow> io_call (ConnectionClose c) io
      | _ \<Rightarrow> io)"

lemma event_io_sends [simp]: "sends_of (io_calls (event_io e io)) = sends_of (io_calls io)"
  by (auto simp: event_io_def free_block_def io_call_def split: client_event.split stream_event.split
      client_connection_event.split bool.split)

lemma reply_write:
  "receive_reply buf (thread_write r d g io s) = thread_write r d g io (receive_reply buf s)"
  by (simp add: receive_reply_def thread_write_def)

lemma replies_write:
  "fold receive_reply bufs (thread_write r d g io s) = thread_write r d g io (fold receive_reply bufs s)"
  by (induction bufs arbitrary: s) (simp_all add: reply_write)

lemma resolve_write:
  "resolve_decision a (thread_write r d g io s) = thread_write r d g io (resolve_decision a s)"
  by (simp add: resolve_decision_def thread_write_def)

lemma stream_event_write:
  "client_on_stream_event h ev (thread_write r d g io s)
     = thread_write r (d \<or> completes_send (Ev_stream h ev)) g (event_io (Ev_stream h ev) io) (client_on_stream_event h ev s)"
proof (cases "\<exists>bufs. ev = Receive bufs")
  case True
  then show ?thesis
    by (auto simp: client_on_stream_event_def replies_write resolve_write completes_send_def event_io_def Let_def)
next
  case False
  then show ?thesis
    by (cases ev) (auto simp: client_on_stream_event_def completes_send_def event_io_def resolve_decision_def
        notify_send_waiter_def client_notify_file_waiter_def client_call_def Let_def thread_write_def)
qed

lemma connection_event_write:
  "client_on_connection_event c cev (thread_write r d g io s)
     = thread_write r d g (event_io (Ev_connection c cev) io) (client_on_connection_event c cev s)"
  by (cases cev) (auto simp: client_on_connection_event_def event_io_def notify_connect_waiter_def
      client_call_def Let_def thread_write_def)

lemma callback_write:
  "client_callback e (thread_write r d g io s)
     = thread_write r (d \<or> completes_send e) g (event_io e io) (client_callback e s)"
  by (cases e) (simp_all add: client_callback_def stream_event_write connection_event_write completes_send_def)

lemma op_write:
  "whole_op op (thread_write r d g io s) = thread_write r (d \<or> Co_send_done = op) g io (whole_op op s)"
  by (cases op) (auto simp: receive_reply_def resolve_decision_def notify_send_waiter_def
      client_notify_file_waiter_def notify_connect_waiter_def thread_write_def)

lemma ops_write:
  "fold whole_op ops (thread_write r d g io s)
     = thread_write r (d \<or> Co_send_done \<in> set ops) g io (fold whole_op ops s)"
  by (induction ops arbitrary: d s) (simp_all add: op_write disj_assoc)

section \<open>Pending callbacks\<close>

text \<open>Operations that change nothing the thread sees, and the state of a callback in the run with
  atomic callbacks, \<open>t\<close>, and here, \<open>s\<close>.\<close>

definition quiet_op :: "client_op \<Rightarrow> bool" where
  "quiet_op op \<longleftrightarrow> (\<exists>b. op = Co_reply b) \<or> op = Co_connection_gone"

definition replies_grew :: "quic_client \<Rightarrow> quic_client \<Rightarrow> bool" where
  "replies_grew t s \<longleftrightarrow> prefix (qc_decision_buf t) (qc_decision_buf s) \<and> prefix (qc_file_ack t) (qc_file_ack s)"

definition pending :: "client_event \<Rightarrow> quic_client \<Rightarrow> quic_client \<Rightarrow> client_op list \<Rightarrow> bool" where
  "pending e t s ops \<longleftrightarrow> ops \<noteq> [] \<and> (\<forall>op \<in> set (butlast ops). quiet_op op) \<and> seen_alike s t
     \<and> same_log (client_callback e t) (fold whole_op ops s)
     \<and> (Co_send_done \<in> set ops \<longleftrightarrow> completes_send e) \<and> replies_grew t s"

definition catches_up :: "quic_client \<Rightarrow> quic_client \<Rightarrow> client_op list \<Rightarrow> bool" where
  "catches_up t s ops \<longleftrightarrow> (if ops = [] then same_log t s else \<exists>e. pending e t s ops)"

lemma catches_up_seen: "catches_up t s ops \<Longrightarrow> seen_alike s t \<and> replies_grew t s"
  by (auto simp: catches_up_def pending_def same_log_seen same_log_def replies_grew_def split: if_splits)

lemma write_same_log:
  assumes "same_log t s" and "sends_of (io_calls io) = sends_of (io_calls io')"
  shows "same_log (thread_write r d g io t) (thread_write r d g io' s)"
proof -
  obtain jo where "s = t\<lparr>qc_io := jo\<rparr>" using assms(1) by (auto simp: same_log_def)
  then have "thread_write r d g io' s = (thread_write r d g io t)\<lparr>qc_io := io'\<rparr>" by (simp add: thread_write_def)
  with assms(2) show ?thesis by (auto simp: same_log_def)
qed

lemma catches_up_write:
  assumes "catches_up t s ops" and w: "writes_alike s t (pc, s1) (pc, t1)"
  shows "catches_up t1 s1 ops"
proof -
  obtain r d g io io' where 1: "s1 = thread_write r d g io s" "t1 = thread_write r d g io' t"
      "sends_of (io_calls io) = sends_of (io_calls io')"
    using w by (auto simp: writes_alike_def)
  show ?thesis
  proof (cases "ops = []")
    case True
    then show ?thesis using assms(1) 1 by (simp add: catches_up_def write_same_log)
  next
    case False
    then obtain e where e: "pending e t s ops" using assms(1) by (auto simp: catches_up_def)
    have "same_log (client_callback e t1) (fold whole_op ops s1)"
      unfolding 1(1,2) callback_write ops_write using e by (simp add: pending_def write_same_log 1(3))
    moreover have "seen_alike s1 t1" using writes_seen [OF w] e by (simp add: pending_def)
    moreover have "replies_grew t1 s1" using e by (simp add: pending_def replies_grew_def 1)
    ultimately have "pending e t1 s1 ops" using e by (simp add: pending_def)
    with False show ?thesis by (auto simp: catches_up_def)
  qed
qed

section \<open>The steps of a callback\<close>

lemma seen_alike_trans: "seen_alike r s \<Longrightarrow> seen_alike s t \<Longrightarrow> seen_alike r t"
  by (simp add: seen_alike_def)

lemma replies_grew_trans: "replies_grew r s \<Longrightarrow> replies_grew s t \<Longrightarrow> replies_grew r t"
  by (auto simp: replies_grew_def)

lemma callback_same_log:
  assumes "same_log t s"
  shows "same_log (client_callback e t) (client_callback e s)"
proof -
  obtain io where io: "s = t\<lparr>qc_io := io\<rparr>" "sends_of (io_calls io) = client_sends t"
    using assms by (auto simp: same_log_def)
  let ?w = "thread_write (qc_rejected t) (qc_send_done t) (qc_progress t)"
  let ?v = "thread_write (qc_rejected t) (qc_send_done t \<or> completes_send e) (qc_progress t)"
  have "?w (qc_io t) t = t" "?w io t = s" by (simp_all add: thread_write_def io(1))
  then have "client_callback e t = ?v (event_io e (qc_io t)) (client_callback e t)"
    "client_callback e s = ?v (event_io e io) (client_callback e t)"
    using callback_write [of e _ _ _ "qc_io t" t] callback_write [of e _ _ _ io t] by metis+
  moreover have "same_log (?v (event_io e (qc_io t)) (client_callback e t)) (?v (event_io e io) (client_callback e t))"
    by (rule write_same_log) (simp_all add: io(2))
  ultimately show ?thesis by metis
qed

lemma begin_facts:
  assumes "client_callback_begin e s = (s1, ops)"
  shows "seen_alike s1 s" and "replies_grew s s1" and "\<forall>op \<in> set (butlast ops). quiet_op op"
    and "Co_send_done \<in> set ops \<longleftrightarrow> completes_send e"
proof -
  have "seen_alike s1 s \<and> replies_grew s s1 \<and> (\<forall>op \<in> set (butlast ops). quiet_op op)
    \<and> (Co_send_done \<in> set ops \<longleftrightarrow> completes_send e)"
  proof (cases e)
    case (Ev_stream h ev)
    with assms show ?thesis
      by (cases ev) (auto simp: client_callback_begin_def stream_event_begin_def seen_alike_def replies_grew_def
          quiet_op_def completes_send_def client_call_def io_call_def free_block_def butlast_append split: if_splits)
  next
    case (Ev_connection c cev)
    with assms show ?thesis
      by (cases cev) (auto simp: client_callback_begin_def connection_event_begin_def seen_alike_def replies_grew_def
          quiet_op_def completes_send_def client_call_def io_call_def Let_def split: if_splits)
  qed
  then show "seen_alike s1 s" "replies_grew s s1" "\<forall>op \<in> set (butlast ops). quiet_op op"
    "Co_send_done \<in> set ops \<longleftrightarrow> completes_send e" by simp_all
qed

lemma enter_catches_up:
  assumes "same_log t s" and b: "client_callback_begin e s = (s1, ops)"
  shows "catches_up (if ops = [] then client_callback e t else t) s1 ops"
proof -
  have cb: "same_log (client_callback e t) (fold whole_op ops s1)"
    using callback_same_log [OF assms(1)] client_callback_split [OF b] by simp
  have "catches_up t s []" using assms(1) by (simp add: catches_up_def)
  from catches_up_seen [OF this] have st: "seen_alike s t" "replies_grew t s" by simp_all
  have "seen_alike s1 t" "replies_grew t s1"
    using seen_alike_trans [OF begin_facts(1) [OF b] st(1)] replies_grew_trans [OF st(2) begin_facts(2) [OF b]] .
  then have "ops \<noteq> [] \<Longrightarrow> pending e t s1 ops"
    using cb begin_facts(3,4) [OF b] by (simp add: pending_def)
  with cb show ?thesis by (auto simp: catches_up_def)
qed

lemma quiet_frame:
  assumes "run_client_op op s = (s1, new)" and "quiet_op op \<or> op = Co_look"
  shows "seen_alike s1 s" and "replies_grew s s1"
  using assms by (auto simp: run_client_op_def quiet_op_def seen_alike_def replies_grew_def receive_reply_def
      split: if_splits)

lemma op_catches_up:
  assumes p: "pending e t s (op # ops)" and r: "run_client_op op s = (s1, new)"
  shows "catches_up (if new @ ops = [] then client_callback e t else t) s1 (new @ ops)"
proof -
  have "fold whole_op (new @ ops) s1 = fold whole_op (op # ops) s" by (rule client_cut.piece_fold [OF r])
  then have cb: "same_log (client_callback e t) (fold whole_op (new @ ops) s1)" using p by (simp add: pending_def)
  have "pending e t s1 (new @ ops)" if ne: "new @ ops \<noteq> []"
  proof -
    have q: "quiet_op op \<and> new = [] \<or> op = Co_look \<and> (\<exists>a. new = [Co_decide a]) \<and> ops = []"
    proof (cases "ops = []")
      case True
      then show ?thesis using ne r by (cases op) (auto simp: run_client_op_def split: if_splits)
    next
      case False
      then have "quiet_op op" using p by (simp add: pending_def)
      then show ?thesis using r by (auto simp: quiet_op_def run_client_op_def)
    qed
    then have fr: "seen_alike s1 s" "replies_grew s s1" using quiet_frame [OF r] by blast+
    have "seen_alike s1 t" using seen_alike_trans [OF fr(1)] p by (simp add: pending_def)
    moreover have "replies_grew t s1" using replies_grew_trans [OF _ fr(2)] p by (simp add: pending_def)
    moreover have "\<forall>op' \<in> set (butlast (new @ ops)). quiet_op op'" using p q ne by (auto simp: pending_def split: if_splits)
    moreover have "Co_send_done \<in> set (new @ ops) \<longleftrightarrow> completes_send e"
      using p q by (auto simp: pending_def quiet_op_def)
    ultimately show ?thesis using cb ne by (simp add: pending_def)
  qed
  with cb show ?thesis by (auto simp: catches_up_def)
qed

section \<open>Runs\<close>

lemma callback_step: "\<exists>l. send_step job (pc, t) l (pc, client_callback e t)"
  by (cases e) (auto simp: client_callback_def intro: client_stream_callback client_connection_callback)

lemma send_run_snoc: "send_run job x ls y \<Longrightarrow> send_step job y l z \<Longrightarrow> send_run job x (ls @ [l]) z"
  by (erule send_run_append) (auto intro: send_run.intros)

text \<open>What a run with atomic callbacks knows of a state here.\<close>

definition matched :: "send_job \<Rightarrow> send_pc \<times> quic_client \<Rightarrow> client_lock_state \<Rightarrow> bool" where
  "matched job start x \<longleftrightarrow> (\<exists>ls t. send_run job start ls (fst x, t) \<and> catches_up t (fst (snd x)) (snd (snd x)))"

lemma matched_step:
  assumes "client_lock_step job x l y" and "matched job start x"
  shows "matched job start y"
proof -
  have caught: "matched job start (pc, s1, ops1)"
    if "send_run job start ls (pc, t)" and "catches_up (if ops1 = [] then client_callback e t else t) s1 ops1"
    for ls pc t ops1 s1 e
  proof (cases "ops1 = []")
    case True
    obtain l where "send_step job (pc, t) l (pc, client_callback e t)" using callback_step by blast
    from send_run_snoc [OF that(1) this] that(2) True show ?thesis by (auto simp: matched_def)
  next
    case False
    with that show ?thesis by (auto simp: matched_def)
  qed
  have moved: "matched job start (pc1, s1, ops)"
    if "send_step job (pc, s) l (pc1, s1)" "l = S_wake \<or> l = S_timeout" "send_run job start ls (pc, t)"
      "catches_up t s ops" for pc s l pc1 s1 ops ls t
  proof -
    have "seen_alike s t" using catches_up_seen [OF that(4)] ..
    from thread_step_alike [OF that(1,2) this] obtain y where
      y: "send_step job (pc, t) l y" "writes_alike s t (pc1, s1) y" .
    then have "catches_up (snd y) s1 ops" "fst y = pc1"
      using catches_up_write [OF that(4), of pc1 s1 "snd y"] by (cases y; simp add: writes_alike_def)+
    with send_run_snoc [OF that(3) y(1)] show ?thesis by (cases y) (auto simp: matched_def)
  qed
  from assms(2) obtain ls t where t: "send_run job start ls (fst x, t)" "catches_up t (fst (snd x)) (snd (snd x))"
    by (auto simp: matched_def)
  from assms(1) show ?thesis
  proof cases
    case (k_enter e s s1 ops pc)
    then show ?thesis using t caught [OF _ enter_catches_up, of ls pc t s e s1 ops] by (simp add: catches_up_def)
  next
    case (k_op op s s1 new pc ops)
    then obtain e where "pending e t s (op # ops)" using t by (auto simp: catches_up_def)
    from op_catches_up [OF this] k_op have "catches_up (if new @ ops = [] then client_callback e t else t) s1 (new @ ops)"
      by blast
    from caught [OF _ this] t(1) k_op(1-3) show ?thesis by simp
  next
    case (k_wake pc s pc1 s1 ops)
    then show ?thesis using t moved [of pc s S_wake pc1 s1 ls t ops] by simp
  next
    case (k_timeout pc s pc1 s1 ops)
    then show ?thesis using t moved [of pc s S_timeout pc1 s1 ls t ops] by simp
  qed
qed

lemma matched_run: "client_lock_run job x ls y \<Longrightarrow> matched job start x \<Longrightarrow> matched job start y"
  by (induction rule: client_lock_run.induct) (auto intro: matched_step)

lemma matched_start: "matched job x (with_no_callback x)"
  unfolding matched_def with_no_callback_def
  by (intro exI [of _ "[]"] exI [of _ "snd x"]) (simp add: catches_up_def send_nil)

end
