(* ===== verification/Client_Lock_Properties.thy ===== *)
theory Client_Lock_Properties
  imports Client_Lock_Refinement
begin

text \<open>
  What the granularity of the sender's mutexes does not change: the refinement of the sender with
  atomic callbacks, and what a returned success means.
\<close>

section \<open>Runs with atomic callbacks are among the runs\<close>

lemma client_lock_append:
  "client_lock_run job y ms z \<Longrightarrow> client_lock_run job x ls y \<Longrightarrow> client_lock_run job x (ls @ ms) z"
proof (induction rule: client_lock_run.induct)
  case (k_snoc y ms z l u)
  then have "client_lock_run job x ((ls @ ms) @ [l]) u" by (intro client_lock_run.k_snoc)
  then show ?case by simp
qed simp

lemma client_lock_one: "client_lock_step job x l y \<Longrightarrow> client_lock_run job x [l] y"
  using k_snoc [OF k_nil, of job x l y] by simp

lemma client_callback_run: "\<exists>ks. client_lock_run job (pc, s, []) ks (pc, client_callback e s, [])"
proof -
  let ?R = "\<lambda>s ops t. \<exists>ks. client_lock_run job (pc, s, ops) ks (pc, t, [])"
  obtain s1 ops where b: "client_callback_begin e s = (s1, ops)" by (cases "client_callback_begin e s")
  have "?R s1 ops (client_callback e s)"
  proof (rule client_cut.callback_works_off [of ?R])
    show "?R u [] u" for u using k_nil by blast
    show "?R u (op # ops) t" if "run_client_op op u = (u1, new)" "?R u1 (new @ ops) t" for op ops u u1 new t
      using that(2) client_lock_append client_lock_one [OF k_op [OF that(1)]] by blast
    show "client_callback_begin e s = (s1, ops)" by (rule b)
  qed
  with client_lock_append client_lock_one [OF k_enter [OF b]] show ?thesis by blast
qed

lemma send_step_included:
  assumes "send_step job x l y"
  shows "\<exists>ks. client_lock_run job (with_no_callback x) ks (with_no_callback y)"
proof -
  obtain pc s pc1 s1 where xy: "x = (pc, s)" "y = (pc1, s1)" by (cases x; cases y)
  show ?thesis
  proof (cases l)
    case (S_stream h ev)
    then have "pc1 = pc" "s1 = client_callback (Ev_stream h ev) s"
      using assms xy by (auto elim: send_step.cases simp: client_callback_def)
    then show ?thesis using client_callback_run [of job pc s "Ev_stream h ev"] by (simp add: with_no_callback_def xy)
  next
    case (S_connection c cev)
    then have "pc1 = pc" "s1 = client_callback (Ev_connection c cev) s"
      using assms xy by (auto elim: send_step.cases simp: client_callback_def)
    then show ?thesis using client_callback_run [of job pc s "Ev_connection c cev"] by (simp add: with_no_callback_def xy)
  next
    case S_wake
    then show ?thesis using client_lock_one [OF k_wake [of job pc s pc1 s1 "[]"]] assms xy
      by (auto simp: with_no_callback_def)
  next
    case S_timeout
    then show ?thesis using client_lock_one [OF k_timeout [of job pc s pc1 s1 "[]"]] assms xy
      by (auto simp: with_no_callback_def)
  qed
qed

lemma send_run_included:
  "send_run job x ls y \<Longrightarrow> \<exists>ks. client_lock_run job (with_no_callback x) ks (with_no_callback y)"
proof (induction rule: send_run.induct)
  case (send_nil x)
  then show ?case using k_nil by blast
next
  case (send_cons x l y ls z)
  then show ?case using send_step_included client_lock_append by blast
qed

section \<open>Properties\<close>

text \<open>
  C17: The sender with its callbacks cut at every access to shared state refines the sender with
  atomic callbacks. Callbacks are cut at their mutexes, between the buffers of a RECEIVE event, and
  where they write \<open>stream_\<close> and \<open>connection_\<close>, and interleaved there with the thread. Whatever the
  thread does in such a run, and so what \<open>send_file_internal\<close> returns, what was sent, the progress
  reported and whether the transfer counts as rejected, is what it does in a run with atomic
  callbacks.
\<close>

theorem sender_granularity_refines:
  assumes "client_lock_run job (with_no_callback (send_file_internal E h s0)) ks (pc, s, ops)"
  shows "\<exists>ls t. send_run job (send_file_internal E h s0) ls (pc, t)
    \<and> client_sends t = client_sends s \<and> qc_progress t = qc_progress s \<and> qc_rejected t = qc_rejected s
    \<and> prefix (qc_decision_buf t) (qc_decision_buf s) \<and> prefix (qc_file_ack t) (qc_file_ack s)"
proof -
  obtain ls t where t: "send_run job (send_file_internal E h s0) ls (pc, t)" "catches_up t s ops"
    using matched_run [OF assms matched_start] by (auto simp: matched_def)
  from catches_up_seen [OF t(2)] have "seen_alike s t" "replies_grew t s" by simp_all
  with t(1) show ?thesis by (auto simp: seen_alike_def replies_grew_def)
qed

lemma demo_lock_run:
  obtains ks s where "client_lock_run demo_job (with_no_callback
      (send_file_internal (good_client 2) (sj_header demo_job) demo_client)) ks (Sd_returned True, s, [])"
proof -
  obtain ls t where "send_run demo_job (send_file_internal (good_client 2) (sj_header demo_job) demo_client) ls
      (Sd_returned True, t)" using demo_run by blast
  from send_run_included [OF this] that show thesis by (auto simp: with_no_callback_def)
qed

theorem sender_granularity_refines_witness:
  "\<exists>ks s ls t. client_lock_run demo_job (with_no_callback
       (send_file_internal (good_client 2) (sj_header demo_job) demo_client)) ks (Sd_returned True, s, [])
     \<and> send_run demo_job (send_file_internal (good_client 2) (sj_header demo_job) demo_client) ls (Sd_returned True, t)
     \<and> client_sends t = client_sends s"
proof -
  obtain ks s where r: "client_lock_run demo_job (with_no_callback
      (send_file_internal (good_client 2) (sj_header demo_job) demo_client)) ks (Sd_returned True, s, [])"
    by (rule demo_lock_run)
  from sender_granularity_refines [OF r] r show ?thesis by blast
qed

text \<open>
  C10: What a result of true means, also at the granularity of the mutexes. When \<open>send_file\<close> returns
  true for a file, at whatever point its callbacks are, then the receiver's decision began with
  \<open>ACCEPT\<close>, its final reply with \<open>OK\<close>, and what went out is the header of that file and then its
  whole contents, with the end of the stream marked once, on the last send.
\<close>

theorem send_true_means_delivered:
  assumes "client_lock_run (file_job evp fs path content g) (with_no_callback (send_file evp E info fs path s0)) ks
      (Sd_returned True, s, ops)"
    and "pi_size info = Some (of_nat (length content))" and "length content < 2 ^ 64" and "replies_inv s0"
  shows "starts_with (qc_decision_buf s) ''ACCEPT'' \<and> starts_with (qc_file_ack s) ''OK''
    \<and> (\<exists>cs. client_sends s = client_sends s0
          @ (u32_part (encode_file_header (sj_header (file_job evp fs path content g))), False) # cs
        \<and> concat (map fst cs) = content \<and> snd (last cs) \<and> (\<forall>c \<in> set (butlast cs). \<not> snd c))"
proof -
  obtain ls t where t: "send_run (file_job evp fs path content g) (send_file evp E info fs path s0) ls (Sd_returned True, t)"
      "catches_up t s ops"
    using matched_run [OF assms(1) matched_start] by (auto simp: matched_def)
  from catches_up_seen [OF t(2)] have "client_sends s = client_sends t"
      "prefix (qc_decision_buf t) (qc_decision_buf s)" "prefix (qc_file_ack t) (qc_file_ack s)"
    by (simp_all add: seen_alike_def replies_grew_def)
  with send_file_true [OF t(1) assms(2-4) refl] show ?thesis by (auto simp: prefix_def starts_with_append)
qed

theorem send_true_means_delivered_witness:
  "\<exists>ks s. client_lock_run (file_job toy_evp [''d/a.txt'' \<mapsto> ''abc''] ''d/a.txt'' ''abc'' False)
       (with_no_callback (send_file toy_evp (good_client 2)
          \<lparr>pi_exists = True, pi_directory = False, pi_regular = True, pi_size = Some 3\<rparr>
          [''d/a.txt'' \<mapsto> ''abc''] ''d/a.txt'' demo_client)) ks (Sd_returned True, s, [])
     \<and> starts_with (qc_file_ack s) ''OK''"
proof -
  let ?job = "file_job toy_evp [''d/a.txt'' \<mapsto> ''abc''] ''d/a.txt'' ''abc'' False"
  let ?call = "send_file toy_evp (good_client 2)
      \<lparr>pi_exists = True, pi_directory = False, pi_regular = True, pi_size = Some 3\<rparr>
      [''d/a.txt'' \<mapsto> ''abc''] ''d/a.txt'' demo_client"
  obtain ls t where "send_run ?job ?call ls (Sd_returned True, t)" by (rule demo_file_run)
  from send_run_included [OF this] obtain ks where
    r: "client_lock_run ?job (with_no_callback ?call) ks (Sd_returned True, t, [])" by (auto simp: with_no_callback_def)
  from send_true_means_delivered [OF r _ _ demo_ready(2)] r show ?thesis by auto
qed

end
