(* ===== verification/Client_Thread_Cuts.thy ===== *)
theory Client_Thread_Cuts
  imports Client_Locks
begin

text \<open>
  The thread of \<open>send_file_internal\<close> cut where it reads \<open>stream_\<close>. In \<open>Client_Session\<close> what the thread
  does between two waits is one step; in the code it reads \<open>stream_\<close>, which no mutex guards, and then
  calls msquic with the handle it read: once as the argument of \<open>stream_send_and_wait\<close>, twice in
  \<open>abort_stream\<close>, and callbacks may run in between. Here these reads are steps of their own; a
  callback is one step. A thread that is not interrupted does what it does in \<open>Client_Session\<close>.
\<close>

section \<open>Where the thread is\<close>

datatype cut_pc =
    Th_at send_pc \<comment> \<open>at a wait, or returned\<close>
  | Th_send client_env bytes bool send_pc \<comment> \<open>about to read \<open>stream_\<close> and send; then at this wait\<close>
  | Th_sending client_env bytes bool send_pc "handle option" \<comment> \<open>sends on what it read\<close>
  | Th_abort \<comment> \<open>about to test \<open>stream_\<close> in \<open>abort_stream\<close>\<close>
  | Th_aborting \<comment> \<open>it was not null\<close>
  | Th_shutting "handle option" \<comment> \<open>shuts down what it read\<close>

text \<open>\<open>stream_send_and_wait\<close> up to its wait, on the handle it was passed.\<close>

definition stream_send_to ::
  "client_env \<Rightarrow> handle option \<Rightarrow> bytes \<Rightarrow> bool \<Rightarrow> quic_client \<Rightarrow> bool \<times> quic_client" where
  "stream_send_to E stream data fin s =
     (case stream_send_copy (ce_send E) stream data fin (qc_io s) of
        (ok, io) \<Rightarrow> (ok, s\<lparr>qc_send_done := False, qc_io := io\<rparr>))"

definition send_start_cut :: "client_env \<Rightarrow> file_transfer_header \<Rightarrow> quic_client \<Rightarrow> cut_pc \<times> quic_client" where
  "send_start_cut E header s =
     (if \<not> qc_connected s \<or> qc_connection s = None \<or> \<not> qc_api s then (Th_at (Sd_returned False), s)
      else
        let header_text = encode_file_header header;
            s1 = s\<lparr>qc_file_ack := [], qc_rejected := False, qc_decision_buf := [],
                   qc_decision_ready := False, qc_decision_accepted := False,
                   qc_file_done := False, qc_file_ok := False\<rparr>
        in case open_stream E s1 of
             (opened, s2) \<Rightarrow>
               if \<not> opened then (Th_at (Sd_returned False), s2)
               else (Th_send E header_text False Sd_header_wait, s2\<lparr>qc_awaiting_decision := True\<rparr>))"

definition send_chunk_cut :: "client_env \<Rightarrow> u64 \<Rightarrow> u64 \<Rightarrow> bytes \<Rightarrow> cut_pc" where
  "send_chunk_cut E file_size sent input =
     (if sent < file_size then
        let remaining = file_size - sent;
            want = min (unat remaining) k_file_chunk_size;
            chunk = take want input;
            n = length chunk
        in if n = 0 then (if sent \<noteq> file_size then Th_abort else Th_at Sd_ack_wait)
           else
             let sent' = sent + of_nat n;
                 fin = (sent' \<ge> file_size)
             in Th_send E chunk fin (Sd_chunk_wait sent' (drop n input))
      else if sent \<noteq> file_size then Th_abort else Th_at Sd_ack_wait)"

definition send_body_cut :: "client_env \<Rightarrow> send_job \<Rightarrow> cut_pc" where
  "send_body_cut E job =
     (if sj_size job = 0 then Th_send E [] True Sd_empty_wait
      else (case sj_file job of
              None \<Rightarrow> Th_abort
            | Some input \<Rightarrow> send_chunk_cut E (sj_size job) 0 input))"

section \<open>Steps\<close>

datatype cut_label =
    Tc_event client_event
  | Tc_wake
  | Tc_timeout
  | Tc_go

inductive cut_step ::
  "send_job \<Rightarrow> cut_pc \<times> quic_client \<Rightarrow> cut_label \<Rightarrow> cut_pc \<times> quic_client \<Rightarrow> bool" for job where
  tc_event: "cut_step job (t, s) (Tc_event e) (t, client_callback e s)"
| tc_header_sent: "qc_send_done s \<Longrightarrow> cut_step job (Th_at Sd_header_wait, s) Tc_wake (Th_at Sd_decision, s)"
| tc_header_timeout: "\<not> qc_send_done s \<Longrightarrow> cut_step job (Th_at Sd_header_wait, s) Tc_timeout (Th_abort, s)"
| tc_decision_timeout: "\<not> qc_decision_ready s \<Longrightarrow> cut_step job (Th_at Sd_decision, s) Tc_timeout (Th_abort, s)"
| tc_decision_no:
    "qc_decision_ready s \<Longrightarrow> \<not> qc_decision_accepted s \<Longrightarrow>
     cut_step job (Th_at Sd_decision, s) Tc_wake (Th_abort, s\<lparr>qc_rejected := True\<rparr>)"
| tc_decision_yes:
    "qc_decision_ready s \<Longrightarrow> qc_decision_accepted s \<Longrightarrow>
     cut_step job (Th_at Sd_decision, s) Tc_wake (send_body_cut E job, s)"
| tc_chunk_sent:
    "qc_send_done s \<Longrightarrow>
     cut_step job (Th_at (Sd_chunk_wait sent input), s) Tc_wake
       (send_chunk_cut E (sj_size job) sent input, report_progress job sent (fth_size (sj_header job)) s)"
| tc_chunk_timeout:
    "\<not> qc_send_done s \<Longrightarrow> cut_step job (Th_at (Sd_chunk_wait sent input), s) Tc_timeout (Th_abort, s)"
| tc_empty_sent:
    "qc_send_done s \<Longrightarrow>
     cut_step job (Th_at Sd_empty_wait, s) Tc_wake (Th_at Sd_ack_wait, report_progress job 0 0 s)"
| tc_empty_timeout: "\<not> qc_send_done s \<Longrightarrow> cut_step job (Th_at Sd_empty_wait, s) Tc_timeout (Th_abort, s)"
| tc_ack_arrived:
    "qc_file_done s \<Longrightarrow> cut_step job (Th_at Sd_ack_wait, s) Tc_wake (Th_at (Sd_returned (qc_file_ok s)), s)"
| tc_ack_timeout:
    "\<not> qc_file_done s \<Longrightarrow> cut_step job (Th_at Sd_ack_wait, s) Tc_timeout (Th_at (Sd_returned False), s)"
| tc_read_stream:
    "cut_step job (Th_send E data fin pc, s) Tc_go (Th_sending E data fin pc (qc_stream s), s)"
| tc_sent:
    "stream_send_to E h data fin s = (True, s1) \<Longrightarrow>
     cut_step job (Th_sending E data fin pc h, s) Tc_go (Th_at pc, s1)"
| tc_not_sent:
    "stream_send_to E h data fin s = (False, s1) \<Longrightarrow>
     cut_step job (Th_sending E data fin pc h, s) Tc_go (Th_abort, s1)"
| tc_nothing_to_abort:
    "\<not> qc_api s \<or> qc_stream s = None \<Longrightarrow> cut_step job (Th_abort, s) Tc_go (Th_at (Sd_returned False), s)"
| tc_abort_test:
    "qc_api s \<Longrightarrow> qc_stream s \<noteq> None \<Longrightarrow> cut_step job (Th_abort, s) Tc_go (Th_aborting, s)"
| tc_abort_read: "cut_step job (Th_aborting, s) Tc_go (Th_shutting (qc_stream s), s)"
| tc_shut_down:
    "cut_step job (Th_shutting (Some h), s) Tc_go (Th_at (Sd_returned False), client_call (StreamShutdown h) s)"
| tc_shut_null: \<comment> \<open>msquic refuses a null handle\<close>
    "cut_step job (Th_shutting None, s) Tc_go (Th_at (Sd_returned False), s)"

text \<open>Runs in which each label is one that \<open>G\<close> allows where the thread is.\<close>

inductive cut_run ::
  "send_job \<Rightarrow> (cut_pc \<Rightarrow> cut_label \<Rightarrow> bool) \<Rightarrow> cut_pc \<times> quic_client \<Rightarrow> cut_label list \<Rightarrow> cut_pc \<times> quic_client \<Rightarrow> bool"
  for job G where
  cut_nil: "cut_run job G x [] x"
| cut_cons: "G (fst x) l \<Longrightarrow> cut_step job x l y \<Longrightarrow> cut_run job G y ls z \<Longrightarrow> cut_run job G x (l # ls) z"

text \<open>The thread has read \<open>stream_\<close> and not yet used what it read; the end of a stream does not come then.\<close>

fun in_gap :: "cut_pc \<Rightarrow> bool" where
  "in_gap (Th_sending E d f pc h) = True"
| "in_gap Th_aborting = True"
| "in_gap (Th_shutting h) = True"
| "in_gap _ = False"

fun ends_stream :: "cut_label \<Rightarrow> bool" where
  "ends_stream (Tc_event (Ev_stream h (StreamShutdownComplete b))) = True"
| "ends_stream _ = False"

definition any_order :: "cut_pc \<Rightarrow> cut_label \<Rightarrow> bool" where
  "any_order t l = True"

definition no_end_in_gap :: "cut_pc \<Rightarrow> cut_label \<Rightarrow> bool" where
  "no_end_in_gap t l \<longleftrightarrow> \<not> (in_gap t \<and> ends_stream l)"

lemma cut_run_append:
  "cut_run job G x ls y \<Longrightarrow> cut_run job G y ms z \<Longrightarrow> cut_run job G x (ls @ ms) z"
  by (induction rule: cut_run.induct) (auto intro: cut_cons)

lemma cut_run_one: "G (fst x) l \<Longrightarrow> cut_step job x l y \<Longrightarrow> cut_run job G x [l] y"
  by (rule cut_cons [OF _ _ cut_nil])

lemma cut_invariant:
  assumes "cut_run job G x ls y" and "P x"
    and "\<And>x l y. cut_step job x l y \<Longrightarrow> G (fst x) l \<Longrightarrow> P x \<Longrightarrow> P y"
  shows "P y"
  using assms by (induction rule: cut_run.induct) auto

lemma go_allowed [simp]: "no_end_in_gap t Tc_go" "no_end_in_gap t Tc_wake" "no_end_in_gap t Tc_timeout"
  "no_end_in_gap (Th_at pc) l" "any_order t l"
  by (simp_all add: no_end_in_gap_def any_order_def)

section \<open>A thread that is not interrupted\<close>

definition uninterrupted :: "cut_pc \<Rightarrow> quic_client \<Rightarrow> send_pc \<times> quic_client" where
  "uninterrupted t s =
     (case t of
        Th_at pc \<Rightarrow> (pc, s)
      | Th_send E d f pc \<Rightarrow> (case stream_send_begin E d f s of (ok, s1) \<Rightarrow> if ok then (pc, s1) else send_fail s1)
      | Th_sending E d f pc h \<Rightarrow> (case stream_send_to E h d f s of (ok, s1) \<Rightarrow> if ok then (pc, s1) else send_fail s1)
      | Th_abort \<Rightarrow> send_fail s
      | Th_aborting \<Rightarrow> (Sd_returned False, case qc_stream s of None \<Rightarrow> s | Some h \<Rightarrow> client_call (StreamShutdown h) s)
      | Th_shutting h \<Rightarrow> (Sd_returned False, case h of None \<Rightarrow> s | Some h \<Rightarrow> client_call (StreamShutdown h) s))"

lemma uninterrupted_chunk: "uninterrupted (send_chunk_cut E n sent input) s = send_chunk E n sent input s"
  unfolding send_chunk_cut_def send_chunk_def Let_def
  by (cases "sent < n"; cases "length (take (min (unat (n - sent)) k_file_chunk_size) input) = 0"; cases "sent = n")
    (simp_all only: uninterrupted_def cut_pc.case if_True if_False not_True_eq_False not_False_eq_True simp_thms
      less_irrefl refl)

lemma uninterrupted_body: "uninterrupted (send_body_cut E job) s = send_body E job s"
  by (simp add: send_body_cut_def send_body_def uninterrupted_chunk split: option.split)
    (simp add: uninterrupted_def)

lemma uninterrupted_start:
  "uninterrupted (fst (send_start_cut E h s)) (snd (send_start_cut E h s)) = send_file_internal E h s"
  by (simp add: send_start_cut_def send_file_internal_def uninterrupted_def Let_def case_prod_beta)

text \<open>The thread can always go on to its next wait by itself.\<close>

definition at_wait :: "send_pc \<times> quic_client \<Rightarrow> cut_pc \<times> quic_client" where
  "at_wait x = (Th_at (fst x), snd x)"

lemma go_abort: "\<exists>ls. cut_run job no_end_in_gap (Th_abort, s) ls (at_wait (send_fail s))"
proof (cases "qc_api s \<and> qc_stream s \<noteq> None")
  case True
  then obtain h where h: "qc_api s" "qc_stream s = Some h" by blast
  have "cut_run job no_end_in_gap (Th_abort, s) [Tc_go, Tc_go, Tc_go]
      (Th_at (Sd_returned False), client_call (StreamShutdown h) s)"
    using h tc_shut_down [of job h s] tc_abort_read [of job s]
    by (intro cut_cons [OF _ tc_abort_test] cut_cons [OF _ tc_abort_read] cut_run_one) auto
  then show ?thesis using h by (auto simp: send_fail_def abort_stream_def at_wait_def)
next
  case False
  then have "cut_run job no_end_in_gap (Th_abort, s) [Tc_go] (Th_at (Sd_returned False), s)"
    by (intro cut_run_one tc_nothing_to_abort) auto
  moreover have "abort_stream s = s" using False by (auto simp: abort_stream_def)
  ultimately show ?thesis by (auto simp: send_fail_def at_wait_def)
qed

lemma go_sending:
  "\<exists>ls. cut_run job no_end_in_gap (Th_sending E d f pc h, s) ls (at_wait (uninterrupted (Th_sending E d f pc h) s))"
proof -
  obtain ok s1 where s1: "stream_send_to E h d f s = (ok, s1)" by (cases "stream_send_to E h d f s")
  show ?thesis
  proof (cases ok)
    case True
    then have "cut_run job no_end_in_gap (Th_sending E d f pc h, s) [Tc_go] (Th_at pc, s1)"
      using s1 by (intro cut_run_one tc_sent) auto
    then show ?thesis using s1 True by (auto simp: uninterrupted_def at_wait_def)
  next
    case False
    then have "cut_run job no_end_in_gap (Th_sending E d f pc h, s) [Tc_go] (Th_abort, s1)"
      using s1 by (intro cut_run_one tc_not_sent) auto
    with go_abort [of job s1] cut_run_append show ?thesis using s1 False by (fastforce simp: uninterrupted_def)
  qed
qed

lemma thread_goes_on:
  assumes "\<not> in_gap t"
  shows "\<exists>ls. cut_run job no_end_in_gap (t, s) ls (at_wait (uninterrupted t s))"
proof (cases t)
  case (Th_at pc)
  then show ?thesis using cut_nil by (fastforce simp: uninterrupted_def at_wait_def)
next
  case (Th_send E d f pc)
  have "cut_run job no_end_in_gap (t, s) [Tc_go] (Th_sending E d f pc (qc_stream s), s)"
    unfolding Th_send by (intro cut_run_one tc_read_stream) simp
  moreover have "uninterrupted t s = uninterrupted (Th_sending E d f pc (qc_stream s)) s"
    by (simp add: Th_send uninterrupted_def stream_send_begin_def stream_send_to_def)
  ultimately show ?thesis using go_sending [of job E d f pc "qc_stream s" s] cut_run_append by metis
next
  case Th_abort
  then show ?thesis using go_abort [of job s] by (simp add: uninterrupted_def)
qed (use assms in simp_all)

text \<open>So the runs of \<open>Client_Session\<close> are among those of the cut thread.\<close>

lemma send_step_cut:
  assumes "send_step job x l y"
  shows "\<exists>ls. cut_run job no_end_in_gap (at_wait x) ls (at_wait y)"
proof -
  have on: "\<exists>ls. cut_run job no_end_in_gap (at_wait x) ls (at_wait y)"
    if "cut_step job (at_wait x) k (t, s)" "\<not> in_gap t" "uninterrupted t s = y" for k t s
  proof -
    have "cut_run job no_end_in_gap (at_wait x) [k] (t, s)"
      using that(1) by (intro cut_run_one) (simp_all add: at_wait_def)
    with thread_goes_on [OF that(2), of job s] cut_run_append that(3) show ?thesis by blast
  qed
  have gap: "\<not> in_gap (send_chunk_cut E n sent input)" "\<not> in_gap (send_body_cut E job)" for E n sent input
    by (auto simp: send_chunk_cut_def send_body_cut_def Let_def split: option.split)
  note sure = tc_header_sent tc_header_timeout tc_decision_timeout tc_decision_no tc_chunk_timeout
    tc_empty_sent tc_empty_timeout tc_ack_arrived tc_ack_timeout
  from assms show ?thesis
  proof cases
    case (client_stream_callback pc s h ev)
    then show ?thesis using on [of "Tc_event (Ev_stream h ev)" "Th_at pc"] tc_event [of job "Th_at pc" s "Ev_stream h ev"]
      by (simp add: at_wait_def client_callback_def uninterrupted_def)
  next
    case (client_connection_callback pc s c cev)
    then show ?thesis using on [of "Tc_event (Ev_connection c cev)" "Th_at pc"] tc_event [of job "Th_at pc" s "Ev_connection c cev"]
      by (simp add: at_wait_def client_callback_def uninterrupted_def)
  next
    case (header_sent s)
    show ?thesis by (rule on [of Tc_wake "Th_at Sd_decision" s])
      (use header_sent in \<open>simp_all add: at_wait_def uninterrupted_def sure\<close>)
  next
    case (header_timeout s)
    show ?thesis by (rule on [of Tc_timeout Th_abort s])
      (use header_timeout in \<open>simp_all add: at_wait_def uninterrupted_def sure\<close>)
  next
    case (decision_timeout s)
    show ?thesis by (rule on [of Tc_timeout Th_abort s])
      (use decision_timeout in \<open>simp_all add: at_wait_def uninterrupted_def sure\<close>)
  next
    case (decision_no s)
    show ?thesis by (rule on [of Tc_wake Th_abort "s\<lparr>qc_rejected := True\<rparr>"])
      (use decision_no in \<open>simp_all add: at_wait_def uninterrupted_def sure\<close>)
  next
    case (decision_yes s E)
    show ?thesis by (rule on [OF _ gap(2), of Tc_wake E s])
      (use decision_yes in \<open>simp_all add: at_wait_def uninterrupted_body tc_decision_yes\<close>)
  next
    case (chunk_sent s sent input E)
    show ?thesis by (rule on [OF _ gap(1), of Tc_wake E "sj_size job" sent input
          "report_progress job sent (fth_size (sj_header job)) s"])
      (use chunk_sent in \<open>simp_all add: at_wait_def uninterrupted_chunk tc_chunk_sent\<close>)
  next
    case (chunk_timeout s sent input)
    show ?thesis by (rule on [of Tc_timeout Th_abort s])
      (use chunk_timeout in \<open>simp_all add: at_wait_def uninterrupted_def sure\<close>)
  next
    case (empty_sent s)
    show ?thesis by (rule on [of Tc_wake "Th_at Sd_ack_wait" "report_progress job 0 0 s"])
      (use empty_sent in \<open>simp_all add: at_wait_def uninterrupted_def sure\<close>)
  next
    case (empty_timeout s)
    show ?thesis by (rule on [of Tc_timeout Th_abort s])
      (use empty_timeout in \<open>simp_all add: at_wait_def uninterrupted_def sure\<close>)
  next
    case (ack_arrived s)
    show ?thesis by (rule on [of Tc_wake "Th_at (Sd_returned (qc_file_ok s))" s])
      (use ack_arrived in \<open>simp_all add: at_wait_def uninterrupted_def sure\<close>)
  next
    case (ack_timeout s)
    show ?thesis by (rule on [of Tc_timeout "Th_at (Sd_returned False)" s])
      (use ack_timeout in \<open>simp_all add: at_wait_def uninterrupted_def sure\<close>)
  qed
qed

lemma send_run_cut:
  "send_run job x ls y \<Longrightarrow> \<exists>ms. cut_run job no_end_in_gap (at_wait x) ms (at_wait y)"
proof (induction rule: send_run.induct)
  case (send_nil x)
  then show ?case using cut_nil by blast
next
  case (send_cons x l y ls z)
  then show ?case using send_step_cut cut_run_append by blast
qed

end
