(* ===== verification/Closed_Streams.thy ===== *)
theory Closed_Streams
  imports Client_Lock_Properties Client_Thread_Cuts
begin

text \<open>
  Calls of msquic on a stream that was closed. The callback of a finished stream closes its handle and
  resets \<open>stream_\<close>, the thread of \<open>send_file_internal\<close> reads \<open>stream_\<close> and calls msquic with what it read,
  and no mutex orders the two. As long as neither is interrupted by the other no closed stream is
  used; either interruption alone is enough for it.
\<close>

section \<open>Calls on a closed stream\<close>

fun closed_after :: "handle set \<Rightarrow> quic_call list \<Rightarrow> handle set" where
  "closed_after H [] = H"
| "closed_after H (StreamOpen h # cs) = closed_after (H - {h}) cs"
| "closed_after H (StreamClose h # cs) = closed_after (insert h H) cs"
| "closed_after H (_ # cs) = closed_after H cs"

text \<open>The handle that a call of msquic works on, where it must be an open stream.\<close>

fun stream_used :: "quic_call \<Rightarrow> handle option" where
  "stream_used (StreamStart h) = Some h"
| "stream_used (StreamSend h d f b) = Some h"
| "stream_used (StreamShutdown h) = Some h"
| "stream_used c = None"

fun uses_closed :: "handle set \<Rightarrow> quic_call list \<Rightarrow> bool" where
  "uses_closed H [] = False"
| "uses_closed H (c # cs) \<longleftrightarrow> (case stream_used c of None \<Rightarrow> False | Some h \<Rightarrow> h \<in> H) \<or> uses_closed (closed_after H [c]) cs"

lemma closed_after_append [simp]: "closed_after H (xs @ ys) = closed_after (closed_after H xs) ys"
  by (induction H xs rule: closed_after.induct) auto

lemma closed_after_Cons: "closed_after H (c # cs) = closed_after (closed_after H [c]) cs"
  using closed_after_append [of H "[c]" cs] by simp

lemma uses_closed_append [simp]:
  "uses_closed H (xs @ ys) \<longleftrightarrow> uses_closed H xs \<or> uses_closed (closed_after H xs) ys"
proof (induction xs arbitrary: H)
  case (Cons c xs)
  then show ?case by (simp add: closed_after_Cons [of H c xs])
qed simp

text \<open>So far no closed stream was used, and \<open>stream_\<close> is not closed.\<close>

abbreviation msquic_calls :: "quic_client \<Rightarrow> quic_call list" where
  "msquic_calls s \<equiv> io_calls (qc_io s)"

definition streams_in_order :: "quic_client \<Rightarrow> bool" where
  "streams_in_order s \<longleftrightarrow> \<not> uses_closed {} (msquic_calls s)
     \<and> (\<forall>h. qc_stream s = Some h \<longrightarrow> h \<notin> closed_after {} (msquic_calls s))"

lemma in_order_same:
  "msquic_calls t = msquic_calls s \<Longrightarrow> qc_stream t = qc_stream s \<Longrightarrow> streams_in_order s \<Longrightarrow> streams_in_order t"
  by (simp add: streams_in_order_def)

lemma in_order_call:
  assumes "streams_in_order s" and "\<forall>h. stream_used c = Some h \<longrightarrow> h \<notin> closed_after {} (msquic_calls s)"
    and "closed_after (closed_after {} (msquic_calls s)) [c] = closed_after {} (msquic_calls s)"
    and "msquic_calls t = msquic_calls s @ [c]" and "qc_stream t = qc_stream s"
  shows "streams_in_order t"
  using assms by (auto simp: streams_in_order_def split: option.split)

lemma in_order_callbacks:
  assumes "streams_in_order s"
  shows "streams_in_order (client_on_stream_event h ev s)" and "streams_in_order (client_on_connection_event c cev s)"
proof -
  show "streams_in_order (client_on_stream_event h ev s)"
    using assms by (cases ev) (auto simp: client_on_stream_event_def streams_in_order_def client_call_def io_call_def
        free_block_def resolve_decision_def notify_send_waiter_def client_notify_file_waiter_def Let_def)
  show "streams_in_order (client_on_connection_event c cev s)"
    using assms by (cases cev) (auto simp: client_on_connection_event_def streams_in_order_def client_call_def io_call_def
        notify_connect_waiter_def Let_def)
qed

lemma in_order_open:
  assumes "streams_in_order s"
  shows "streams_in_order (snd (open_stream E s))"
proof (cases "ce_stream E")
  case None
  then show ?thesis using assms by (simp add: open_stream_def streams_in_order_def)
next
  case (Some h)
  then show ?thesis using assms
    by (simp add: open_stream_def streams_in_order_def client_call_def io_call_def Let_def)
qed

text \<open>The handle the thread has read.\<close>

fun handle_read :: "cut_pc \<Rightarrow> handle option" where
  "handle_read (Th_sending E d f pc h) = h"
| "handle_read (Th_shutting h) = h"
| "handle_read _ = None"

definition thread_in_order :: "cut_pc \<times> quic_client \<Rightarrow> bool" where
  "thread_in_order x \<longleftrightarrow> streams_in_order (snd x)
     \<and> (\<forall>h. handle_read (fst x) = Some h \<longrightarrow> h \<notin> closed_after {} (msquic_calls (snd x)))"

lemma callback_closes:
  "\<not> ends_stream (Tc_event e) \<Longrightarrow>
   closed_after {} (msquic_calls (client_callback e s)) = closed_after {} (msquic_calls s)"
proof (cases e)
  case (Ev_stream h ev)
  moreover assume "\<not> ends_stream (Tc_event e)"
  ultimately show ?thesis
    by (cases ev) (auto simp: client_callback_def client_on_stream_event_def free_block_def resolve_decision_def
        notify_send_waiter_def client_notify_file_waiter_def Let_def)
next
  case (Ev_connection c cev)
  then show ?thesis
    by (cases cev) (auto simp: client_callback_def client_on_connection_event_def client_call_def io_call_def
        notify_connect_waiter_def Let_def)
qed

lemma in_order_callback: "streams_in_order s \<Longrightarrow> streams_in_order (client_callback e s)"
  by (cases e) (simp_all add: client_callback_def in_order_callbacks)

lemma in_order_send:
  assumes "streams_in_order s" and "\<forall>st. h = Some st \<longrightarrow> st \<notin> closed_after {} (msquic_calls s)"
    and "stream_send_to E h d f s = (ok, s1)"
  shows "streams_in_order s1"
proof -
  obtain io where io: "stream_send_copy (ce_send E) h d f (qc_io s) = (ok, io)" and e: "s1 = s\<lparr>qc_send_done := False, qc_io := io\<rparr>"
    using assms(3) by (auto simp: stream_send_to_def split: prod.splits)
  from stream_send_copy_cases [OF io] show ?thesis
  proof
    assume "ok \<and> (\<exists>st. h = Some st \<and> io_calls io = msquic_calls s @ [StreamSend st (u32_part d) f (io_next (qc_io s))]
        \<and> io_live io = io_next (qc_io s) # io_live (qc_io s))"
    then show ?thesis using assms(2) unfolding e by (elim conjE exE, intro in_order_call [OF assms(1)]) auto
  next
    assume "\<not> ok \<and> io_calls io = msquic_calls s \<and> io_live io = io_live (qc_io s)"
    then show ?thesis unfolding e by (intro in_order_same [OF _ _ assms(1)]) auto
  qed
qed

lemma in_order_quiet:
  assumes "streams_in_order s"
  shows "streams_in_order (report_progress job n m s)" and "streams_in_order (s\<lparr>qc_rejected := r\<rparr>)"
  using assms by (auto simp: report_progress_def streams_in_order_def)

lemma nothing_read: "\<not> in_gap t \<Longrightarrow> handle_read t = None"
  by (cases t) simp_all

lemma cut_segments_read_nothing [simp]:
  "handle_read (send_chunk_cut E n sent input) = None" "handle_read (send_body_cut E job) = None"
  by (auto simp: send_chunk_cut_def send_body_cut_def Let_def split: option.split)

lemma thread_in_order_step:
  "cut_step job x l y \<Longrightarrow> no_end_in_gap (fst x) l \<Longrightarrow> thread_in_order x \<Longrightarrow> thread_in_order y"
proof (induction rule: cut_step.induct)
  case (tc_event t s e)
  show ?case
  proof (cases "in_gap t")
    case True
    with tc_event show ?thesis by (simp add: thread_in_order_def no_end_in_gap_def callback_closes in_order_callback)
  next
    case False
    with tc_event show ?thesis by (simp add: thread_in_order_def nothing_read in_order_callback)
  qed
next
  case (tc_sent E h d f s s1 pc)
  then show ?case using in_order_send [of s h E d f True s1] by (simp add: thread_in_order_def)
next
  case (tc_not_sent E h d f s s1 pc)
  then show ?case using in_order_send [of s h E d f False s1] by (simp add: thread_in_order_def)
next
  case (tc_read_stream E d f pc s)
  then show ?case by (auto simp: thread_in_order_def streams_in_order_def)
next
  case (tc_abort_read s)
  then show ?case by (auto simp: thread_in_order_def streams_in_order_def)
next
  case (tc_shut_down h s)
  then have "streams_in_order s" "h \<notin> closed_after {} (msquic_calls s)" by (simp_all add: thread_in_order_def)
  from in_order_call [OF this(1), of "StreamShutdown h" "client_call (StreamShutdown h) s"] this(2)
  have "streams_in_order (client_call (StreamShutdown h) s)" by (simp add: client_call_def io_call_def)
  then show ?case by (simp add: thread_in_order_def)
qed (simp_all add: thread_in_order_def in_order_quiet)

lemma thread_in_order_start:
  assumes "streams_in_order s"
  shows "thread_in_order (send_start_cut E h s)"
proof -
  let ?s1 = "s\<lparr>qc_file_ack := [], qc_rejected := False, qc_decision_buf := [],
                qc_decision_ready := False, qc_decision_accepted := False,
                qc_file_done := False, qc_file_ok := False\<rparr>"
  have "streams_in_order ?s1" using assms by (simp add: streams_in_order_def)
  from in_order_open [OF this, of E] have "streams_in_order (snd (open_stream E ?s1))" .
  then have "streams_in_order ((snd (open_stream E ?s1))\<lparr>qc_awaiting_decision := b\<rparr>)" for b
    by (simp add: streams_in_order_def)
  with assms \<open>streams_in_order (snd (open_stream E ?s1))\<close> show ?thesis
    by (simp add: send_start_cut_def thread_in_order_def Let_def case_prod_beta)
qed

section \<open>The two interruptions\<close>

text \<open>The header was sent, the stream is lost, and the wait for the decision runs out in the middle
  of the callback.\<close>

lemma closed_stream_run:
  assumes "ready_client s0" and "send_file_internal (good_client st) h s0 = (Sd_header_wait, s)"
  obtains ks y where "client_lock_run job (Sd_header_wait, s, []) ks y"
    and "fst y = Sd_returned False" and "uses_closed {} (msquic_calls (fst (snd y)))"
proof -
  have g: "\<not> (\<not> qc_connected s0 \<or> qc_connection s0 = None \<or> \<not> qc_api s0)"
    using assms(1) by (simp add: ready_client_def)
  then have s: "qc_api s" "qc_stream s = Some st" "\<not> qc_decision_ready s"
    using assms(2) by (auto simp: send_file_internal_def open_stream_def good_client_def stream_send_begin_def
        client_call_def Let_def)
  define ctx where "ctx = io_next (qc_io s0)"
  let ?t = "client_on_stream_event st (SendComplete ctx) s"
  have t: "qc_api ?t" "qc_stream ?t = Some st" "\<not> qc_decision_ready ?t" "qc_send_done ?t"
    using s by (simp_all add: client_on_stream_event_def notify_send_waiter_def)
  have "send_run job (Sd_header_wait, s) [S_stream st (SendComplete ctx), S_wake] (Sd_decision, ?t)"
    using t(4) by (intro send_cons [OF client_stream_callback] send_cons [OF header_sent] send_nil)
  from send_run_included [OF this] obtain ks where
    sent: "client_lock_run job (Sd_header_wait, s, []) ks (Sd_decision, ?t, [])" by (auto simp: with_no_callback_def)
  let ?u = "client_call (StreamClose st) ?t"
  have "client_callback_begin (Ev_stream st (StreamShutdownComplete False)) ?t = (?u, [Co_stream_gone])"
    by (simp add: client_callback_begin_def stream_event_begin_def)
  note enter = client_lock_one [OF k_enter [OF this, of job Sd_decision]]
  have fail: "send_fail ?u = (Sd_returned False, client_call (StreamShutdown st) ?u)"
    using t by (simp add: send_fail_def abort_stream_def client_call_def)
  have "send_step job (Sd_decision, ?u) S_timeout (send_fail ?u)"
    using t by (intro decision_timeout) (simp add: client_call_def)
  note late = client_lock_one [OF k_timeout [OF this [unfolded fail], of "[Co_stream_gone]"]]
  have "uses_closed {} (msquic_calls (client_call (StreamShutdown st) ?u))"
    by (simp add: client_call_def io_call_def)
  then show thesis using that [OF client_lock_append [OF client_lock_append [OF late enter] sent]] by simp
qed

text \<open>The end of the stream comes between a read of \<open>stream_\<close> and the call that uses it.\<close>

lemma stream_ends:
  assumes "qc_api s"
  shows "qc_api (client_callback (Ev_stream st (StreamShutdownComplete False)) s)"
    and "st \<in> closed_after {} (msquic_calls (client_callback (Ev_stream st (StreamShutdownComplete False)) s))"
  using assms by (simp_all add: client_callback_def client_on_stream_event_def client_call_def io_call_def Let_def)

lemma start_sends:
  assumes "ready_client s0"
  obtains s where "send_start_cut (good_client st) h s0 = (Th_send (good_client st) (encode_file_header h) False Sd_header_wait, s)"
    and "qc_stream s = Some st" "qc_api s" "\<not> qc_decision_ready s"
  using assms by (auto simp: send_start_cut_def ready_client_def open_stream_def good_client_def client_call_def Let_def)

lemma good_send_to:
  obtains y where "stream_send_to (good_client st) (Some st) d f s = (True, y)"
    and "msquic_calls y = msquic_calls s @ [StreamSend st (u32_part d) f (io_next (qc_io s))]"
    and "qc_stream y = qc_stream s" "qc_api y = qc_api s" "\<not> qc_send_done y"
  by (rule that [of "snd (stream_send_to (good_client st) (Some st) d f s)"])
    (simp_all add: stream_send_to_def good_client_def)

lemma closed_stream_sent:
  assumes "ready_client s0"
  obtains ls y where "cut_run job any_order (send_start_cut (good_client st) h s0) ls (Th_at Sd_header_wait, y)"
    and "uses_closed {} (msquic_calls y)" and "\<exists>d f c. last (msquic_calls y) = StreamSend st d f c"
proof -
  obtain s where s: "send_start_cut (good_client st) h s0
      = (Th_send (good_client st) (encode_file_header h) False Sd_header_wait, s)" "qc_stream s = Some st" "qc_api s"
    by (rule start_sends [OF assms])
  let ?e = "Ev_stream st (StreamShutdownComplete False)" and ?d = "encode_file_header h"
  obtain y where y: "stream_send_to (good_client st) (Some st) ?d False (client_callback ?e s) = (True, y)"
    "msquic_calls y = msquic_calls (client_callback ?e s)
       @ [StreamSend st (u32_part ?d) False (io_next (qc_io (client_callback ?e s)))]"
    by (rule good_send_to)
  have "cut_run job any_order (Th_sending (good_client st) ?d False Sd_header_wait (Some st), s) [Tc_event ?e, Tc_go]
      (Th_at Sd_header_wait, y)"
    by (rule cut_cons [OF _ tc_event cut_run_one [OF _ tc_sent [OF y(1)]]]) simp_all
  moreover have "cut_run job any_order (send_start_cut (good_client st) h s0) [Tc_go]
      (Th_sending (good_client st) ?d False Sd_header_wait (Some st), s)"
    unfolding s(1) by (rule cut_run_one [OF _ tc_read_stream [of job _ _ _ _ s, unfolded s(2)]]) simp
  ultimately have "cut_run job any_order (send_start_cut (good_client st) h s0) ([Tc_go] @ [Tc_event ?e, Tc_go]) (Th_at Sd_header_wait, y)"
    using cut_run_append by blast
  moreover have "uses_closed {} (msquic_calls y)" using stream_ends(2) [OF s(3), of st] by (simp add: y(2))
  moreover have "last (msquic_calls y) = StreamSend st (u32_part ?d) False (io_next (qc_io (client_callback ?e s)))"
    by (simp add: y(2))
  ultimately show thesis using that by blast
qed

lemma closed_stream_aborted:
  assumes "ready_client s0"
  obtains ls y where "cut_run job any_order (send_start_cut (good_client st) h s0) ls (Th_at (Sd_returned False), y)"
    and "uses_closed {} (msquic_calls y)" and "last (msquic_calls y) = StreamShutdown st"
proof -
  obtain s where s: "send_start_cut (good_client st) h s0
      = (Th_send (good_client st) (encode_file_header h) False Sd_header_wait, s)" "qc_stream s = Some st" "qc_api s"
    by (rule start_sends [OF assms])
  let ?e = "Ev_stream st (StreamShutdownComplete False)" and ?d = "encode_file_header h"
  obtain a where a: "stream_send_to (good_client st) (Some st) ?d False s = (True, a)" "qc_stream a = Some st" "qc_api a"
    "\<not> qc_send_done a"
    using good_send_to [of st ?d False s] s(2,3) by metis
  let ?y = "client_call (StreamShutdown st) (client_callback ?e a)"
  have shut: "cut_run job any_order (Th_shutting (Some st), a) [Tc_event ?e, Tc_go] (Th_at (Sd_returned False), ?y)"
    by (rule cut_cons [OF _ tc_event cut_run_one [OF _ tc_shut_down]]) simp_all
  have abort: "cut_run job any_order (Th_abort, a) [Tc_go, Tc_go] (Th_shutting (Some st), a)"
    by (rule cut_cons [OF _ tc_abort_test cut_run_one [OF _ tc_abort_read [of job a, unfolded a(2)]]]) (simp_all add: a)
  have wait: "cut_run job any_order (Th_sending (good_client st) ?d False Sd_header_wait (Some st), s) [Tc_go, Tc_timeout] (Th_abort, a)"
    by (rule cut_cons [OF _ tc_sent [OF a(1)] cut_run_one [OF _ tc_header_timeout [OF a(4)]]]) simp_all
  have "cut_run job any_order (send_start_cut (good_client st) h s0) [Tc_go]
      (Th_sending (good_client st) ?d False Sd_header_wait (Some st), s)"
    unfolding s(1) by (rule cut_run_one [OF _ tc_read_stream [of job _ _ _ _ s, unfolded s(2)]]) simp
  note run = cut_run_append [OF this cut_run_append [OF wait cut_run_append [OF abort shut]]]
  have calls: "msquic_calls ?y = msquic_calls (client_callback ?e a) @ [StreamShutdown st]"
    by (simp add: client_call_def io_call_def)
  show thesis using stream_ends(2) [OF a(3), of st] by (intro that [OF run]) (simp_all add: calls)
qed

section \<open>Property\<close>

text \<open>
  C21: A stream can be used after it was closed. When a stream ends, its callback closes the handle and
  then sets \<open>stream_\<close> to null, without a lock; the thread of a send reads \<open>stream_\<close> and then calls msquic
  with the handle it read, without a lock. When no end of a stream falls between such a read and its call,
  and callbacks are not interrupted, no run of a call uses a closed stream. But with the end of the
  stream between the two, the header is sent on a closed stream, or \<open>abort_stream\<close> shuts one down; and
  also when the thread is not interrupted but the callback is, in the middle, a closed stream is shut down.
\<close>

theorem closed_stream_shut_down:
  assumes "ready_client s0" and "streams_in_order s0"
  shows "(\<forall>E ls y. cut_run job no_end_in_gap (send_start_cut E (sj_header job) s0) ls y
        \<longrightarrow> \<not> uses_closed {} (msquic_calls (snd y)))
    \<and> (\<exists>ls y. cut_run job any_order (send_start_cut (good_client st) (sj_header job) s0) ls (Th_at Sd_header_wait, y)
        \<and> uses_closed {} (msquic_calls y) \<and> (\<exists>d f c. last (msquic_calls y) = StreamSend st d f c))
    \<and> (\<exists>ls y. cut_run job any_order (send_start_cut (good_client st) (sj_header job) s0) ls (Th_at (Sd_returned False), y)
        \<and> uses_closed {} (msquic_calls y) \<and> last (msquic_calls y) = StreamShutdown st)
    \<and> (\<exists>ks y. client_lock_run job (with_no_callback (send_file_internal (good_client st) (sj_header job) s0)) ks y
        \<and> fst y = Sd_returned False \<and> uses_closed {} (msquic_calls (fst (snd y))))"
proof -
  have "\<not> uses_closed {} (msquic_calls (snd y))"
    if "cut_run job no_end_in_gap (send_start_cut E (sj_header job) s0) ls y" for E ls y
  proof -
    have "thread_in_order y"
      by (rule cut_invariant [OF that, of thread_in_order])
        (rule thread_in_order_start [OF assms(2)], rule thread_in_order_step)
    then show ?thesis by (simp add: thread_in_order_def streams_in_order_def)
  qed
  moreover obtain s where s: "send_file_internal (good_client st) (sj_header job) s0 = (Sd_header_wait, s)"
    by (rule send_start_good [OF assms(1)])
  moreover from closed_stream_run [OF assms(1) s] obtain ks y where
    "client_lock_run job (Sd_header_wait, s, []) ks y" "fst y = Sd_returned False" "uses_closed {} (msquic_calls (fst (snd y)))" .
  moreover obtain ls y where "cut_run job any_order (send_start_cut (good_client st) (sj_header job) s0) ls (Th_at Sd_header_wait, y)"
    "uses_closed {} (msquic_calls y)" "\<exists>d f c. last (msquic_calls y) = StreamSend st d f c"
    by (rule closed_stream_sent [OF assms(1)])
  moreover obtain ms z where "cut_run job any_order (send_start_cut (good_client st) (sj_header job) s0) ms (Th_at (Sd_returned False), z)"
    "uses_closed {} (msquic_calls z)" "last (msquic_calls z) = StreamShutdown st"
    by (rule closed_stream_aborted [OF assms(1)])
  ultimately show ?thesis unfolding s with_no_callback_def fst_conv snd_conv by blast
qed

theorem closed_stream_shut_down_witness:
  "(\<exists>ks y. client_lock_run demo_job (with_no_callback
       (send_file_internal (good_client 2) (sj_header demo_job) demo_client)) ks y
     \<and> uses_closed {} (msquic_calls (fst (snd y))))
   \<and> (\<exists>ls y. cut_run demo_job any_order (send_start_cut (good_client 2) (sj_header demo_job) demo_client) ls
          (Th_at (Sd_returned False), y) \<and> last (msquic_calls y) = StreamShutdown 2)"
proof -
  have "streams_in_order demo_client" by (simp add: streams_in_order_def demo_client_def new_client_def io_init_def)
  from closed_stream_shut_down [OF demo_ready(1) this, of demo_job 2] show ?thesis by blast
qed

end
