(* ===== verification/Call_Phases.thy ===== *)
theory Call_Phases
  imports Server_Locks
begin

text \<open>
  The phases of a call of \<open>receive_file\<close> in their order. The calling thread only moves forward
  through them, callbacks never move it, and so the user is asked at most once in a call,
  whether callbacks are taken as atomic or cut at their critical sections.
\<close>

section \<open>Phases and their order\<close>

datatype receive_phase = Awaiting | Asking | Accepting | Transferring | Draining | Over

fun phase_rank :: "receive_phase \<Rightarrow> nat" where
  "phase_rank Awaiting = 0"
| "phase_rank Asking = 1"
| "phase_rank Accepting = 2"
| "phase_rank Transferring = 3"
| "phase_rank Draining = 4"
| "phase_rank Over = 5"

lemma phase_rank_inject: "phase_rank a = phase_rank b \<Longrightarrow> a = b"
  by (cases a; cases b) simp_all

instantiation receive_phase :: linorder
begin

definition less_eq_receive_phase :: "receive_phase \<Rightarrow> receive_phase \<Rightarrow> bool" where
  "less_eq_receive_phase a b \<longleftrightarrow> phase_rank a \<le> phase_rank b"

definition less_receive_phase :: "receive_phase \<Rightarrow> receive_phase \<Rightarrow> bool" where
  "less_receive_phase a b \<longleftrightarrow> phase_rank a < phase_rank b"

instance
  by standard (auto simp: less_eq_receive_phase_def less_receive_phase_def intro: phase_rank_inject)

end

lemmas phase_order = less_eq_receive_phase_def less_receive_phase_def

fun phase_of :: "receive_pc \<Rightarrow> receive_phase" where
  "phase_of Rf_wait_offer = Awaiting"
| "phase_of (Rf_prompt h) = Asking"
| "phase_of Rf_accepting = Accepting"
| "phase_of Rf_wait_done = Transferring"
| "phase_of (Rf_drain b) = Draining"
| "phase_of (Rf_returned b) = Over"

fun caller_phase :: "caller_pc \<Rightarrow> receive_phase" where
  "caller_phase (At pc) = phase_of pc"
| "caller_phase At_locked_drain = Draining"

lemma caller_phase_at [simp]: "caller_phase (caller_at l pc) = phase_of pc"
  by (auto simp: caller_at_def)

section \<open>The calling thread moves forward\<close>

text \<open>Each of its steps ends a phase; a callback leaves it where it is.\<close>

lemma session_step_forward:
  "session_step evp x l y \<Longrightarrow> caller_label l \<Longrightarrow> phase_of (fst x) < phase_of (fst y)"
  by (cases rule: session_step.cases)
     (auto simp: phase_order caller_label_def accept_offer_def split: prod.splits if_splits)

lemma session_step_stays: "session_step evp x l y \<Longrightarrow> \<not> caller_label l \<Longrightarrow> fst y = fst x"
  by (cases rule: session_step.cases) (auto simp: caller_label_def)

lemma lock_step_forward:
  "lock_step evp x l y \<Longrightarrow>
     (if \<exists>k. l = F_caller k then caller_phase (fst x) < caller_phase (fst y) else fst y = fst x)"
  by (cases rule: lock_step.cases) (auto dest: session_step_forward simp: phase_order)

text \<open>A phase that is over does not come back.\<close>

lemma session_run_forward: "session_run evp x ls y \<Longrightarrow> phase_of (fst x) \<le> phase_of (fst y)"
proof (induction rule: session_run.induct)
  case (run_step x l y ls z)
  have "phase_of (fst x) \<le> phase_of (fst y)"
    using session_step_forward [OF run_step(1)] session_step_stays [OF run_step(1)]
    by (cases "caller_label l") auto
  then show ?case using run_step.IH by simp
qed simp

lemma lock_run_forward: "lock_run evp x fs y \<Longrightarrow> caller_phase (fst x) \<le> caller_phase (fst y)"
proof (induction rule: lock_run.induct)
  case (lock_snoc x ls y l z)
  have "caller_phase (fst y) \<le> caller_phase (fst z)"
    using lock_step_forward [OF lock_snoc(2)] by (auto split: if_splits)
  then show ?case using lock_snoc.IH by simp
qed simp

section \<open>The user is asked once\<close>

definition answers :: "lock_label list \<Rightarrow> bool list" where
  "answers fs = concat (map (\<lambda>f. case f of F_caller (L_answer b) \<Rightarrow> [b] | _ \<Rightarrow> []) fs)"

lemma answers_simps [simp]:
  "answers [] = []" "answers (fs @ gs) = answers fs @ answers gs"
  by (simp_all add: answers_def)

lemma answer_step:
  assumes "lock_step evp x l y" and "answers [l] \<noteq> []"
  shows "caller_phase (fst x) = Asking" and "length (answers [l]) = 1"
proof -
  obtain b where l: "l = F_caller (L_answer b)"
    using assms(2) by (auto simp: answers_def split: lock_label.splits session_label.splits)
  then show "length (answers [l]) = 1" by (simp add: answers_def)
  from assms(1) l show "caller_phase (fst x) = Asking"
    by (auto elim!: lock_step.cases session_step.cases)
qed

lemma asked_once:
  "lock_run evp x fs y \<Longrightarrow> length (answers fs) \<le> (if caller_phase (fst y) \<le> Asking then 0 else 1)"
proof (induction rule: lock_run.induct)
  case (lock_snoc x ls y l z)
  have forward: "caller_phase (fst y) \<le> caller_phase (fst z)"
    using lock_step_forward [OF lock_snoc(2)] by (auto split: if_splits)
  show ?case
  proof (cases "answers [l] = []")
    case True
    with lock_snoc.IH forward show ?thesis by (auto split: if_splits)
  next
    case False
    from answer_step [OF lock_snoc(2) False]
    have a: "caller_phase (fst y) = Asking" "length (answers [l]) = 1" by auto
    obtain k where "l = F_caller k"
      using False by (auto simp: answers_def split: lock_label.splits)
    then have "Asking < caller_phase (fst z)" using lock_step_forward [OF lock_snoc(2)] a(1) by auto
    then show ?thesis using lock_snoc.IH a by (auto simp: leD)
  qed
qed simp

end
