(* ===== verification/Command_Sessions.thy ===== *)
theory Command_Sessions
  imports Prompted_Session Client_Outcome
begin

text \<open>
  The commands put together with the engine: \<open>lft recv\<close> with the sessions of \<open>receive_file\<close>, \<open>lft
  send\<close> with the runs of \<open>send_file\<close>. \<open>Cli\<close> leaves what the engine answers open; here the
  answers are those of some run of the engine, and the exit code says what was transferred.
\<close>

section \<open>The engine behind the commands\<close>

text \<open>The answers of \<open>send_file\<close> come from its runs; files do not change meanwhile.\<close>

definition sent_by_engine ::
  "'c evp_api \<Rightarrow> client_env \<Rightarrow> (path \<Rightarrow> path_info) \<Rightarrow> files \<Rightarrow> quic_client \<Rightarrow> bool \<Rightarrow> cli_env \<Rightarrow> bool" where
  "sent_by_engine evp C info fs s0 tty E \<longleftrightarrow>
     (\<forall>p content. fs p = Some content \<longrightarrow>
        pi_size (info p) = Some (of_nat (length content)) \<and> length content < 2 ^ 64
        \<and> (\<exists>ls s. send_run (file_job evp fs p content tty) (send_file evp C (info p) fs p s0) ls
              (Sd_returned (cv_send E p), s)))
     \<and> (\<forall>p. fs p = None \<longrightarrow> \<not> cv_send E p)"

section \<open>Receiving\<close>

lemma run_recv_zero:
  assumes "run_recv E args = (0, actions)"
  obtains flags d port where "parse_flags args = Some flags" and "map_of flags ''out'' = Some d"
    and "cv_is_directory E d" and "fst (cv_receive E d) \<or> frr_rejected (snd (cv_receive E d))"
    and "actions = [Act_start_server port, Act_advertise (flag_or flags ''name'' []) port, Act_receive d, Act_stop_server]"
proof -
  obtain flags where f: "parse_flags args = Some flags"
    using assms by (cases "parse_flags args") (auto simp: run_recv_def)
  have given: "flag_set flags ''out''"
    using assms f by (auto simp: run_recv_def Let_def split: if_splits option.splits)
  then have d: "map_of flags ''out'' = Some (flag_or flags ''out'' [])"
    by (auto simp: flag_set_def flag_or_def)
  from assms f given that [OF f d] show thesis
    by (auto simp: run_recv_def Let_def split: if_splits option.splits prod.splits)
qed

section \<open>Properties\<close>

text \<open>
  C18: Exit code 0 of \<open>lft recv\<close> is earned. Let the command end with 0 and its \<open>receive_file\<close> have
  answered as some session does in which no second stream starts. Then either the transfer was
  declined and no file was touched, or the user was asked about a header and said yes, and the file
  of that very header lies under its name, a plain one, in the folder given with \<open>--out\<close>, with the
  length and the hash the header announced. With a second stream this fails:
  \<open>accepted_offer_can_be_replaced\<close> has such a session.
\<close>

theorem recv_command_truthful:
  assumes "run_recv E args = (0, actions)"
    and "parse_flags args = Some flags" and "map_of flags ''out'' = Some d"
    and "session_run evp (receive_start (cv_is_directory E) d True tty s0) ls (Rf_returned (fst (cv_receive E d)), s)"
    and "one_stream ls" and "snd (cv_receive E d) = qs_file_result s"
  shows "(\<exists>port. actions = [Act_start_server port, Act_advertise (flag_or flags ''name'' []) port, Act_receive d, Act_stop_server])
    \<and> (if fst (cv_receive E d)
       then \<exists>h b. agreed_to evp (receive_start (cv_is_directory E) d True tty s0) ls h \<and> safe_file_name (fth_name h)
              \<and> qs_files s (path_append d (fth_name h)) = Some b \<and> length b = unat (fth_size h)
              \<and> file_hash evp (qs_files s) (path_append d (fth_name h)) = Some (fth_sha256_hex h)
       else frr_rejected (snd (cv_receive E d)) \<and> qs_files s = qs_files s0)"
proof -
  from run_recv_zero [OF assms(1)] assms(2,3) obtain port where z: "cv_is_directory E d"
    "fst (cv_receive E d) \<or> frr_rejected (snd (cv_receive E d))"
    "actions = [Act_start_server port, Act_advertise (flag_or flags ''name'' []) port, Act_receive d, Act_stop_server]"
    by (metis option.inject)
  show ?thesis
  proof (cases "fst (cv_receive E d)")
    case True
    have "looks_like_dir (cv_is_directory E) d" using z(1) by (simp add: looks_like_dir_def)
    from accepted_file [OF assms(4) [unfolded eqTrueI [OF True]] assms(5) this] z(3) True show ?thesis by fastforce
  next
    case False
    then have r: "frr_rejected (qs_file_result s)" using z(2) assms(6) by simp
    then have "qs_files s = qs_files s0"
      using untouched_run [OF assms(4) untouched_start] by (simp add: untouched_def unanswered_def)
    with z(3) r False assms(6) show ?thesis by simp
  qed
qed

theorem recv_command_truthful_witness:
  "\<exists>E actions (s :: quic_server) ls h b. run_recv E [''--out'', ''d'', ''--port'', ''7''] = (0, actions) \<and> fst (cv_receive E ''d'')
     \<and> agreed_to toy_evp (receive_start (\<lambda>_. True) ''d'' True True (new_server 53317 Map.empty)) ls h
     \<and> qs_files s (path_append ''d'' (fth_name h)) = Some b"
proof -
  obtain s where s: "session_run toy_evp (receive_start (\<lambda>_. True) ''d'' True True (new_server 53317 Map.empty))
      (accepted_labels 1 2 abc_header [''abc'']) (Rf_returned True, s)"
    using accepted_session [OF toy_evp_streaming abc_wf, of "[''abc'']" "\<lambda>_. True" "''d''" True "new_server 53317 Map.empty" 1 2]
      abc_spec by auto
  define E where "E = demo_cli\<lparr>cv_is_directory := (\<lambda>_. True), cv_receive := (\<lambda>_. (True, qs_file_result s))\<rparr>"
  have E: "cv_is_directory E = (\<lambda>_. True)" "cv_receive E = (\<lambda>_. (True, qs_file_result s))" "cv_start E = cv_start demo_cli"
    by (simp_all add: E_def)
  have p: "parse_flags [''--out'', ''d'', ''--port'', ''7''] = Some [(''out'', ''d''), (''port'', ''7'')]"
    "reject_unknown_flags [(''out'', ''d''), (''port'', ''7'')] [''port'', ''out'', ''name'']"
    "flag_or [(''out'', ''d''), (''port'', ''7'')] ''port'' x = ''7''" "parse_port ''7'' = Some 7"
    "flag_set [(''out'', ''d''), (''port'', ''7'')] ''out''" for x
    by (code_simp | simp add: flag_or_def)+
  have "fst (run_recv E [''--out'', ''d'', ''--port'', ''7'']) = 0"
    by (simp add: run_recv_def p E demo_cli_def Let_def)
  then obtain actions where a: "run_recv E [''--out'', ''d'', ''--port'', ''7''] = (0, actions)" by (metis prod.collapse)
  have run: "session_run toy_evp (receive_start (cv_is_directory E) ''d'' True True (new_server 53317 Map.empty))
      (accepted_labels 1 2 abc_header [''abc'']) (Rf_returned (fst (cv_receive E ''d'')), s)"
    using s by (simp add: E)
  have "map_of [(''out'', ''d''), (''port'', ''7'')] ''out'' = Some ''d''" "snd (cv_receive E ''d'') = qs_file_result s"
    by (simp_all add: E)
  from recv_command_truthful [OF a p(1) this(1) run accepted_one_stream this(2)] obtain h b where
    "agreed_to toy_evp (receive_start (\<lambda>_. True) ''d'' True True (new_server 53317 Map.empty))
       (accepted_labels 1 2 abc_header [''abc'']) h \<and> qs_files s (path_append ''d'' (fth_name h)) = Some b"
    unfolding E fst_conv if_True by blast
  moreover have "fst (cv_receive E ''d'')" by (simp add: E)
  ultimately show ?thesis using a by blast
qed

text \<open>
  C19: Exit code 0 of \<open>lft send\<close> is earned. When the command ends with 0 and its client answered as
  some run of \<open>send_file\<close> does, then the file given with \<open>--file\<close> was read, the receiver answered
  \<open>ACCEPT\<close> and \<open>OK\<close>, and the header of that file and its whole contents went out, with the end of
  the stream marked once.
\<close>

theorem send_command_truthful:
  assumes "run_send E args = (0, actions)" and "sent_by_engine evp C info fs s0 tty E" and "replies_inv s0"
  shows "\<exists>flags p content ls s cs. parse_flags args = Some flags \<and> map_of flags ''file'' = Some p
    \<and> fs p = Some content
    \<and> send_run (file_job evp fs p content tty) (send_file evp C (info p) fs p s0) ls (Sd_returned True, s)
    \<and> starts_with (qc_decision_buf s) ''ACCEPT'' \<and> starts_with (qc_file_ack s) ''OK''
    \<and> client_sends s = client_sends s0
        @ (u32_part (encode_file_header (sj_header (file_job evp fs p content tty))), False) # cs
    \<and> concat (map fst cs) = content \<and> snd (last cs) \<and> (\<forall>c \<in> set (butlast cs). \<not> snd c)"
proof -
  obtain flags p where f: "parse_flags args = Some flags" "map_of flags ''file'' = Some p" "cv_send E p"
    using send_zero_facts [OF assms(1)] by blast
  obtain content where c: "fs p = Some content" "pi_size (info p) = Some (of_nat (length content))"
      "length content < 2 ^ 64"
    using assms(2) f(3) by (cases "fs p") (auto simp: sent_by_engine_def)
  have "\<exists>ls s. send_run (file_job evp fs p content tty) (send_file evp C (info p) fs p s0) ls
      (Sd_returned (cv_send E p), s)"
    using assms(2) c(1) unfolding sent_by_engine_def by blast
  then obtain ls s where s: "send_run (file_job evp fs p content tty) (send_file evp C (info p) fs p s0) ls
      (Sd_returned True, s)"
    unfolding eqTrueI [OF f(3)] by blast
  from send_file_true [OF s c(2,3) assms(3) refl] obtain cs where
    "client_sends s = client_sends s0 @ (u32_part (encode_file_header (sj_header (file_job evp fs p content tty))), False) # cs"
    "concat (map fst cs) = content" "snd (last cs)" "\<forall>c \<in> set (butlast cs). \<not> snd c"
    "starts_with (qc_decision_buf s) ''ACCEPT''" "starts_with (qc_file_ack s) ''OK''" by blast
  with f(1,2) c(1) s show ?thesis by blast
qed

theorem send_command_truthful_witness:
  "\<exists>E actions s cs h. run_send E [''--host'', ''h'', ''--file'', ''d/a.txt'', ''--port'', ''7''] = (0, actions)
     \<and> client_sends s = h # cs \<and> concat (map fst cs) = ''abc''"
proof -
  let ?fs = "[''d/a.txt'' \<mapsto> ''abc'']"
  let ?info = "\<lambda>_. \<lparr>pi_exists = True, pi_directory = False, pi_regular = True, pi_size = Some 3\<rparr>"
  define E where "E = demo_cli\<lparr>cv_send := (\<lambda>p. p = ''d/a.txt'')\<rparr>"
  obtain ls t where "send_run (file_job toy_evp ?fs ''d/a.txt'' ''abc'' False)
      (send_file toy_evp (good_client 2) (?info ''d/a.txt'') ?fs ''d/a.txt'' demo_client) ls (Sd_returned True, t)"
    by (rule demo_file_run)
  then have engine: "sent_by_engine toy_evp (good_client 2) ?info ?fs demo_client False E"
    by (auto simp: sent_by_engine_def E_def)
  have "fst (run_send E [''--host'', ''h'', ''--file'', ''d/a.txt'', ''--port'', ''7'']) = 0"
  proof -
    have p: "parse_flags [''--host'', ''h'', ''--file'', ''d/a.txt'', ''--port'', ''7''] = Some [(''host'', ''h''), (''file'', ''d/a.txt''), (''port'', ''7'')]"
      "reject_unknown_flags [(''host'', ''h''), (''file'', ''d/a.txt''), (''port'', ''7'')] [''host'', ''to'', ''port'', ''file'']"
      "flag_set [(''host'', ''h''), (''file'', ''d/a.txt''), (''port'', ''7'')] ''host''"
      "\<not> flag_set [(''host'', ''h''), (''file'', ''d/a.txt''), (''port'', ''7'')] ''to''"
      "flag_set [(''host'', ''h''), (''file'', ''d/a.txt''), (''port'', ''7'')] ''file''"
      "flag_or [(''host'', ''h''), (''file'', ''d/a.txt''), (''port'', ''7'')] ''file'' [] = ''d/a.txt''"
      "flag_or [(''host'', ''h''), (''file'', ''d/a.txt''), (''port'', ''7'')] ''port'' x = ''7''" "parse_port ''7'' = Some 7" for x
      by (code_simp | simp add: flag_or_def)+
    show ?thesis by (simp add: run_send_def p E_def demo_cli_def Let_def)
  qed
  then obtain actions where a: "run_send E [''--host'', ''h'', ''--file'', ''d/a.txt'', ''--port'', ''7''] = (0, actions)"
    by (metis prod.collapse)
  have none: "client_sends demo_client = []" by (simp add: demo_client_def new_client_def io_init_def)
  from send_command_truthful [OF a engine demo_ready(2)] obtain p content s h cs where
    r: "?fs p = Some content" "client_sends s = client_sends demo_client @ h # cs" "concat (map fst cs) = content"
    by blast
  then have "client_sends s = h # cs" "concat (map fst cs) = ''abc''" using none by (auto split: if_splits)
  then show ?thesis using a by blast
qed

end
