(* ===== verification/Cli_Console.thy ===== *)
theory Cli_Console
  imports Cli
begin

text \<open>
  What the commands of \<open>src/main.cpp\<close> print: the usage, the banner of \<open>recv\<close> with the names and
  addresses a sender can use, and the reports at the end of a command, which carry the exit code.
  A write is one text to standard output or standard error. Texts are UTF-8.
\<close>

section \<open>This machine\<close>

text \<open>An entry of \<open>getifaddrs\<close>: the family of its address if it has one, its flags, and what
  \<open>inet_ntop\<close> makes of the address.\<close>

record if_entry =
  if_family :: "int option"
  if_flags :: u32
  if_text :: "bytes option"

definition af_inet :: int where "af_inet = 2"
definition iff_up :: u32 where "iff_up = 1"
definition iff_loopback :: u32 where "iff_loopback = 8"

unbundle bit_operations_syntax

fun ipv4s_of :: "if_entry list \<Rightarrow> bytes list" where
  "ipv4s_of [] = []"
| "ipv4s_of (ifa # rest) =
     (if if_family ifa \<noteq> Some af_inet then ipv4s_of rest
      else if (if_flags ifa AND iff_up) = 0 \<or> (if_flags ifa AND iff_loopback) \<noteq> 0 then ipv4s_of rest
      else case if_text ifa of None \<Rightarrow> ipv4s_of rest | Some t \<Rightarrow> t # ipv4s_of rest)"

definition local_ipv4s :: "if_entry list option \<Rightarrow> bytes list" where
  "local_ipv4s interfaces = (case interfaces of None \<Rightarrow> [] | Some ifs \<Rightarrow> ipv4s_of ifs)"

definition local_hostname :: "bytes option \<Rightarrow> bytes" where
  "local_hostname answer = (case answer of None \<Rightarrow> ''this device'' | Some n \<Rightarrow> n)"

section \<open>Texts\<close>

datatype console =
    Out bytes
  | Err bytes

definition quoted :: "bytes \<Rightarrow> bytes" where
  "quoted s = [CHR 0x22] @ s @ [CHR 0x22]"

definition port_text :: "u16 \<Rightarrow> bytes" where
  "port_text port = nat_to_dec (unat port)"

definition usage_text :: bytes where
  "usage_text = concat (map (\<lambda>l. l @ [NL])
     [''LFT '' @ [CHR 0xE2, CHR 0x80, CHR 0x94] @ '' LAN File Transfer'', [],
      ''Usage:'',
      ''  lft recv --out <dir> [--port <n>] [--name <device>]'',
      ''  lft send --to <device> --file <path>'',
      ''  lft send --host <ip> --file <path> [--port <n>]'',
      ''  lft list'', [],
      ''Commands:'',
      ''  recv    Receive one file and save it into <dir>.'',
      ''  send    Send one file to a discovered device (--to) or an IP (--host).'',
      ''  list    Show LFT receivers discovered on the LAN.'', [],
      ''Options:'',
      ''  --to <device>  Receiver device name as shown by `lft list` (send only).'',
      ''  --host <ip>    Receiver IP address (send only).'',
      ''  --port <n>     QUIC listen port (default '' @ port_text k_default_port @ '').'',
      ''  --file <path>  File to send (send only).'',
      ''  --out <dir>    Directory to save into (recv only).'',
      ''  --name <name>  Advertised device name (recv only; default: hostname).'',
      ''  -h, --help     Show this help.''])"

section \<open>Receiving\<close>

text \<open>From the listening server to the wait: \<open>advertised\<close> says whether the device is announced.\<close>

definition recv_banner ::
  "u16 \<Rightarrow> path \<Rightarrow> bytes \<Rightarrow> bool \<Rightarrow> bytes option \<Rightarrow> if_entry list option \<Rightarrow> console list" where
  "recv_banner port out_dir advertised_name advertised host interfaces =
     (let shown = (if advertised_name = [] then local_hostname host else advertised_name);
          ips = local_ipv4s interfaces
      in [Out (''[recv] listening on port '' @ port_text port @ '' (all interfaces), saving into ''
            @ quoted out_dir @ [NL])]
       @ (if advertised
          then [Out (''  discoverable as '' @ quoted shown @ '' '' @ [CHR 0xE2, CHR 0x80, CHR 0x94]
                  @ '' on another machine, run:'' @ [NL]
                  @ ''    lft send --to '' @ quoted shown @ '' --file <path>'' @ [NL])]
          else [Out (''  (LAN discovery unavailable; use manual IP below)'' @ [NL])])
       @ (if ips = [] then [Out (''  (could not determine this machine's LAN IP)'' @ [NL])]
          else Out (''  or by IP:'' @ [NL])
            # map (\<lambda>ip. Out (''    lft send --host '' @ ip @ '' --port '' @ port_text port @ '' --file <path>'' @ [NL])) ips)
       @ [Out (''  waiting for sender...'' @ [NL])])"

text \<open>After \<open>receive_file\<close>: the exit code and the last text.\<close>

definition recv_report :: "bool \<Rightarrow> file_receive_result \<Rightarrow> int \<times> console" where
  "recv_report ok result =
     (if \<not> ok then
        (if frr_rejected result then (0, Out (''declined the transfer'' @ [NL]))
         else (1, Err (''error: receive failed''
                 @ (if frr_error result \<noteq> [] then '': '' @ frr_error result else []) @ [NL])))
      else (0, Out (''received '' @ quoted (frr_path result) @ '' ('' @ nat_to_dec (unat (frr_bytes_received result))
             @ '' bytes, SHA-256 verified)'' @ [NL])))"

section \<open>Sending and listing\<close>

definition send_report :: "path \<Rightarrow> bytes \<Rightarrow> u16 \<Rightarrow> bool \<Rightarrow> bool \<Rightarrow> int \<times> console" where
  "send_report file_path host port ok rejected =
     (if \<not> ok then
        (1, Err ((if rejected then ''transfer rejected by receiver'' else ''error: transfer failed'') @ [NL]))
      else (0, Out (''sent '' @ quoted file_path @ '' to '' @ host @ '':'' @ port_text port
             @ '' (SHA-256 verified by receiver)'' @ [NL])))"

definition list_report :: "peer_info list \<Rightarrow> console list" where
  "list_report peers =
     (if peers = [] then
        [Out (''No receivers found. Make sure the other device is running `lft recv`.'' @ [NL])]
      else Out (''Found '' @ nat_to_dec (length peers) @ '' receiver(s):'' @ [NL])
        # map (\<lambda>p. Out (''  '' @ quoted (pe_name p) @ ''  ('' @ pe_host p @ '':'' @ port_text (pe_port p) @ '')'' @ [NL]
              @ ''    lft send --to '' @ quoted (pe_name p) @ '' --file <path>'' @ [NL])) peers)"

section \<open>Facts\<close>

text \<open>Only usable addresses are offered: up, not the loopback, IPv4, each in the system's order.\<close>

lemma local_ipv4s_usable:
  "t \<in> set (local_ipv4s (Some ifs)) \<Longrightarrow>
     \<exists>ifa \<in> set ifs. if_text ifa = Some t \<and> if_family ifa = Some af_inet \<and> bit (if_flags ifa) 0 \<and> \<not> bit (if_flags ifa) 3"
proof (induction ifs)
  case (Cons ifa ifs)
  have "(and (if_flags ifa) iff_up = 0) = (\<not> bit (if_flags ifa) 0)"
    "(and (if_flags ifa) iff_loopback = 0) = (\<not> bit (if_flags ifa) 3)"
    using and_exp_eq_0_iff_not_bit [of "if_flags ifa" 0] and_exp_eq_0_iff_not_bit [of "if_flags ifa" 3]
    by (simp_all add: iff_up_def iff_loopback_def)
  with Cons show ?case by (auto simp: local_ipv4s_def split: if_splits option.splits)
qed (simp add: local_ipv4s_def)

text \<open>The reports agree with the exit codes, and only a failure is written to standard error.\<close>

lemma report_streams:
  "fst (recv_report ok r) = 0 \<longleftrightarrow> (\<exists>t. snd (recv_report ok r) = Out t)"
  "fst (send_report f h p ok rej) = 0 \<longleftrightarrow> (\<exists>t. snd (send_report f h p ok rej) = Out t)"
  by (simp_all add: recv_report_def send_report_def)

lemma run_recv_report:
  assumes "run_recv E args = (code, actions)" and "Act_receive d \<in> set actions"
  shows "code = fst (recv_report (fst (cv_receive E d)) (snd (cv_receive E d)))"
  using assms
  by (auto simp: run_recv_def recv_report_def Let_def split: option.splits if_splits prod.splits)

lemma run_send_report:
  assumes "run_send E args = (code, actions)" and "Act_send_file f \<in> set actions"
  shows "code = fst (send_report f h p (cv_send E f) rejected)"
  using assms
  by (auto simp: run_send_def send_report_def Let_def split: option.splits if_splits sum.splits)

end
