(* ===== verification/Transfer_System.thy ===== *)
theory Transfer_System
  imports Prompted_Session Client_Outcome "HOL-Library.Sublist"
begin

text \<open>
  A whole transfer as one system: the thread of \<open>send_file\<close> with its callbacks, the thread of
  \<open>receive_file\<close> with its callbacks, and the one stream between the two machines. All steps of
  either side are interleaved. A QUIC stream is reliable and keeps its order, which is all that is
  assumed of the network: what a RECEIVE event carries is the next bytes the other side sent, in
  buffers of any size, and the end of the stream is reported after its last byte. Bytes may also
  never arrive, streams and connections may be lost, calls of msquic may fail, and every wait may
  end by its timeout.
\<close>

section \<open>State\<close>

record transfer =
  tr_sender :: "send_pc \<times> quic_client"
  tr_receiver :: "receive_pc \<times> quic_server"
  tr_opened :: bool \<comment> \<open>the receiver was told of the stream\<close>
  tr_received :: nat \<comment> \<open>bytes of the sender given to the receiver\<close>
  tr_replied :: nat \<comment> \<open>bytes of the receiver given to the sender\<close>

abbreviation server_sends :: "quic_server \<Rightarrow> (bytes \<times> bool) list" where
  "server_sends s \<equiv> sends_of (io_calls (qs_io s))"

abbreviation payload :: "(bytes \<times> bool) list \<Rightarrow> bytes" where
  "payload ms \<equiv> concat (map fst ms)"

definition to_receiver :: "transfer \<Rightarrow> bytes" where
  "to_receiver x = payload (client_sends (snd (tr_sender x)))"

definition to_sender :: "transfer \<Rightarrow> bytes" where
  "to_sender x = payload (server_sends (snd (tr_receiver x)))"

text \<open>The last message ended the stream.\<close>

definition ended :: "(bytes \<times> bool) list \<Rightarrow> bool" where
  "ended ms \<longleftrightarrow> ms \<noteq> [] \<and> snd (last ms)"

section \<open>Steps\<close>

text \<open>What an endpoint can do without the stream: its thread, completions, losses.\<close>

fun sender_alone :: "client_label \<Rightarrow> bool" where
  "sender_alone (S_stream h (Receive bs)) = False"
| "sender_alone (S_stream h PeerSendShutdown) = False"
| "sender_alone l = True"

fun receiver_alone :: "bool \<Rightarrow> session_label \<Rightarrow> bool" where
  "receiver_alone opened (L_stream h (Receive bs)) = False"
| "receiver_alone opened (L_stream h PeerSendShutdown) = False"
| "receiver_alone opened (L_stream h ev) = opened"
| "receiver_alone opened (L_connection c (PeerStreamStarted st)) = False"
| "receiver_alone opened l = True"

datatype net_label =
    N_open handle
  | N_sender client_label
  | N_receiver session_label
  | N_data "bytes list"
  | N_end
  | N_reply "bytes list"
  | N_reply_end

inductive net_step ::
  "'c evp_api \<Rightarrow> send_job \<Rightarrow> handle \<Rightarrow> transfer \<Rightarrow> net_label \<Rightarrow> transfer \<Rightarrow> bool"
  for evp job st where
  stream_opened:
    "\<not> tr_opened x \<Longrightarrow> session_step evp (tr_receiver x) (L_connection c (PeerStreamStarted st)) r \<Longrightarrow>
     net_step evp job st x (N_open c) (x\<lparr>tr_receiver := r, tr_opened := True\<rparr>)"
| sender_moves:
    "sender_alone l \<Longrightarrow> send_step job (tr_sender x) l s \<Longrightarrow>
     net_step evp job st x (N_sender l) (x\<lparr>tr_sender := s\<rparr>)"
| receiver_moves:
    "receiver_alone (tr_opened x) l \<Longrightarrow> session_step evp (tr_receiver x) l r \<Longrightarrow>
     net_step evp job st x (N_receiver l) (x\<lparr>tr_receiver := r\<rparr>)"
| data_arrives:
    "tr_opened x \<Longrightarrow> prefix (concat ds) (drop (tr_received x) (to_receiver x)) \<Longrightarrow>
     \<forall>d \<in> set ds. length d < 4294967296 \<Longrightarrow>
     session_step evp (tr_receiver x) (L_stream st (Receive ds)) r \<Longrightarrow>
     net_step evp job st x (N_data ds)
       (x\<lparr>tr_receiver := r, tr_received := tr_received x + length (concat ds)\<rparr>)"
| end_arrives:
    "tr_opened x \<Longrightarrow> tr_received x = length (to_receiver x) \<Longrightarrow> ended (client_sends (snd (tr_sender x))) \<Longrightarrow>
     session_step evp (tr_receiver x) (L_stream st PeerSendShutdown) r \<Longrightarrow>
     net_step evp job st x N_end (x\<lparr>tr_receiver := r\<rparr>)"
| reply_arrives:
    "prefix (concat ds) (drop (tr_replied x) (to_sender x)) \<Longrightarrow>
     send_step job (tr_sender x) (S_stream st (Receive ds)) s \<Longrightarrow>
     net_step evp job st x (N_reply ds)
       (x\<lparr>tr_sender := s, tr_replied := tr_replied x + length (concat ds)\<rparr>)"
| reply_end_arrives:
    "tr_replied x = length (to_sender x) \<Longrightarrow> ended (server_sends (snd (tr_receiver x))) \<Longrightarrow>
     send_step job (tr_sender x) (S_stream st PeerSendShutdown) s \<Longrightarrow>
     net_step evp job st x N_reply_end (x\<lparr>tr_sender := s\<rparr>)"

inductive net_run ::
  "'c evp_api \<Rightarrow> send_job \<Rightarrow> handle \<Rightarrow> transfer \<Rightarrow> net_label list \<Rightarrow> transfer \<Rightarrow> bool"
  for evp job st where
  net_nil: "net_run evp job st x [] x"
| net_cons: "net_step evp job st x l y \<Longrightarrow> net_run evp job st y ls z \<Longrightarrow> net_run evp job st x (l # ls) z"

inductive_simps net_nil_simps [simp]: "net_run evp job st x [] y"

text \<open>Both calls begin; nothing is on the stream yet.\<close>

definition net_start :: "send_pc \<times> quic_client \<Rightarrow> receive_pc \<times> quic_server \<Rightarrow> transfer" where
  "net_start s r = \<lparr>tr_sender = s, tr_receiver = r, tr_opened = False, tr_received = 0, tr_replied = 0\<rparr>"

lemma net_run_append:
  "net_run evp job st x ls y \<Longrightarrow> net_run evp job st y ms z \<Longrightarrow> net_run evp job st x (ls @ ms) z"
  by (induction rule: net_run.induct) (auto intro: net_cons)

lemma net_invariant:
  assumes "net_run evp job st x ls y" and "P x"
    and "\<And>x l y. net_step evp job st x l y \<Longrightarrow> P x \<Longrightarrow> P y"
  shows "P y"
  using assms by (induction rule: net_run.induct) auto

section \<open>Runs of one side are runs of the system\<close>

lemma sender_run_alone:
  assumes "send_run job s ls t" and "\<forall>l \<in> set ls. sender_alone l" and "tr_sender x = s"
  shows "net_run evp job st x (map N_sender ls) (x\<lparr>tr_sender := t\<rparr>)"
  using assms
proof (induction arbitrary: x rule: send_run.induct)
  case (send_nil s)
  then show ?case by simp
next
  case (send_cons s l t ls u)
  have "net_step evp job st x (N_sender l) (x\<lparr>tr_sender := t\<rparr>)"
    using send_cons.prems send_cons.hyps(1) by (intro sender_moves) simp_all
  moreover have "net_run evp job st (x\<lparr>tr_sender := t\<rparr>) (map N_sender ls) (x\<lparr>tr_sender := u\<rparr>)"
    using send_cons.IH [of "x\<lparr>tr_sender := t\<rparr>"] send_cons.prems by simp
  ultimately show ?case by (simp add: net_cons)
qed

lemma receiver_run_alone:
  assumes "session_run evp r ls t" and "\<forall>l \<in> set ls. receiver_alone (tr_opened x) l" and "tr_receiver x = r"
  shows "net_run evp job st x (map N_receiver ls) (x\<lparr>tr_receiver := t\<rparr>)"
  using assms
proof (induction arbitrary: x rule: session_run.induct)
  case (run_nil r)
  then show ?case by simp
next
  case (run_step r l t ls u)
  have "net_step evp job st x (N_receiver l) (x\<lparr>tr_receiver := t\<rparr>)"
    using run_step.prems run_step.hyps(1) by (intro receiver_moves) simp_all
  moreover have "net_run evp job st (x\<lparr>tr_receiver := t\<rparr>) (map N_receiver ls) (x\<lparr>tr_receiver := u\<rparr>)"
    using run_step.IH [of "x\<lparr>tr_receiver := t\<rparr>"] run_step.prems by simp
  ultimately show ?case by (simp add: net_cons)
qed

section \<open>What is sent stays sent\<close>

lemma send_begin_grows: "stream_send_begin E d fin s = (ok, t) \<Longrightarrow> prefix (client_sends s) (client_sends t)"
  using send_begin_cases(1) by simp

lemma send_chunk_grows: "prefix (client_sends s) (client_sends (snd (send_chunk E n sent input s)))"
  using send_begin_grows
  by (auto simp: send_chunk_def send_fail_def Let_def split: prod.splits)

lemma send_body_grows: "prefix (client_sends s) (client_sends (snd (send_body E job s)))"
  using send_begin_grows send_chunk_grows
  by (auto simp: send_body_def send_fail_def split: prod.splits option.splits)

lemma send_step_grows: "send_step job x l y \<Longrightarrow> prefix (client_sends (snd x)) (client_sends (snd y))"
proof (induction rule: send_step.induct)
  case (chunk_sent s sent input E)
  then show ?case
    using send_chunk_grows [of "report_progress job sent (fth_size (sj_header job)) s"] by simp
qed (simp_all add: send_fail_def send_body_grows)

lemma payload_grows: "prefix ms ns \<Longrightarrow> prefix (payload ms) (payload ns)"
  by (auto simp: prefix_def)

end
