(* ===== verification/Receiver_Follows.thy ===== *)
theory Receiver_Follows
  imports Transfer_System
begin

text \<open>
  The receiver as a function of the bytes it was given: how far it is with a stream that starts
  with an encoded header and goes on with a prefix of a file's contents. The relation holds under
  every interleaving and every failure, until an I/O error is recorded; then the transfer cannot
  end well any more.
\<close>

section \<open>Following the stream\<close>

text \<open>\<open>D\<close> is what was given so far, \<open>h\<close> the header, \<open>q\<close> where the file goes.\<close>

definition waits_for_header :: "file_transfer_header \<Rightarrow> bytes \<Rightarrow> quic_server \<Rightarrow> bool" where
  "waits_for_header h D s \<longleftrightarrow> \<not> qs_header_parsed s \<and> \<not> qs_file_accepted s \<and> qs_file_out s = None
     \<and> qs_bytes_written s = 0
     \<and> (qs_receiving_file s \<longrightarrow> qs_receive_buffer s = D \<and> length D < length (encode_file_header h))"

definition has_header :: "file_transfer_header \<Rightarrow> path \<Rightarrow> quic_server \<Rightarrow> bool" where
  "has_header h q s \<longleftrightarrow> qs_header_parsed s \<and> qs_file_header s = h \<and> qs_output_path s = q"

definition waits_for_answer :: "file_transfer_header \<Rightarrow> path \<Rightarrow> bytes \<Rightarrow> quic_server \<Rightarrow> bool" where
  "waits_for_answer h q D s \<longleftrightarrow> has_header h q s \<and> \<not> qs_file_accepted s \<and> qs_bytes_written s = 0
     \<and> (qs_receiving_file s \<longrightarrow> D = encode_file_header h)"

definition stores_body :: "file_transfer_header \<Rightarrow> path \<Rightarrow> bytes \<Rightarrow> bytes \<Rightarrow> quic_server \<Rightarrow> bool" where
  "stores_body h q content D s \<longleftrightarrow> has_header h q s \<and> qs_file_accepted s
     \<and> (\<forall>os. qs_file_out s = Some os \<longrightarrow> os_path os = q)
     \<and> (\<exists>B. prefix B content \<and> qs_files s q = Some B \<and> unat (qs_bytes_written s) = length B
          \<and> (qs_receiving_file s \<and> file_out_open s \<longrightarrow> D = encode_file_header h @ B))"

definition follows :: "file_transfer_header \<Rightarrow> path \<Rightarrow> bytes \<Rightarrow> bytes \<Rightarrow> quic_server \<Rightarrow> bool" where
  "follows h q content D s \<longleftrightarrow> qs_io_error s \<or> waits_for_header h D s \<or> waits_for_answer h q D s
     \<or> stores_body h q content D s"

lemmas follows_defs = follows_def waits_for_header_def waits_for_answer_def stores_body_def has_header_def

text \<open>A receiver that has stopped does not look at the stream.\<close>

lemma follows_deaf: "follows h q content D s \<Longrightarrow> \<not> qs_receiving_file s \<Longrightarrow> follows h q content D' s"
  unfolding follows_defs by blast

text \<open>The fields that matter.\<close>

definition same_progress :: "quic_server \<Rightarrow> quic_server \<Rightarrow> bool" where
  "same_progress s t \<longleftrightarrow> qs_io_error t = qs_io_error s \<and> qs_header_parsed t = qs_header_parsed s
     \<and> qs_file_accepted t = qs_file_accepted s \<and> qs_bytes_written t = qs_bytes_written s
     \<and> qs_file_header t = qs_file_header s \<and> qs_output_path t = qs_output_path s \<and> qs_files t = qs_files s
     \<and> qs_receive_buffer t = qs_receive_buffer s \<and> (qs_receiving_file t \<longrightarrow> qs_receiving_file s)
     \<and> qs_file_out t \<in> {qs_file_out s, map_option os_close (qs_file_out s)}"

lemma follows_same:
  assumes "same_progress s t" and "follows h q content D s"
  shows "follows h q content D t"
proof -
  have out: "qs_file_out t = qs_file_out s \<or> qs_file_out t = map_option os_close (qs_file_out s)"
    using assms(1) by (simp add: same_progress_def)
  then have o: "file_out_open t \<Longrightarrow> file_out_open s" "qs_file_out s = None \<Longrightarrow> qs_file_out t = None"
    by (cases "qs_file_out s"; auto simp: file_out_open_def os_close_def)+
  have p: "\<forall>os. qs_file_out t = Some os \<longrightarrow> os_path os = q" if "\<forall>os. qs_file_out s = Some os \<longrightarrow> os_path os = q"
    using out that by (auto simp: os_close_def)
  have f: "qs_io_error t = qs_io_error s" "qs_header_parsed t = qs_header_parsed s"
    "qs_file_accepted t = qs_file_accepted s" "qs_bytes_written t = qs_bytes_written s"
    "qs_file_header t = qs_file_header s" "qs_output_path t = qs_output_path s" "qs_files t = qs_files s"
    "qs_receive_buffer t = qs_receive_buffer s" "qs_receiving_file t \<Longrightarrow> qs_receiving_file s"
    using assms(1) by (auto simp: same_progress_def)
  from assms(2) consider "qs_io_error s" | "waits_for_header h D s" | "waits_for_answer h q D s"
    | "stores_body h q content D s" by (auto simp: follows_def)
  then show ?thesis
  proof cases
    case 2
    then have "waits_for_header h D t" using f o(2) by (auto simp: waits_for_header_def)
    then show ?thesis by (simp add: follows_def)
  next
    case 3
    then have "waits_for_answer h q D t" using f by (auto simp: waits_for_answer_def has_header_def)
    then show ?thesis by (simp add: follows_def)
  next
    case 4
    then obtain B where B: "prefix B content" "qs_files s q = Some B" "unat (qs_bytes_written s) = length B"
        "qs_receiving_file s \<and> file_out_open s \<longrightarrow> D = encode_file_header h @ B"
      by (auto simp: stores_body_def)
    have "has_header h q t" "qs_file_accepted t" using 4 f(2-6) by (simp_all add: stores_body_def has_header_def)
    moreover have "\<forall>os. qs_file_out t = Some os \<longrightarrow> os_path os = q"
      by (rule p) (use 4 in \<open>simp add: stores_body_def\<close>)
    moreover have "qs_files t q = Some B" "unat (qs_bytes_written t) = length B" using B f(4,7) by simp_all
    moreover have "qs_receiving_file t \<and> file_out_open t \<longrightarrow> D = encode_file_header h @ B"
      using B(4) f(9) o(1) by blast
    ultimately have "stores_body h q content D t" using B(1) unfolding stores_body_def by blast
    then show ?thesis by (simp add: follows_def)
  qed (simp add: follows_def f)
qed

section \<open>One buffer\<close>

lemma io_error_stays: "qs_io_error s \<Longrightarrow> qs_io_error (append_file_bytes E d s)"
proof (cases "qs_header_parsed s")
  case True
  moreover assume "qs_io_error s"
  ultimately show ?thesis by (simp add: append_parsed append_body_idle body_ready_def)
next
  case False
  moreover assume "qs_io_error s"
  ultimately show ?thesis
    by (auto simp: append_file_bytes_def try_parse_cases auto_accepted_def open_output_file_def
        append_body_idle body_ready_def set_error_def notify_file_waiter_def Let_def split: option.splits)
qed

lemma accepted_stays: "qs_file_accepted s \<Longrightarrow> qs_file_accepted (append_file_bytes E d s)"
  by (auto simp: append_file_bytes_def try_parse_file_header_def open_output_file_def set_error_def
      notify_file_waiter_def Let_def split: prod.splits)

text \<open>The header is not complete, or complete with this buffer.\<close>

lemma header_buffer:
  assumes w: "waits_for_header h D s" and r: "qs_receiving_file s" and wf: "wf_header h"
    and max: "length (encode_file_header h) \<le> k_max_header_bytes"
    and pre: "prefix (D @ d) (encode_file_header h)" and q: "target_path s h = q"
  shows "follows h q content (D @ d) (append_file_bytes E d s)"
proof (cases "D @ d = encode_file_header h")
  case False
  then have short: "length (D @ d) < length (encode_file_header h)"
    using prefix_length_less [of "D @ d"] pre by (simp add: strict_prefix_def)
  obtain rest where rest: "(D @ d) @ rest = encode_file_header h @ []" using pre by (auto simp: prefix_def)
  have "decode_opt (D @ d) = None" by (rule wire.dec_incomplete [OF wf rest short])
  then have "append_file_bytes E d s = s\<lparr>qs_receive_buffer := D @ d\<rparr>"
    using w r max short append_waits [of s d E] by (simp add: waits_for_header_def)
  then have "waits_for_header h (D @ d) (append_file_bytes E d s)"
    using w short by (simp add: waits_for_header_def)
  then show ?thesis by (simp add: follows_def)
next
  case True
  have dec: "decode_opt (D @ d) = Some (h, length (encode_file_header h))"
    unfolding True using wire.dec_enc [OF wf, of "[]"] by simp
  let ?s = "s\<lparr>qs_receive_buffer := D @ d\<rparr>"
  have app: "append_file_bytes E d s =
      (if qs_has_offer s then (with_header h ?s)\<lparr>qs_offer_ready := True, qs_receive_buffer := []\<rparr>
       else case open_output_file E (with_header h ?s) of
              (opened, s3) \<Rightarrow> if \<not> opened then s3\<lparr>qs_receive_buffer := []\<rparr>
                              else auto_accepted E (length (encode_file_header h)) s3)"
    using w r dec by (simp add: append_file_bytes_def try_parse_cases waits_for_header_def)
  have path: "qs_output_path (with_header h ?s) = q"
    using q by (cases "qs_output_is_dir s") (simp_all add: with_header_def target_path_def Let_def)
  show ?thesis
  proof (cases "qs_has_offer s")
    case True
    then have "waits_for_answer h q (D @ d) (append_file_bytes E d s)"
      using w path \<open>D @ d = encode_file_header h\<close>
      by (simp add: app waits_for_answer_def has_header_def waits_for_header_def)
    then show ?thesis by (simp add: follows_def)
  next
    case no: False
    show ?thesis
    proof (cases "env_open E q")
      case False
      then show ?thesis
        using no by (simp add: app follows_def open_output_file_def path set_error_def)
    next
      case opens: True
      let ?o = "snd (open_output_file E (with_header h ?s))"
      have "append_file_bytes E d s = auto_accepted E (length (encode_file_header h)) ?o"
        using no opens by (simp add: app open_output_file_def path)
      then have "stores_body h q content (D @ d) (append_file_bytes E d s)"
        using opens path \<open>D @ d = encode_file_header h\<close> w
        by (auto simp: stores_body_def has_header_def auto_accepted_def open_output_file_def file_truncate_def
            waits_for_header_def Let_def)
      then show ?thesis by (simp add: follows_def)
    qed
  qed
qed

text \<open>A buffer of the body.\<close>

lemma body_buffer:
  assumes b: "stores_body h q content D s" and r: "qs_receiving_file s" and nx: "\<not> qs_io_error s"
    and size: "unat (fth_size h) = length content" and d: "length d < 4294967296"
    and pre: "prefix (D @ d) (encode_file_header h @ content)"
  shows "follows h q content (D @ d) (append_file_bytes E d s)"
proof -
  have app: "append_file_bytes E d s = append_body_bytes E d s"
    using b by (simp add: append_parsed stores_body_def has_header_def)
  show ?thesis
  proof (cases "file_out_open s \<and> d \<noteq> []")
    case False
    then have "append_file_bytes E d s = s"
      using append_body_idle [of s d E] by (auto simp: app body_ready_def)
    moreover have "stores_body h q content (D @ d) s"
      using b False unfolding stores_body_def by auto
    ultimately show ?thesis by (simp add: follows_def)
  next
    case True
    obtain B where B: "qs_files s q = Some B" "unat (qs_bytes_written s) = length B"
        "D = encode_file_header h @ B"
      using b r True unfolding stores_body_def by blast
    have head: "qs_header_parsed s" "qs_file_header s = h" "qs_output_path s = q" "qs_file_accepted s"
      using b by (simp_all add: stores_body_def has_header_def)
    obtain os where os: "qs_file_out s = Some os" "os_is_open os"
      using True by (auto simp: file_out_open_def split: option.splits)
    have q: "os_path os = q" using b os by (simp add: stores_body_def)
    have Bd: "prefix (B @ d) content" using pre by (simp add: B(3))
    then have len: "length B + length d \<le> length content" by (auto dest: prefix_length_le)
    then have "unat (qs_bytes_written s) = min (length B) (unat (fth_size (qs_file_header s)))"
      using B(2) size head by simp
    moreover have d64: "length d < 18446744073709551616" using d by simp
    ultimately have room: "unat (body_to_write s (length d)) = length d" "\<not> body_overflows s (length d)"
      using body_room [of s "length B" "length d"] len size head by simp_all
    have le: "qs_bytes_written s \<le> fth_size (qs_file_header s)"
      using B(2) size head len by (simp add: word_le_nat_alt)
    have pos: "0 < body_to_write s (length d)" using room(1) True by (auto simp: word_less_nat_alt)
    show ?thesis
    proof (cases "env_write E (qs_bytes_written s)")
      case False
      then have "qs_io_error (append_body_bytes E d s)"
        using True os head nx pos room(2)
        by (simp add: append_body_bytes_def write_out_def set_error_def file_out_open_def Let_def)
      then show ?thesis by (simp add: app follows_def)
    next
      case good: True
      have "stores_body h q content (D @ d) (append_body_bytes E d s)"
      proof -
        have "qs_files (append_body_bytes E d s) q = Some (B @ d)"
          using True os head nx pos room good B(1) q
          by (simp add: append_body_bytes_def write_out_def file_extend_def file_out_open_def Let_def)
        moreover have "unat (qs_bytes_written (append_body_bytes E d s)) = length (B @ d)"
          using True os head nx pos room good B(2) body_to_write_bounds(3) [OF le, of "length d"]
          by (simp add: append_body_bytes_def write_out_def file_out_open_def Let_def)
        ultimately show ?thesis
          using Bd head os q B(3) unfolding stores_body_def has_header_def by auto
      qed
      then show ?thesis by (simp add: app follows_def)
    qed
  qed
qed

section \<open>Events and the calling thread\<close>

text \<open>Where the file goes does not change during a call.\<close>

lemma target_fields:
  "qs_output_is_dir t = qs_output_is_dir s \<Longrightarrow> qs_output_dir t = qs_output_dir s \<Longrightarrow>
   (\<not> qs_output_is_dir s \<Longrightarrow> qs_output_path t = qs_output_path s) \<Longrightarrow> target_path t h = target_path s h"
  by (simp add: target_path_def)

lemma target_append [simp]: "target_path (append_file_bytes E d s) h = target_path s h"
proof (cases "qs_header_parsed s")
  case True
  then show ?thesis by (simp add: append_parsed target_path_def)
next
  case False
  let ?s = "s\<lparr>qs_receive_buffer := qs_receive_buffer s @ d\<rparr>"
  have w: "qs_output_path (with_header a ?s) = qs_output_path s" if "\<not> qs_output_is_dir s" for a
    using that by (simp add: with_header_def Let_def)
  from False w show ?thesis
    by (auto simp: append_file_bytes_def try_parse_cases auto_accepted_def target_path_def case_prod_beta
        set_error_def notify_file_waiter_def Let_def split: option.split)
qed

lemma target_fold [simp]: "target_path (fold (append_file_bytes E) ds s) h = target_path s h"
  by (induction ds arbitrary: s) simp_all

lemma target_step:
  "session_step evp x l y \<Longrightarrow> target_path (snd y) h = target_path (snd x) h"
proof (induction rule: session_step.induct)
  case (stream_callback pc s g ev E)
  then show ?case
    by (cases ev) (auto simp: on_stream_event_def finish_eq peer_aborted_def set_error_def
        notify_file_waiter_def api_call_def Let_def intro!: target_fields)
next
  case (connection_callback pc s c cev)
  then show ?case
    by (cases cev) (auto simp: on_connection_event_def api_call_def Let_def intro!: target_fields)
next
  case (listener_callback pc s lev ok)
  then show ?case
    by (cases lev) (auto simp: on_listener_event_def api_call_def Let_def intro!: target_fields)
qed (auto simp: stop_receiving_def reject_offer_def accept_offer_def case_prod_beta Let_def intro!: target_fields)

lemma follows_append:
  assumes "follows h q content D s" and "qs_receiving_file s" and "wf_header h"
    and "length (encode_file_header h) \<le> k_max_header_bytes" and "unat (fth_size h) = length content"
    and "target_path s h = q" and "length d < 4294967296"
    and "prefix (D @ d) (encode_file_header h @ content)"
    and "qs_file_accepted s \<or> prefix (D @ d) (encode_file_header h)"
  shows "follows h q content (D @ d) (append_file_bytes E d s)"
proof -
  consider "qs_io_error s" | "waits_for_header h D s" | "waits_for_answer h q D s"
    | "\<not> qs_io_error s" "stores_body h q content D s" using assms(1) by (auto simp: follows_def)
  then show ?thesis
  proof cases
    case 1
    then show ?thesis by (simp add: follows_def io_error_stays)
  next
    case 2
    then show ?thesis using assms by (intro header_buffer) (auto simp: waits_for_header_def)
  next
    case 3
    then have "d = []" using assms(2,9) by (auto simp: waits_for_answer_def)
    moreover have "append_file_bytes E d s = s"
      using 3 by (simp add: append_parsed append_body_idle body_ready_def waits_for_answer_def has_header_def)
    ultimately show ?thesis using assms(1) by simp
  next
    case 4
    then show ?thesis using assms by (intro body_buffer)
  qed
qed

lemma follows_fold:
  assumes "wf_header h" and "length (encode_file_header h) \<le> k_max_header_bytes"
    and "unat (fth_size h) = length content" and "\<forall>d \<in> set ds. length d < 4294967296"
  shows "follows h q content D s \<Longrightarrow> qs_receiving_file s \<Longrightarrow> target_path s h = q \<Longrightarrow>
    prefix (D @ concat ds) (encode_file_header h @ content) \<Longrightarrow>
    qs_file_accepted s \<or> prefix (D @ concat ds) (encode_file_header h) \<Longrightarrow>
    follows h q content (D @ concat ds) (fold (append_file_bytes E) ds s)"
  using assms(4)
proof (induction ds arbitrary: D s)
  case (Cons d ds)
  have p: "prefix (D @ d) (encode_file_header h @ content)"
    "qs_file_accepted s \<or> prefix (D @ d) (encode_file_header h)"
    using Cons.prems(4,5) append_prefixD [of "D @ d" "concat ds"] by auto
  have "follows h q content (D @ d) (append_file_bytes E d s)"
    using Cons.prems p assms by (intro follows_append) auto
  then show ?case
    using Cons.IH [of "D @ d" "append_file_bytes E d s"] Cons.prems accepted_stays [of s E d] by auto
qed simp

end
