(* ===== verification/Transfer_Invariant.thy ===== *)
theory Transfer_Invariant
  imports Receiver_Follows
begin

text \<open>
  The invariant of a whole transfer. The receiver has sent ACCEPT only for a transfer it accepted
  and OK only for one that it checked; the sender has sent the header first and bytes of the file
  only after ACCEPT; and what the receiver has stored is what the sender sent.
\<close>

section \<open>What the receiver has said\<close>

definition said :: "bytes \<Rightarrow> quic_server \<Rightarrow> bool" where
  "said m s \<longleftrightarrow> m \<in> set (map fst (server_sends s))"

definition honest :: "'c evp_api \<Rightarrow> quic_server \<Rightarrow> bool" where
  "honest evp s \<longleftrightarrow> (\<forall>m. said m s \<longrightarrow> m \<in> {msg_accept, msg_reject, msg_ok, msg_fail})
     \<and> (said msg_accept s \<longrightarrow> qs_file_accepted s) \<and> (said msg_ok s \<longrightarrow> sealed evp s)"

lemma copy_sends:
  "sends_of (io_calls (snd (stream_send_copy E st d f io)))
     = sends_of (io_calls io) @ (if fst (stream_send_copy E st d f io) then [(u32_part d, f)] else [])"
  using stream_send_copy_cases [of E st d f io "fst (stream_send_copy E st d f io)" "snd (stream_send_copy E st d f io)"]
  by auto

lemma said_io: "said m (s\<lparr>qs_io := snd (stream_send_copy E st d f (qs_io s))\<rparr>) \<Longrightarrow> said m s \<or> m = u32_part d"
  by (auto simp: said_def copy_sends split: if_splits)

lemma said_same: "server_sends t = server_sends s \<Longrightarrow> said m t = said m s"
  by (simp add: said_def)

text \<open>A step that says something new, or nothing.\<close>

lemma honest_more:
  assumes "honest evp s" and "server_sends t = server_sends s @ ms"
    and "\<forall>m \<in> set ms. fst m \<in> {msg_accept, msg_reject, msg_ok, msg_fail}"
    and "qs_file_accepted s \<Longrightarrow> qs_file_accepted t" and "sealed evp s \<Longrightarrow> sealed evp t"
    and "msg_accept \<in> fst ` set ms \<Longrightarrow> qs_file_accepted t" and "msg_ok \<in> fst ` set ms \<Longrightarrow> sealed evp t"
  shows "honest evp t"
proof -
  have said: "said m t \<longleftrightarrow> said m s \<or> m \<in> fst ` set ms" for m by (auto simp: said_def assms(2))
  have "m \<in> {msg_accept, msg_reject, msg_ok, msg_fail}" if "said m t" for m
    using that assms(1,3) unfolding said honest_def by blast
  moreover have "qs_file_accepted t" if "said msg_accept t"
    using that assms(1,4,6) unfolding said honest_def by blast
  moreover have "sealed evp t" if "said msg_ok t"
    using that assms(1,5,7) unfolding said honest_def by blast
  ultimately show ?thesis unfolding honest_def by blast
qed

lemma honest_quiet:
  assumes "honest evp s" and "server_sends t = server_sends s"
    and "qs_file_accepted s \<Longrightarrow> qs_file_accepted t" and "sealed evp s \<Longrightarrow> sealed evp t"
  shows "honest evp t"
  using assms by (intro honest_more [of evp s t "[]"]) simp_all

lemma append_says:
  "server_sends (append_file_bytes E d s) = server_sends s
   \<or> (server_sends (append_file_bytes E d s) = server_sends s @ [(msg_accept, False)]
      \<and> qs_file_accepted (append_file_bytes E d s))"
proof (cases "qs_header_parsed s")
  case True
  then show ?thesis by (simp add: append_parsed)
next
  case False
  then show ?thesis
    by (auto simp: append_file_bytes_def try_parse_cases auto_accepted_def case_prod_beta copy_sends
        set_error_def notify_file_waiter_def Let_def split: option.split)
qed

lemma honest_append: "honest evp s \<Longrightarrow> honest evp (append_file_bytes E d s)"
proof -
  assume h: "honest evp s"
  have keep: "sealed evp s \<Longrightarrow> sealed evp (append_file_bytes E d s)" by (simp add: sealed_append)
  from append_says [of E d s] show ?thesis
  proof
    assume "server_sends (append_file_bytes E d s) = server_sends s"
    then show ?thesis by (intro honest_quiet [OF h] accepted_stays keep)
  next
    assume "server_sends (append_file_bytes E d s) = server_sends s @ [(msg_accept, False)]
      \<and> qs_file_accepted (append_file_bytes E d s)"
    then show ?thesis by (intro honest_more [OF h, of _ "[(msg_accept, False)]"] keep) simp_all
  qed
qed

lemma honest_fold: "honest evp s \<Longrightarrow> honest evp (fold (append_file_bytes E) ds s)"
  by (induction ds arbitrary: s) (simp_all add: honest_append)

lemma honest_finish:
  assumes "honest evp s" and "qs_file_accepted s \<or> qs_io_error s"
  shows "honest evp (finish_file_receive evp E g s)"
proof -
  let ?t = "finish_file_receive evp E g s"
  have sealed: "verdict_of evp s \<Longrightarrow> sealed evp ?t"
    using assms(2) finish_sealed [of s evp E g] by (auto simp: verdict_of_def verify_true)
  have "qs_io ?t = snd (ack_send evp E g s)" by (simp add: finish_eq)
  then have "server_sends ?t = server_sends s @ (if fst (ack_send evp E g s)
      then [(if verdict_of evp s then msg_ok else msg_fail, True)] else [])"
    by (simp add: ack_send_def copy_sends)
  then show ?thesis
    by (rule honest_more [OF assms(1)]) (auto intro: sealed dest: sealed_verdict split: if_splits)
qed

lemma honest_stream_event: "honest evp s \<Longrightarrow> honest evp (on_stream_event evp E g ev s)"
proof -
  assume h: "honest evp s"
  have q: "honest evp (on_stream_event evp E g ev s)"
    if "server_sends (on_stream_event evp E g ev s) = server_sends s"
      "qs_file_accepted (on_stream_event evp E g ev s) = qs_file_accepted s"
    using h that sealed_stream_event by (intro honest_quiet [OF h]) auto
  show ?thesis
  proof (cases ev)
    case (Receive ds)
    then show ?thesis using h by (simp add: on_stream_event_def honest_fold)
  next
    case PeerSendShutdown
    then show ?thesis using h by (auto simp: on_stream_event_def honest_finish)
  qed (rule q; simp add: on_stream_event_def free_block_def notify_file_waiter_def peer_aborted_def
      set_error_def api_call_def io_call_def Let_def)+
qed

text \<open>Every step but the start of a stream.\<close>

lemma honest_answer:
  assumes "honest evp s" and "checked evp (Rf_prompt h, s)"
  shows "honest evp (reject_offer E s)" and "honest evp (snd (accept_offer E s))"
proof -
  have no: "\<not> qs_file_accepted s" "\<not> sealed evp s"
    using assms(2) by (auto simp: checked_def session_inv_def sealed_def)
  have "server_sends (reject_offer E s) = server_sends s @
      (if fst (stream_send_copy (env_send E) (qs_file_stream s) msg_reject True (qs_io s)) then [(msg_reject, True)] else [])"
    by (simp add: reject_offer_def copy_sends Let_def)
  then show "honest evp (reject_offer E s)"
    by (rule honest_more [OF assms(1)]) (use no in \<open>auto split: if_splits\<close>)
  let ?o = "snd (open_output_file E s)"
  show "honest evp (snd (accept_offer E s))"
  proof (cases "fst (open_output_file E s)")
    case True
    then have "server_sends (snd (accept_offer E s)) = server_sends s"
      by (simp add: accept_offer_def case_prod_beta)
    then show ?thesis by (rule honest_quiet [OF assms(1)]) (use no in auto)
  next
    case False
    then have "server_sends (snd (accept_offer E s)) = server_sends s @
        (if fst (stream_send_copy (env_send E) (qs_file_stream ?o) msg_reject True (qs_io ?o)) then [(msg_reject, True)] else [])"
      by (simp add: accept_offer_def case_prod_beta copy_sends)
    then show ?thesis by (rule honest_more [OF assms(1)]) (use no in \<open>auto split: if_splits\<close>)
  qed
qed

lemma honest_accept:
  assumes "honest evp s" and "qs_file_accepted s"
  shows "honest evp (snd (server_send E st msg_accept False s))"
proof -
  have "server_sends (snd (server_send E st msg_accept False s)) = server_sends s @
      (if fst (stream_send_copy (env_send E) st msg_accept False (qs_io s)) then [(msg_accept, False)] else [])"
    by (simp add: copy_sends)
  then show ?thesis by (rule honest_more [OF assms(1)]) (use assms(2) in \<open>auto split: if_splits\<close>)
qed

lemma honest_stop: "honest evp s \<Longrightarrow> honest evp (stop_receiving s)"
  by (rule honest_quiet) (simp_all add: stop_receiving_def)

lemma honest_close: "honest evp s \<Longrightarrow> honest evp (close_file_out s)"
  by (rule honest_quiet) (auto simp: sealed_def closed_close)

lemma honest_connection:
  assumes "honest evp s" and "\<And>st. cev \<noteq> PeerStreamStarted st"
  shows "honest evp (on_connection_event c cev s)"
proof (rule honest_quiet [OF assms(1)])
  have no: "\<forall>st. cev \<noteq> PeerStreamStarted st" using assms(2) by blast
  show "server_sends (on_connection_event c cev s) = server_sends s"
    by (cases cev) (simp_all add: on_connection_event_def api_call_def io_call_def Let_def)
  show "qs_file_accepted (on_connection_event c cev s)" if "qs_file_accepted s"
    using that no by (cases cev) (simp_all add: on_connection_event_def api_call_def Let_def)
qed (rule sealed_connection_event [OF _ assms(2)])

lemma honest_listener:
  assumes "honest evp s"
  shows "honest evp (snd (on_listener_event ok lev s))"
proof (rule honest_quiet [OF assms])
  show "server_sends (snd (on_listener_event ok lev s)) = server_sends s"
    by (cases lev) (simp_all add: on_listener_event_def api_call_def io_call_def)
qed (simp_all add: sealed_listener_event)

lemma honest_step:
  assumes "session_step evp x l y" and "\<And>c st. l \<noteq> L_connection c (PeerStreamStarted st)"
    and "honest evp (snd x)" and "checked evp x" and "fst x = Rf_accepting \<Longrightarrow> qs_file_accepted (snd x)"
  shows "honest evp (snd y)"
  using assms
proof (induction rule: session_step.induct)
  case (connection_callback pc s c cev)
  then show ?case by (auto intro: honest_connection)
next
  case (answer_no h s E)
  then show ?case using honest_answer(1) [of evp s h E] by simp
next
  case (answer_yes h s E)
  then show ?case using honest_answer(2) [of evp s h E] by simp
next
  case (send_accept s E)
  then show ?case using honest_accept [of evp s E "qs_file_stream s"] by simp
qed (simp_all add: honest_stream_event honest_listener honest_stop honest_close)

section \<open>The receiver's steps\<close>

lemma accepted_fold: "qs_file_accepted s \<Longrightarrow> qs_file_accepted (fold (append_file_bytes E) ds s)"
  by (induction ds arbitrary: s) (simp_all add: accepted_stays)

lemma accepted_step:
  assumes "session_step evp x l y" and "\<And>c st. l \<noteq> L_connection c (PeerStreamStarted st)"
    and "fst x = Rf_accepting \<Longrightarrow> qs_file_accepted (snd x)"
  shows "fst y = Rf_accepting \<Longrightarrow> qs_file_accepted (snd y)"
  using assms
proof (induction rule: session_step.induct)
  case (stream_callback pc s g ev E)
  then show ?case
    by (cases ev) (auto simp: on_stream_event_def accepted_fold notify_file_waiter_def api_call_def Let_def)
next
  case (connection_callback pc s c cev)
  then show ?case by (cases cev) (auto simp: on_connection_event_def api_call_def Let_def)
qed (auto simp: accept_offer_def case_prod_beta split: if_splits)

lemma follows_accept:
  assumes "follows h q content D s" and "qs_header_parsed s" and "\<not> qs_file_accepted s"
  shows "follows h q content D (snd (accept_offer E s))"
proof -
  consider "qs_io_error s" | "waits_for_answer h q D s"
    using assms by (auto simp: follows_def waits_for_header_def stores_body_def)
  then show ?thesis
  proof cases
    case 1
    then have "qs_io_error (snd (accept_offer E s))"
      by (simp add: accept_offer_def open_output_file_def set_error_def)
    then show ?thesis by (simp add: follows_def)
  next
    case 2
    show ?thesis
    proof (cases "env_open E q")
      case True
      then have "stores_body h q content D (snd (accept_offer E s))"
        using 2 by (auto simp: accept_offer_def open_output_file_def stores_body_def waits_for_answer_def
            has_header_def file_truncate_def)
      then show ?thesis by (simp add: follows_def)
    next
      case False
      then have "qs_io_error (snd (accept_offer E s))"
        using 2 by (simp add: accept_offer_def open_output_file_def set_error_def waits_for_answer_def has_header_def)
      then show ?thesis by (simp add: follows_def)
    qed
  qed
qed

lemma close_same: "same_progress s (close_file_out s)"
  by (simp add: same_progress_def)

lemma finish_same: "same_progress s (finish_file_receive evp E g s)"
  by (simp add: same_progress_def)

lemma aborted_same: "same_progress s (peer_aborted s)"
  by (simp add: same_progress_def peer_aborted_def set_error_def notify_file_waiter_def Let_def)

lemma stream_event_same:
  "\<forall>ds. ev \<noteq> Receive ds \<Longrightarrow> same_progress s (on_stream_event evp E g ev s)"
proof (cases ev)
  case PeerSendAborted
  then show ?thesis by (simp add: on_stream_event_def aborted_same)
next
  case PeerReceiveAborted
  then show ?thesis by (simp add: on_stream_event_def aborted_same)
qed (simp_all add: on_stream_event_def same_progress_def notify_file_waiter_def api_call_def Let_def)

lemma follows_step:
  assumes "session_step evp x l y" and "\<And>c st. l \<noteq> L_connection c (PeerStreamStarted st)"
    and "\<And>g ds. l \<noteq> L_stream g (Receive ds)" and "checked evp x" and "follows h q content D (snd x)"
  shows "follows h q content D (snd y)"
  using assms
proof (induction rule: session_step.induct)
  case (stream_callback pc s g ev E)
  then have "\<forall>ds. ev \<noteq> Receive ds" by blast
  then show ?case using follows_same [OF stream_event_same] stream_callback.prems(4) by auto
next
  case (connection_callback pc s c cev)
  then have "same_progress s (on_connection_event c cev s)"
    by (cases cev) (auto simp: same_progress_def on_connection_event_def api_call_def Let_def)
  then show ?case using connection_callback.prems(4) by (auto intro: follows_same)
next
  case (listener_callback pc s lev ok)
  have "same_progress s (snd (on_listener_event ok lev s))"
    by (cases lev) (simp_all add: same_progress_def on_listener_event_def api_call_def)
  then show ?case using listener_callback.prems(4) by (auto intro: follows_same)
next
  case (answer_no g s E)
  have "same_progress s (reject_offer E s)" by (simp add: same_progress_def reject_offer_def Let_def)
  then show ?case using answer_no.prems(4) by (auto intro: follows_same)
next
  case (answer_yes g s E)
  then have "qs_header_parsed s" "\<not> qs_file_accepted s"
    by (auto simp: checked_def checked_server_def linked_def session_inv_def)
  then show ?case using follows_accept answer_yes.prems(4) by simp
qed (auto elim!: follows_same [rotated] simp: same_progress_def stop_receiving_def)

text \<open>Data that arrives.\<close>

lemma follows_receive:
  assumes "follows h q content D s" and "wf_header h" and "length (encode_file_header h) \<le> k_max_header_bytes"
    and "unat (fth_size h) = length content" and "target_path s h = q" and "\<forall>d \<in> set ds. length d < 4294967296"
    and "prefix (D @ concat ds) (encode_file_header h @ content)"
    and "qs_file_accepted s \<or> prefix (D @ concat ds) (encode_file_header h)"
  shows "follows h q content (D @ concat ds) (on_stream_event evp E g (Receive ds) s)"
  using assms by (auto simp: on_stream_event_def intro: follows_fold follows_deaf)

end
