(* ===== verification/Transfer_Guarantees.thy ===== *)
theory Transfer_Guarantees
  imports Transfer_Invariant
begin

text \<open>
  The sender's side of a whole transfer, what either side can conclude from a letter of the
  other's replies, and the invariant that puts the two together, kept by every step of the system.
\<close>

section \<open>What the sender has heard\<close>

text \<open>\<open>R\<close> is what the receiver said, of which \<open>n\<close> bytes arrived: first the decision, then the
  acknowledgement.\<close>

definition heard :: "nat \<Rightarrow> bytes \<Rightarrow> quic_client \<Rightarrow> bool" where
  "heard n R s \<longleftrightarrow> n \<le> length R \<and> take n R = qc_decision_buf s @ qc_file_ack s
     \<and> (qc_awaiting_decision s \<longrightarrow> qc_file_ack s = [])"

lemma heard_more: "heard n R s \<Longrightarrow> prefix R R' \<Longrightarrow> heard n R' s"
  by (auto simp: heard_def prefix_def)

definition same_texts :: "quic_client \<Rightarrow> quic_client \<Rightarrow> bool" where
  "same_texts s t \<longleftrightarrow> qc_decision_buf t = qc_decision_buf s \<and> qc_file_ack t = qc_file_ack s
     \<and> (qc_awaiting_decision t \<longrightarrow> qc_awaiting_decision s)"

lemma heard_same: "same_texts s t \<Longrightarrow> heard n R s \<Longrightarrow> heard n R t"
  by (auto simp: heard_def same_texts_def)

lemma texts_abort: "same_texts s (abort_stream s)"
  by (simp add: same_texts_def abort_stream_def client_call_def split: option.split)

lemma texts_trans: "same_texts s t \<Longrightarrow> same_texts t u \<Longrightarrow> same_texts s u"
  by (auto simp: same_texts_def)

lemma texts_begin: "stream_send_begin E d fin s = (ok, t) \<Longrightarrow> same_texts s t"
  by (auto simp: stream_send_begin_def same_texts_def split: prod.splits)

lemma texts_fail: "same_texts s t \<Longrightarrow> same_texts s (snd (send_fail t))"
  using texts_trans [OF _ texts_abort] by (simp add: send_fail_def)

lemma texts_refl: "same_texts s s"
  by (simp add: same_texts_def)

lemma texts_chunk: "same_texts s (snd (send_chunk E n sent input s))"
  by (auto simp: send_chunk_def Let_def intro: texts_begin texts_fail texts_refl split: prod.splits)

lemma texts_body: "same_texts s (snd (send_body E job s))"
  by (auto simp: send_body_def intro: texts_begin texts_fail texts_refl texts_chunk split: prod.splits option.splits)

lemma texts_stream_event: "\<forall>ds. ev \<noteq> Receive ds \<Longrightarrow> same_texts s (client_on_stream_event g ev s)"
  by (cases ev) (auto simp: same_texts_def client_on_stream_event_def resolve_decision_def notify_send_waiter_def
      client_notify_file_waiter_def client_call_def Let_def)

lemma texts_step:
  assumes "send_step job x l y" and "\<And>g ds. l \<noteq> S_stream g (Receive ds)"
  shows "same_texts (snd x) (snd y)"
  using assms
proof (induction rule: send_step.induct)
  case (client_stream_callback pc s g ev)
  then have "\<forall>ds. ev \<noteq> Receive ds" by blast
  then show ?case by (simp add: texts_stream_event)
next
  case (decision_no s)
  have "same_texts s (s\<lparr>qc_rejected := True\<rparr>)" by (simp add: same_texts_def)
  then show ?case by (simp add: texts_fail)
next
  case (chunk_sent s sent input E)
  have "same_texts s (report_progress job sent (fth_size (sj_header job)) s)"
    by (simp add: same_texts_def report_progress_def)
  then show ?case using texts_trans texts_chunk by (metis snd_conv)
qed (simp_all add: texts_fail texts_refl texts_body, simp_all add: same_texts_def report_progress_def)

lemma heard_reply:
  assumes "heard n R s" and "prefix (concat ds) (drop n R)"
  shows "heard (n + length (concat ds)) R (client_on_stream_event g (Receive ds) s)"
proof -
  let ?t = "client_on_stream_event g (Receive ds) s"
  have le: "n \<le> length R" using assms(1) by (simp add: heard_def)
  obtain rest where rest: "drop n R = concat ds @ rest" using assms(2) by (auto simp: prefix_def)
  have "length R - n = length (concat ds) + length rest"
    by (metis length_append length_drop rest)
  then have len: "n + length (concat ds) \<le> length R" using le by linarith
  have "take (n + length (concat ds)) R = take n R @ concat ds"
    by (simp add: take_add rest)
  also have "\<dots> = qc_decision_buf ?t @ qc_file_ack ?t"
    using assms(1) by (auto simp: heard_def client_on_stream_event_def receive_replies_text resolve_decision_def Let_def)
  finally have "take (n + length (concat ds)) R = qc_decision_buf ?t @ qc_file_ack ?t" .
  moreover have "qc_awaiting_decision ?t \<longrightarrow> qc_file_ack ?t = []"
    using assms(1) by (auto simp: heard_def client_on_stream_event_def receive_replies_text resolve_decision_def Let_def)
  ultimately show ?thesis using len by (simp add: heard_def)
qed

section \<open>From a letter to a message\<close>

lemma starts_with_set: "starts_with t p \<Longrightarrow> set p \<subseteq> set t"
  unfolding starts_with_def by (metis set_take_subset)

lemma letter_said:
  assumes "honest evp s" and "c \<in> set (payload (server_sends s))"
  obtains m where "said m s" and "c \<in> set m" and "m \<in> {msg_accept, msg_reject, msg_ok, msg_fail}"
proof -
  obtain m where "m \<in> set (map fst (server_sends s))" "c \<in> set m" using assms(2) by auto
  then have "said m s" "c \<in> set m" by (simp_all add: said_def)
  then show thesis using assms(1) that unfolding honest_def by blast
qed

lemma letter_P: "honest evp s \<Longrightarrow> CHR ''P'' \<in> set (payload (server_sends s)) \<Longrightarrow> said msg_accept s"
  by (erule (1) letter_said) (auto simp: msg_defs)

lemma letter_O: "honest evp s \<Longrightarrow> CHR ''O'' \<in> set (payload (server_sends s)) \<Longrightarrow> said msg_ok s"
  by (erule (1) letter_said) (auto simp: msg_defs)

lemma accept_heard:
  assumes "heard n (payload (server_sends r)) s" and "replies_inv s" and "accepted_client s" and "honest evp r"
  shows "said msg_accept r"
proof -
  have "starts_with (qc_decision_buf s) ''ACCEPT''"
    using assms(2,3) by (auto simp: replies_inv_def accepted_client_def)
  then have "CHR ''P'' \<in> set (qc_decision_buf s)" using starts_with_set by fastforce
  then have "CHR ''P'' \<in> set (take n (payload (server_sends r)))" using assms(1) by (simp add: heard_def)
  then show ?thesis using letter_P [OF assms(4)] by (blast dest: in_set_takeD)
qed

lemma ok_heard:
  assumes "heard n (payload (server_sends r)) s" and "starts_with (qc_file_ack s) ''OK''" and "honest evp r"
  shows "said msg_ok r"
proof -
  have "CHR ''O'' \<in> set (qc_file_ack s)" using assms(2) starts_with_set by fastforce
  then have "CHR ''O'' \<in> set (take n (payload (server_sends r)))" using assms(1) by (simp add: heard_def)
  then show ?thesis using letter_O [OF assms(3)] by (blast dest: in_set_takeD)
qed

section \<open>What the sender has sent\<close>

text \<open>A job whose file has the announced size and whose header fits the receiver's buffer.\<close>

definition fair_job :: "send_job \<Rightarrow> bytes \<Rightarrow> bool" where
  "fair_job job content \<longleftrightarrow> sj_file job = Some content \<and> length content < 2 ^ 64
     \<and> sj_size job = of_nat (length content) \<and> fth_size (sj_header job) = sj_size job
     \<and> is_sha256_hex (fth_sha256_hex (sj_header job))
     \<and> length (encode_file_header (sj_header job)) \<le> k_max_header_bytes"

lemma fair_size: "fair_job job content \<Longrightarrow> unat (sj_size job) = length content"
  using unat_of_nat_u64 [of "length content"] by (simp add: fair_job_def)

lemma body_prefix_payload:
  assumes "fair_job job content" and "body_prefix job cs"
  shows "prefix (payload cs) content"
proof -
  have f: "sj_file job = Some content" using assms(1) by (simp add: fair_job_def)
  have t: "prefix (take n content) content" for n by (rule take_is_prefix)
  from assms(2) consider "cs = []" | "body_sent job cs" | sent input where "body_partly job sent input cs"
    by (auto simp: body_prefix_def)
  then show ?thesis
  proof cases
    case 2
    then show ?thesis using f t by (auto simp: body_sent_def chunks_of_def split: if_splits)
  next
    case 3
    then show ?thesis using f t by (auto simp: body_partly_def chunks_of_def)
  qed simp
qed

text \<open>Nothing, or the header and a prefix of the file, of which no byte goes out before ACCEPT.\<close>

lemma sent_shape:
  assumes "send_inv job [] x" and "fair_job job content"
  obtains "client_sends (snd x) = []"
  | B where "payload (client_sends (snd x)) = encode_file_header (sj_header job) @ B" and "prefix B content"
      and "B \<noteq> [] \<Longrightarrow> accepted_client (snd x)"
proof -
  have u: "u32_part (encode_file_header (sj_header job)) = encode_file_header (sj_header job)"
    using assms(2) by (intro u32_part_small) (simp add: fair_job_def k_max_header_bytes_def)
  from assms(1) consider "client_sends (snd x) = []"
    | cs where "client_sends (snd x) = (u32_part (encode_file_header (sj_header job)), False) # cs"
        "cs \<noteq> [] \<longrightarrow> accepted_client (snd x)" "body_prefix job cs"
    by (auto simp: send_inv_def dest: progressed_prefix)
  then show thesis
  proof cases
    case 1
    then show ?thesis using that(1) by simp
  next
    case (2 cs)
    then show ?thesis using that(2) [of "payload cs"] body_prefix_payload [OF assms(2)] u by auto
  qed
qed

section \<open>The invariant\<close>

definition sent_header :: "send_job \<Rightarrow> file_transfer_header" where
  "sent_header job = normalise_header (sj_header job)"

definition receiver_inv ::
  "'c evp_api \<Rightarrow> send_job \<Rightarrow> path \<Rightarrow> bytes \<Rightarrow> bytes \<Rightarrow> receive_pc \<times> quic_server \<Rightarrow> bool" where
  "receiver_inv evp job q content D r \<longleftrightarrow> checked evp r \<and> honest evp (snd r)
     \<and> (fst r = Rf_accepting \<longrightarrow> qs_file_accepted (snd r)) \<and> follows (sent_header job) q content D (snd r)"

definition transfer_inv :: "'c evp_api \<Rightarrow> send_job \<Rightarrow> path \<Rightarrow> bytes \<Rightarrow> transfer \<Rightarrow> bool" where
  "transfer_inv evp job q content x \<longleftrightarrow>
     send_inv job [] (tr_sender x) \<and> heard (tr_replied x) (to_sender x) (snd (tr_sender x))
     \<and> tr_received x \<le> length (to_receiver x) \<and> target_path (snd (tr_receiver x)) (sent_header job) = q
     \<and> (if tr_opened x then receiver_inv evp job q content (take (tr_received x) (to_receiver x)) (tr_receiver x)
        else fresh_session (tr_receiver x) \<and> server_sends (snd (tr_receiver x)) = [] \<and> tr_received x = 0)"

lemma fair_header:
  assumes "fair_job job content"
  shows "wf_header (sent_header job)" and "encode_file_header (sent_header job) = encode_file_header (sj_header job)"
    and "length (encode_file_header (sent_header job)) \<le> k_max_header_bytes"
    and "unat (fth_size (sent_header job)) = length content"
proof -
  show "wf_header (sent_header job)"
    using assms wf_normalise [of "sj_header job"] by (simp add: sent_header_def fair_job_def)
  have l: "map to_lower (map to_lower t) = map to_lower t" for t by simp
  show e: "encode_file_header (sent_header job) = encode_file_header (sj_header job)"
    by (simp add: sent_header_def encode_file_header_def normalise_header_def l Let_def)
  show "length (encode_file_header (sent_header job)) \<le> k_max_header_bytes"
    using assms e by (simp add: fair_job_def)
  show "unat (fth_size (sent_header job)) = length content"
    using assms fair_size [OF assms] by (simp add: sent_header_def normalise_header_def fair_job_def)
qed

text \<open>Everyone who accepted has said so only after the receiver did: bytes of the file are on the
  way only to a receiver that accepted it.\<close>

lemma bytes_to_accepted:
  assumes "transfer_inv evp job q content x" and "fair_job job content" and "tr_opened x"
  shows "qs_file_accepted (snd (tr_receiver x)) \<or> prefix (to_receiver x) (encode_file_header (sent_header job))"
    and "prefix (to_receiver x) (encode_file_header (sent_header job) @ content)"
proof -
  have i: "send_inv job [] (tr_sender x)" "honest evp (snd (tr_receiver x))"
      "heard (tr_replied x) (payload (server_sends (snd (tr_receiver x)))) (snd (tr_sender x))"
    using assms(1,3) by (simp_all add: transfer_inv_def receiver_inv_def to_sender_def)
  have r: "replies_inv (snd (tr_sender x))" using i(1) by (simp add: send_inv_def)
  note e = fair_header(2) [OF assms(2)]
  show "prefix (to_receiver x) (encode_file_header (sent_header job) @ content)"
    by (rule sent_shape [OF i(1) assms(2)]) (simp_all add: to_receiver_def e)
  have a: "qs_file_accepted (snd (tr_receiver x))" if "accepted_client (snd (tr_sender x))"
    using accept_heard [OF i(3) r that i(2)] i(2) by (simp add: honest_def)
  show "qs_file_accepted (snd (tr_receiver x)) \<or> prefix (to_receiver x) (encode_file_header (sent_header job))"
  proof (rule sent_shape [OF i(1) assms(2)])
    fix B
    assume "payload (client_sends (snd (tr_sender x))) = encode_file_header (sj_header job) @ B"
      and "B \<noteq> [] \<Longrightarrow> accepted_client (snd (tr_sender x))"
    then show ?thesis using a by (cases "B = []") (simp_all add: to_receiver_def e)
  qed (simp add: to_receiver_def)
qed

section \<open>Steps\<close>

lemma sender_keeps:
  assumes i: "transfer_inv evp job q content x" and s: "send_step job (tr_sender x) l t"
    and h: "heard n (to_sender x) (snd t)"
  shows "transfer_inv evp job q content (x\<lparr>tr_sender := t, tr_replied := n\<rparr>)"
proof -
  have p: "prefix (to_receiver x) (payload (client_sends (snd t)))"
    using payload_grows [OF send_step_grows [OF s]] by (simp add: to_receiver_def)
  then have "take (tr_received x) (payload (client_sends (snd t))) = take (tr_received x) (to_receiver x)"
    "tr_received x \<le> length (payload (client_sends (snd t)))"
    using i by (auto simp: transfer_inv_def prefix_def)
  moreover have "send_inv job [] t" using i by (intro send_inv_step [OF s]) (simp add: transfer_inv_def)
  ultimately show ?thesis
    using i h by (cases "tr_opened x") (simp_all add: transfer_inv_def to_receiver_def to_sender_def)
qed

lemma server_sends_grow:
  assumes "session_step evp x l y"
  shows "prefix (server_sends (snd x)) (server_sends (snd y))"
proof -
  have app: "prefix (server_sends s) (server_sends (append_file_bytes E d s))" for E d s
    using append_says [of E d s] by auto
  have fold: "prefix (server_sends s) (server_sends (fold (append_file_bytes E) ds s))" for E ds s
    by (induction ds arbitrary: s) (auto intro: prefix_order.trans [OF app])
  from assms show ?thesis
  proof (induction rule: session_step.induct)
    case (stream_callback pc s g ev E)
    then show ?case
      by (cases ev) (simp_all add: on_stream_event_def fold finish_eq ack_send_def copy_sends free_block_def
          peer_aborted_def set_error_def notify_file_waiter_def api_call_def io_call_def Let_def)
  next
    case (connection_callback pc s c cev)
    then show ?case by (cases cev) (simp_all add: on_connection_event_def api_call_def io_call_def Let_def)
  next
    case (listener_callback pc s lev ok)
    then show ?case by (cases lev) (simp_all add: on_listener_event_def api_call_def io_call_def)
  qed (simp_all add: stop_receiving_def reject_offer_def accept_offer_def case_prod_beta copy_sends Let_def)
qed

text \<open>A step of the receiver, with what it was given so far.\<close>

lemma receiver_keeps:
  assumes i: "transfer_inv evp job q content x" and s: "session_step evp (tr_receiver x) l t"
    and n: "n \<le> length (to_receiver x)"
    and r: "receiver_inv evp job q content (take n (to_receiver x)) t"
  shows "transfer_inv evp job q content (x\<lparr>tr_receiver := t, tr_opened := True, tr_received := n\<rparr>)"
proof -
  have "prefix (to_sender x) (payload (server_sends (snd t)))"
    using payload_grows [OF server_sends_grow [OF s]] by (simp add: to_sender_def)
  then show ?thesis
    using i n r target_step [OF s] heard_more by (auto simp: transfer_inv_def to_receiver_def to_sender_def)
qed

lemma receiver_inv_step:
  assumes "receiver_inv evp job q content D r" and "session_step evp r l t"
    and "\<And>c st. l \<noteq> L_connection c (PeerStreamStarted st)" and "\<And>g ds. l \<noteq> L_stream g (Receive ds)"
  shows "receiver_inv evp job q content D t"
proof -
  have c: "checked evp r" "honest evp (snd r)" "fst r = Rf_accepting \<Longrightarrow> qs_file_accepted (snd r)"
    "follows (sent_header job) q content D (snd r)" using assms(1) by (auto simp: receiver_inv_def)
  have "checked evp t" by (rule checked_step [OF assms(2) c(1) assms(3)])
  moreover have "honest evp (snd t)" by (rule honest_step [OF assms(2,3) c(2,1,3)])
  moreover have "fst t = Rf_accepting \<longrightarrow> qs_file_accepted (snd t)"
    using accepted_step [OF assms(2,3) c(3)] by blast
  moreover have "follows (sent_header job) q content D (snd t)"
    by (rule follows_step [OF assms(2,3,4) c(1,4)])
  ultimately show ?thesis by (simp add: receiver_inv_def)
qed

lemma receiver_inv_data:
  assumes i: "transfer_inv evp job q content x" and o: "tr_opened x" and fair: "fair_job job content"
    and pre: "prefix (concat ds) (drop (tr_received x) (to_receiver x))"
    and small: "\<forall>d \<in> set ds. length d < 4294967296"
    and s: "session_step evp (tr_receiver x) (L_stream g (Receive ds)) t"
  shows "receiver_inv evp job q content (take (tr_received x + length (concat ds)) (to_receiver x)) t"
    and "tr_received x + length (concat ds) \<le> length (to_receiver x)"
proof -
  let ?h = "sent_header job" and ?D = "take (tr_received x) (to_receiver x)"
  have r: "receiver_inv evp job q content ?D (tr_receiver x)" and le: "tr_received x \<le> length (to_receiver x)"
    using i o by (simp_all add: transfer_inv_def)
  obtain rest where rest: "drop (tr_received x) (to_receiver x) = concat ds @ rest"
    using pre by (auto simp: prefix_def)
  have "length (to_receiver x) - tr_received x = length (concat ds) + length rest"
    by (metis length_append length_drop rest)
  then show le': "tr_received x + length (concat ds) \<le> length (to_receiver x)" using le by linarith
  have D: "take (tr_received x + length (concat ds)) (to_receiver x) = ?D @ concat ds"
    by (simp add: take_add rest)
  have "prefix (?D @ concat ds) (to_receiver x)" unfolding D [symmetric] by (rule take_is_prefix)
  then have p: "prefix (?D @ concat ds) (encode_file_header ?h @ content)"
    "qs_file_accepted (snd (tr_receiver x)) \<or> prefix (?D @ concat ds) (encode_file_header ?h)"
    using bytes_to_accepted [OF i fair o] prefix_order.trans by blast+
  obtain E where t: "t = (fst (tr_receiver x), on_stream_event evp E g (Receive ds) (snd (tr_receiver x)))"
    using s by (auto elim: session_step.cases)
  have f: "follows ?h q content (?D @ concat ds) (snd t)"
  proof -
    have "follows ?h q content ?D (snd (tr_receiver x))" "target_path (snd (tr_receiver x)) ?h = q"
      using r i by (simp_all add: receiver_inv_def transfer_inv_def)
    then show ?thesis
      unfolding t snd_conv using fair_header [OF fair] small p by (intro follows_receive)
  qed
  have "checked evp t" using r by (intro checked_step [OF s]) (simp_all add: receiver_inv_def)
  moreover have "honest evp (snd t)" using r by (simp add: t honest_stream_event receiver_inv_def)
  moreover have "fst t = Rf_accepting \<longrightarrow> qs_file_accepted (snd t)"
    using r accepted_step [OF s] by (auto simp: receiver_inv_def)
  ultimately show "receiver_inv evp job q content (take (tr_received x + length (concat ds)) (to_receiver x)) t"
    using f by (simp add: receiver_inv_def D)
qed

lemma opened_updates:
  "tr_opened x \<Longrightarrow> x\<lparr>tr_receiver := r, tr_opened := True, tr_received := n\<rparr> = x\<lparr>tr_receiver := r, tr_received := n\<rparr>"
  "x\<lparr>tr_receiver := r, tr_received := tr_received x\<rparr> = x\<lparr>tr_receiver := r\<rparr>"
  by (cases x, simp)+

lemma opening_keeps:
  assumes i: "transfer_inv evp job q content x" and fair: "fair_job job content" and no: "\<not> tr_opened x"
    and s: "session_step evp (tr_receiver x) (L_connection c (PeerStreamStarted st)) t"
  shows "receiver_inv evp job q content [] t"
proof -
  have x: "fresh_session (tr_receiver x)" "server_sends (snd (tr_receiver x)) = []"
    using i no by (simp_all add: transfer_inv_def)
  have f: "fresh_session t" by (rule fresh_step [OF s x(1)]) simp
  have t: "t = (fst (tr_receiver x), on_connection_event c (PeerStreamStarted st) (snd (tr_receiver x)))"
    using s by (auto elim: session_step.cases)
  have "server_sends (snd t) = []" using x(2) by (simp add: t on_connection_event_def api_call_def io_call_def)
  then have "honest evp (snd t)" by (simp add: honest_def said_def)
  moreover have "waits_for_header (sent_header job) [] (snd t)"
    using header_nonempty [of "sent_header job"]
    by (simp add: t waits_for_header_def on_connection_event_def api_call_def)
  moreover have "fst t \<noteq> Rf_accepting" using f by (auto simp: fresh_session_def)
  ultimately show ?thesis using fresh_checked [OF f] by (simp add: receiver_inv_def follows_def)
qed

lemma fresh_says_nothing:
  assumes "session_step evp r l t" and "fresh_session r" and "receiver_alone False l"
  shows "server_sends (snd t) = server_sends (snd r)"
  using assms
proof (induction rule: session_step.induct)
  case (stream_callback pc s g ev E)
  then show ?case by (cases ev) simp_all
next
  case (connection_callback pc s c cev)
  then show ?case by (cases cev) (simp_all add: on_connection_event_def api_call_def io_call_def Let_def)
next
  case (listener_callback pc s lev ok)
  then show ?case by (cases lev) (simp_all add: on_listener_event_def api_call_def io_call_def)
qed (simp_all add: fresh_session_def stop_receiving_def)

lemma alone_labels:
  "sender_alone l \<Longrightarrow> l \<noteq> S_stream g (Receive ds)"
  "receiver_alone b k \<Longrightarrow> k \<noteq> L_connection c (PeerStreamStarted st)"
  "receiver_alone b k \<Longrightarrow> k \<noteq> L_stream g (Receive ds)"
  "receiver_alone False k \<Longrightarrow> k \<noteq> L_stream g ev"
  by auto (cases ev; auto)

lemma transfer_inv_step:
  assumes "net_step evp job st x l y" and fair: "fair_job job content" and "transfer_inv evp job q content x"
  shows "transfer_inv evp job q content y"
  using assms(1,3)
proof (induction rule: net_step.induct)
  case (stream_opened x c r)
  then have z: "tr_received x = 0" by (simp add: transfer_inv_def)
  have "transfer_inv evp job q content (x\<lparr>tr_receiver := r, tr_opened := True, tr_received := 0\<rparr>)"
    using opening_keeps [OF stream_opened.prems fair stream_opened.hyps]
    by (intro receiver_keeps [OF stream_opened.prems stream_opened.hyps(2)]) simp_all
  moreover have "x\<lparr>tr_receiver := r, tr_opened := True, tr_received := 0\<rparr> = x\<lparr>tr_receiver := r, tr_opened := True\<rparr>"
    using z by (cases x) simp
  ultimately show ?case by simp
next
  case (sender_moves l x s)
  have same: "same_texts (snd (tr_sender x)) (snd s)"
    by (rule texts_step [OF sender_moves.hyps(2)]) (rule alone_labels(1) [OF sender_moves.hyps(1)])
  have "heard (tr_replied x) (to_sender x) (snd s)"
    by (rule heard_same [OF same]) (use sender_moves.prems in \<open>simp add: transfer_inv_def\<close>)
  from sender_keeps [OF sender_moves.prems sender_moves.hyps(2) this] show ?case by simp
next
  case (receiver_moves x l r)
  show ?case
  proof (cases "tr_opened x")
    case True
    then have i: "receiver_inv evp job q content (take (tr_received x) (to_receiver x)) (tr_receiver x)"
      and le: "tr_received x \<le> length (to_receiver x)"
      using receiver_moves.prems by (simp_all add: transfer_inv_def)
    have "receiver_inv evp job q content (take (tr_received x) (to_receiver x)) r"
      by (rule receiver_inv_step [OF i receiver_moves.hyps(2)])
         (use alone_labels(2,3) [OF receiver_moves.hyps(1)] in blast)+
    from receiver_keeps [OF receiver_moves.prems receiver_moves.hyps(2) le this] True show ?thesis
      by (simp only: opened_updates)
  next
    case False
    have al: "receiver_alone False l" using receiver_moves.hyps(1) False by simp
    have x: "fresh_session (tr_receiver x)" "server_sends (snd (tr_receiver x)) = []"
      using receiver_moves.prems False by (simp_all add: transfer_inv_def)
    have "fresh_session r"
      by (rule fresh_step [OF receiver_moves.hyps(2) x(1)]) (use alone_labels(4) [OF al] in blast)
    moreover have "server_sends (snd r) = []"
      using fresh_says_nothing [OF receiver_moves.hyps(2) x(1) al] x(2) by simp
    ultimately show ?thesis
      using receiver_moves.prems False target_step [OF receiver_moves.hyps(2), of "sent_header job"] x(2)
      by (simp add: transfer_inv_def to_receiver_def to_sender_def)
  qed
next
  case (data_arrives x ds r)
  note d = receiver_inv_data [OF data_arrives.prems data_arrives.hyps(1) fair data_arrives.hyps(2-4)]
  from receiver_keeps [OF data_arrives.prems data_arrives.hyps(4) d(2,1)] data_arrives.hyps(1) show ?case
    by (simp only: opened_updates)
next
  case (end_arrives x r)
  then have i: "receiver_inv evp job q content (take (tr_received x) (to_receiver x)) (tr_receiver x)"
    and le: "tr_received x \<le> length (to_receiver x)"
    by (simp_all add: transfer_inv_def)
  have "receiver_inv evp job q content (take (tr_received x) (to_receiver x)) r"
    by (rule receiver_inv_step [OF i end_arrives.hyps(4)]) simp_all
  from receiver_keeps [OF end_arrives.prems end_arrives.hyps(4) le this] end_arrives.hyps(1) show ?case
    by (simp only: opened_updates)
next
  case (reply_arrives ds x s)
  obtain t where t: "s = (t, client_on_stream_event st (Receive ds) (snd (tr_sender x)))"
    using reply_arrives.hyps(2) by (auto elim: send_step.cases)
  have "heard (tr_replied x + length (concat ds)) (to_sender x) (snd s)"
    using reply_arrives.prems reply_arrives.hyps(1) by (simp add: t heard_reply transfer_inv_def)
  from sender_keeps [OF reply_arrives.prems reply_arrives.hyps(2) this] show ?case .
next
  case (reply_end_arrives x s)
  have same: "same_texts (snd (tr_sender x)) (snd s)"
    by (rule texts_step [OF reply_end_arrives.hyps(3)]) simp
  have "heard (tr_replied x) (to_sender x) (snd s)"
    by (rule heard_same [OF same]) (use reply_end_arrives.prems in \<open>simp add: transfer_inv_def\<close>)
  from sender_keeps [OF reply_end_arrives.prems reply_end_arrives.hyps(3) this] show ?case by simp
qed

section \<open>The start\<close>

lemma texts_start:
  assumes "ready_client s"
  shows "qc_decision_buf (snd (send_file_internal C h s)) = [] \<and> qc_file_ack (snd (send_file_internal C h s)) = []"
proof -
  let ?s1 = "s\<lparr>qc_file_ack := [], qc_rejected := False, qc_decision_buf := [],
                qc_decision_ready := False, qc_decision_accepted := False,
                qc_file_done := False, qc_file_ok := False\<rparr>"
  have g: "\<not> (\<not> qc_connected s \<or> qc_connection s = None \<or> \<not> qc_api s)"
    using assms by (simp add: ready_client_def)
  obtain opened s2 where o: "open_stream C ?s1 = (opened, s2)" by (cases "open_stream C ?s1")
  let ?s2 = "s2\<lparr>qc_awaiting_decision := True\<rparr>"
  obtain ok s3 where b: "stream_send_begin C (encode_file_header h) False ?s2 = (ok, s3)"
    by (cases "stream_send_begin C (encode_file_header h) False ?s2")
  have "send_file_internal C h s = (if \<not> opened then (Sd_returned False, s2)
      else if ok then (Sd_header_wait, s3) else send_fail s3)"
    unfolding send_file_internal_def Let_def if_not_P [OF g] o prod.case b by (rule refl)
  moreover have "qc_decision_buf s2 = []" "qc_file_ack s2 = []" using open_stream_frame [OF o] by simp_all
  ultimately show ?thesis
    using send_begin_cases(2) [OF b] by (auto simp: send_fail_def)
qed

lemma transfer_inv_start:
  assumes "ready_client s0" and "replies_inv s0" and "client_sends s0 = []" and "server_sends r0 = []"
    and "q = (if looks_like_dir is_dir p then path_append p (fth_name (sent_header job)) else p)"
  shows "transfer_inv evp job q content
    (net_start (send_file_internal C (sj_header job) s0) (receive_start is_dir p ofr g r0))"
proof -
  have "send_inv job [] (send_file_internal C (sj_header job) s0)"
    using send_inv_start [OF refl assms(2), of job C] assms(3) by simp
  moreover have "heard 0 R (snd (send_file_internal C (sj_header job) s0))" for R
    using texts_start [OF assms(1), of C "sj_header job"] by (simp add: heard_def)
  moreover have "target_path (snd (receive_start is_dir p ofr g r0)) (sent_header job) = q"
    "server_sends (snd (receive_start is_dir p ofr g r0)) = []"
    using assms(4,5) by (simp_all add: receive_start_def receive_begin_def target_path_def Let_def)
  ultimately show ?thesis
    using fresh_start [of is_dir p ofr g r0] by (simp add: transfer_inv_def net_start_def)
qed

lemma transfer_inv_run:
  assumes "net_run evp job st x ls y" and "fair_job job content" and "transfer_inv evp job q content x"
  shows "transfer_inv evp job q content y"
  by (rule net_invariant [OF assms(1), where P = "transfer_inv evp job q content"])
     (rule assms(3), rule transfer_inv_step [OF _ assms(2)])

section \<open>What a success means\<close>

text \<open>A checked transfer holds the whole file.\<close>

lemma sealed_stored:
  assumes "receiver_inv evp job q content D r" and "sealed evp (snd r)" and "fair_job job content"
  shows "qs_files (snd r) q = Some content \<and> qs_output_path (snd r) = q"
proof -
  have v: "\<not> qs_io_error (snd r)" "qs_file_accepted (snd r)"
      "qs_bytes_written (snd r) = fth_size (qs_file_header (snd r))"
    using assms(2) by (auto simp: sealed_def verify_true)
  then have "stores_body (sent_header job) q content D (snd r)"
    using assms(1) by (auto simp: receiver_inv_def follows_def waits_for_header_def waits_for_answer_def)
  then obtain B where B: "prefix B content" "qs_files (snd r) q = Some B"
      "unat (qs_bytes_written (snd r)) = length B" "qs_file_header (snd r) = sent_header job" "qs_output_path (snd r) = q"
    by (auto simp: stores_body_def has_header_def)
  then have "length B = length content" using v(3) fair_header(4) [OF assms(3)] by simp
  then have "B = content" using B(1) by (auto simp: prefix_def)
  with B show ?thesis by simp
qed

end
