(* ===== verification/Transfer_Calls.thy ===== *)
theory Transfer_Calls
  imports Transfer_Guarantees
begin

text \<open>
  \<open>send_file\<close> and \<open>receive_file\<close> as two calls that run against each other, for a file that can be
  announced and a client that has not sent anything yet: the invariant from their start, what a
  success on either side says, and what holds until the user has agreed.
\<close>

section \<open>The two calls\<close>

text \<open>A file that \<open>send_file\<close> can announce; it does not change during the call.\<close>

definition sendable :: "'c evp_api \<Rightarrow> files \<Rightarrow> path \<Rightarrow> bytes \<Rightarrow> path_info \<Rightarrow> bool" where
  "sendable evp fs path content info \<longleftrightarrow> fs path = Some content \<and> length content < 2 ^ 64
     \<and> pi_size info = Some (of_nat (length content)) \<and> fst (sha256_file evp fs path [] 0)
     \<and> length (encode_file_header (sj_header (file_job evp fs path content False))) \<le> k_max_header_bytes"

text \<open>A client that has not sent anything, as both front ends use it.\<close>

definition unused_client :: "quic_client \<Rightarrow> bool" where
  "unused_client s \<longleftrightarrow> client_sends s = [] \<and> qc_decision_buf s = [] \<and> qc_file_ack s = []
     \<and> \<not> qc_decision_ready s \<and> \<not> qc_file_ok s"

definition both_start ::
  "'c evp_api \<Rightarrow> client_env \<Rightarrow> path_info \<Rightarrow> files \<Rightarrow> path \<Rightarrow> quic_client
   \<Rightarrow> (path \<Rightarrow> bool) \<Rightarrow> path \<Rightarrow> bool \<Rightarrow> bool \<Rightarrow> quic_server \<Rightarrow> transfer" where
  "both_start evp C info fs path s0 is_dir p has_offer has_progress r0 =
     net_start (send_file evp C info fs path s0) (receive_start is_dir p has_offer has_progress r0)"

text \<open>Where the receiver puts a file that is sent from \<open>path\<close>.\<close>

definition received_path :: "(path \<Rightarrow> bool) \<Rightarrow> path \<Rightarrow> path \<Rightarrow> path" where
  "received_path is_dir p path =
     (if looks_like_dir is_dir p then path_append p (sanitize_file_name (path_filename path)) else p)"

lemma sendable_fair:
  assumes "sendable evp fs path content info" and "evp_streaming evp" and "evp_sized evp"
  shows "fair_job (file_job evp fs path content g) content"
proof -
  have f: "file_contents fs path = Some content" using assms(1) by (simp add: sendable_def file_contents_def)
  obtain hash live where hash: "sha256_file evp fs path [] 0 = (True, hash, live)"
    using assms(1) by (cases "sha256_file evp fs path [] 0") (auto simp: sendable_def)
  then have "sha256_bytes evp content [] 0 = (True, hash, live)"
    using sha256_file_bytes [OF assms(2) f] by simp
  note form = sha256_bytes_form [OF assms(3) this]
  with assms(1) hash show ?thesis by (simp add: fair_job_def file_job_def sendable_def)
qed

lemma both_start_inv:
  assumes s: "sendable evp fs path content info" and u: "unused_client s0" and r: "server_sends r0 = []"
  shows "transfer_inv evp (file_job evp fs path content g) (received_path is_dir p path) content
    (both_start evp C info fs path s0 is_dir p ofr g' r0)"
proof -
  let ?job = "file_job evp fs path content g"
  have size: "pi_size info = Some (of_nat (length content))" using s by (simp add: sendable_def)
  have replies: "replies_inv s0" using u by (simp add: unused_client_def replies_inv_def)
  have path: "received_path is_dir p path
      = (if looks_like_dir is_dir p then path_append p (fth_name (sent_header ?job)) else p)"
    by (simp add: received_path_def sent_header_def normalise_header_def file_job_def)
  show ?thesis
  proof (rule send_file_cases [OF size, where E = C and evp = evp and fs = fs and p = path and s = s0 and g = g])
    assume e: "send_file evp C info fs path s0 = (Sd_returned False, s0)"
    have "send_inv ?job [] (Sd_returned False, s0)" "heard 0 R s0" for R
      using u replies by (simp_all add: send_inv_def send_inv_pc unused_client_def heard_def)
    moreover have "target_path (snd (receive_start is_dir p ofr g' r0)) (sent_header ?job) = received_path is_dir p path"
      "server_sends (snd (receive_start is_dir p ofr g' r0)) = []"
      using r path by (simp_all add: receive_start_def receive_begin_def target_path_def Let_def)
    ultimately show ?thesis
      using fresh_start [of is_dir p ofr g' r0] by (simp add: both_start_def e transfer_inv_def net_start_def)
  next
    assume ready: "ready_client s0"
      and e: "send_file evp C info fs path s0 = send_file_internal C (sj_header ?job) s0"
    have "client_sends s0 = []" using u by (simp add: unused_client_def)
    from transfer_inv_start [OF ready replies this r path] show ?thesis by (simp add: both_start_def e)
  qed
qed

lemma both_run_inv:
  assumes "net_run evp (file_job evp fs path content g) st (both_start evp C info fs path s0 is_dir p ofr g' r0) ls x"
    and "sendable evp fs path content info" and "evp_streaming evp" and "evp_sized evp"
    and "unused_client s0" and "server_sends r0 = []"
  shows "transfer_inv evp (file_job evp fs path content g) (received_path is_dir p path) content x"
  by (rule transfer_inv_run [OF assms(1) sendable_fair [OF assms(2-4)] both_start_inv [OF assms(2,5,6)]])

section \<open>A sender that heard of its acceptance\<close>

lemma accepted_everywhere:
  assumes "transfer_inv evp job q content x" and "accepted_client (snd (tr_sender x))"
  shows "tr_opened x \<and> qs_file_accepted (snd (tr_receiver x))"
proof -
  have i: "replies_inv (snd (tr_sender x))"
      "heard (tr_replied x) (payload (server_sends (snd (tr_receiver x)))) (snd (tr_sender x))"
    using assms(1) by (simp_all add: transfer_inv_def send_inv_def to_sender_def)
  have h: "honest evp (snd (tr_receiver x))"
    using assms(1) by (auto simp: transfer_inv_def receiver_inv_def honest_def said_def split: if_splits)
  have said: "said msg_accept (snd (tr_receiver x))" by (rule accept_heard [OF i(2,1) assms(2) h])
  then have "tr_opened x" using assms(1) by (auto simp: transfer_inv_def said_def split: if_splits)
  with said h show ?thesis by (simp add: honest_def)
qed

lemma success_sealed:
  assumes i: "transfer_inv evp job q content x"
    and "fst (tr_sender x) = Sd_returned True \<or> fst (tr_receiver x) = Rf_returned True"
  shows "tr_opened x \<and> sealed evp (snd (tr_receiver x))"
  using assms(2)
proof
  assume "fst (tr_sender x) = Sd_returned True"
  then have a: "accepted_client (snd (tr_sender x))" "starts_with (qc_file_ack (snd (tr_sender x))) ''OK''"
    using i by (auto simp: transfer_inv_def send_inv_def send_inv_pc)
  have o: "tr_opened x" using accepted_everywhere [OF i a(1)] ..
  then have "honest evp (snd (tr_receiver x))"
      "heard (tr_replied x) (payload (server_sends (snd (tr_receiver x)))) (snd (tr_sender x))"
    using i by (simp_all add: transfer_inv_def receiver_inv_def to_sender_def)
  with ok_heard [OF _ a(2)] o show ?thesis by (auto simp: honest_def)
next
  assume r: "fst (tr_receiver x) = Rf_returned True"
  then have "tr_opened x" using i by (auto simp: transfer_inv_def fresh_session_def split: if_splits)
  with r i show ?thesis by (auto simp: transfer_inv_def receiver_inv_def checked_def)
qed

lemma success_arrived:
  assumes "net_run evp (file_job evp fs path content g) st (both_start evp C info fs path s0 is_dir p ofr g' r0) ls x"
    and "sendable evp fs path content info" and "evp_streaming evp" and "evp_sized evp"
    and "unused_client s0" and "server_sends r0 = []"
    and "fst (tr_sender x) = Sd_returned True \<or> fst (tr_receiver x) = Rf_returned True"
  shows "qs_files (snd (tr_receiver x)) (received_path is_dir p path) = Some content"
proof -
  note i = both_run_inv [OF assms(1-6)]
  have s: "tr_opened x" "sealed evp (snd (tr_receiver x))" using success_sealed [OF i assms(7)] by auto
  then have "receiver_inv evp (file_job evp fs path content g) (received_path is_dir p path) content
      (take (tr_received x) (to_receiver x)) (tr_receiver x)"
    using i by (simp add: transfer_inv_def)
  from sealed_stored [OF this s(2) sendable_fair [OF assms(2-4)]] show ?thesis ..
qed

section \<open>Before the user has agreed\<close>

definition unasked :: "files \<Rightarrow> receive_pc \<times> quic_server \<Rightarrow> bool" where
  "unasked F r \<longleftrightarrow> not_accepting (fst r) \<and> qs_has_offer (snd r) \<and> \<not> qs_file_accepted (snd r) \<and> qs_files (snd r) = F"

lemma unasked_step: "session_step evp r l t \<Longrightarrow> l \<noteq> L_answer True \<Longrightarrow> unasked F r \<Longrightarrow> unasked F t"
proof (induction rule: session_step.induct)
  case (stream_callback pc s g ev E)
  then show ?case using stream_event_no_accept [of s evp E g ev] by (simp add: unasked_def)
next
  case (connection_callback pc s c cev)
  then show ?case using connection_event_no_accept [of s c cev] by (simp add: unasked_def)
qed (auto simp: unasked_def not_accepting_def stop_receiving_def reject_offer_def Let_def)

lemma unasked_start: "unasked (qs_files r0) (receive_start is_dir p True g r0)"
  by (simp add: unasked_def not_accepting_def receive_start_def receive_begin_def Let_def)

lemma unasked_net_step:
  "net_step evp job st x l y \<Longrightarrow> l \<noteq> N_receiver (L_answer True) \<Longrightarrow> unasked F (tr_receiver x) \<Longrightarrow> unasked F (tr_receiver y)"
  by (induction rule: net_step.induct) (auto elim!: unasked_step)

lemma unasked_run:
  "net_run evp job st x ls y \<Longrightarrow> N_receiver (L_answer True) \<notin> set ls \<Longrightarrow> unasked F (tr_receiver x) \<Longrightarrow>
   unasked F (tr_receiver y)"
  by (induction rule: net_run.induct) (auto dest: unasked_net_step)

end
