(* ===== verification/Transfer_Completes.thy ===== *)
theory Transfer_Completes
  imports Transfer_Calls
begin

text \<open>
  A whole transfer can go through: a run of the system in which the user is asked and agrees, every
  call succeeds, every byte arrives, and both calls return true. It is put together from runs of
  each side alone and the four times that something arrives on the stream: the header, ACCEPT, the
  body with its end, and OK with its end.
\<close>

abbreviation system ::
  "send_pc \<times> quic_client \<Rightarrow> receive_pc \<times> quic_server \<Rightarrow> bool \<Rightarrow> nat \<Rightarrow> nat \<Rightarrow> transfer" where
  "system s r opened n m \<equiv> \<lparr>tr_sender = s, tr_receiver = r, tr_opened = opened, tr_received = n, tr_replied = m\<rparr>"

lemma sender_part:
  "send_run job s ls t \<Longrightarrow> \<forall>l \<in> set ls. sender_alone l \<Longrightarrow>
   net_run evp job st (system s r w n m) (map N_sender ls) (system t r w n m)"
  using sender_run_alone [of job s ls t "system s r w n m" evp st] by simp

lemma receiver_part:
  "session_run evp r ls t \<Longrightarrow> \<forall>l \<in> set ls. receiver_alone w l \<Longrightarrow>
   net_run evp job st (system s r w n m) (map N_receiver ls) (system s t w n m)"
  using receiver_run_alone [of evp r ls t "system s r w n m" job st] by simp

lemma net_run_one: "net_step evp job st x l y \<Longrightarrow> net_run evp job st x [l] y"
  by (rule net_cons [OF _ net_nil])

section \<open>The header and the answer\<close>

text \<open>The receiver is given the header, asks, and agrees.\<close>

lemma header_accepted:
  assumes "wf_header h" and "length (encode_file_header h) < 4294967296"
    and "payload (client_sends (snd s)) = encode_file_header h" and "server_sends r0 = []"
  obtains ls a where "net_run evp job st (system s (receive_start is_dir p True g r0) False 0 0) ls
      (system s (Rf_wait_done, a) True (length (encode_file_header h)) 0)"
    and "body_state [] a" and "qs_file_header a = h" and "qs_receiving_file a"
    and "server_sends a = [(msg_accept, False)]"
proof -
  define b where "b = receive_begin is_dir p True g r0"
  define o1 where "o1 = on_connection_event 1 (PeerStreamStarted st) b"
  define o2 where "o2 = offered 1 st h b"
  note made = offer_made(1) [OF assms(1) b_def, of evp good_env st 1, folded o1_def o2_def]
    offer_made(2-4) [OF assms(1) b_def, of 1 st, folded o2_def]
  have "session_step evp (Rf_wait_offer, b) (L_connection 1 (PeerStreamStarted st)) (Rf_wait_offer, o1)"
    unfolding o1_def by (rule connection_callback)
  then have s1: "net_step evp job st (system s (Rf_wait_offer, b) False 0 0) (N_open 1) (system s (Rf_wait_offer, o1) True 0 0)"
    using stream_opened [of "system s (Rf_wait_offer, b) False 0 0" evp 1 st "(Rf_wait_offer, o1)" job] by simp
  have "session_step evp (Rf_wait_offer, o1) (L_stream st (Receive [encode_file_header h])) (Rf_wait_offer, o2)"
    using stream_callback [of evp Rf_wait_offer o1 st "Receive [encode_file_header h]" good_env] made(1) by simp
  then have s2: "net_step evp job st (system s (Rf_wait_offer, o1) True 0 0) (N_data [encode_file_header h])
      (system s (Rf_wait_offer, o2) True (length (encode_file_header h)) 0)"
    using data_arrives [of "system s (Rf_wait_offer, o1) True 0 0" "[encode_file_header h]" evp st
        "(Rf_wait_offer, o2)" job] assms(2,3) by (simp add: to_receiver_def)
  have first: "net_run evp job st (system s (Rf_wait_offer, b) False 0 0) [N_open 1, N_data [encode_file_header h]]
      (system s (Rf_wait_offer, o2) True (length (encode_file_header h)) 0)"
    by (rule net_cons [OF s1 net_cons [OF s2 net_nil]])
  obtain a where a: "accept_offer good_env o2 = (Rf_accepting, a)" "body_state [] a"
    "qs_file_header a = h" "qs_receiving_file a"
    using offer_accepted [OF b_def, of 1 st h] unfolding o2_def by blast
  have fields: "qs_file_stream a = Some st" "server_sends a = []"
  proof -
    have "qs_file_stream o2 = Some st" "server_sends o2 = []"
      using assms(4) by (simp_all add: o2_def offered_def b_def receive_begin_def on_connection_event_def
          api_call_def io_call_def Let_def)
    then show "qs_file_stream a = Some st" "server_sends a = []"
      using a(1) by (auto simp: accept_offer_def case_prod_beta split: if_splits)
  qed
  define a1 where "a1 = snd (server_send good_env (qs_file_stream a) msg_accept False a)"
  have "session_run evp (Rf_wait_offer, o2) [L_wake, L_answer True, L_send_accept] (Rf_wait_done, a1)"
  proof (rule run_step [OF offer_arrived [OF made(2,3)]], rule run_step)
    show "session_step evp (Rf_prompt (qs_file_header o2), o2) (L_answer True) (Rf_accepting, a)"
      using answer_yes [of evp "qs_file_header o2" o2 good_env] a(1) by simp
    show "session_run evp (Rf_accepting, a) [L_send_accept] (Rf_wait_done, a1)"
      unfolding a1_def by (rule run_step [OF send_accept run_nil])
  qed
  from net_run_append [OF first receiver_part [OF this]]
  have run: "net_run evp job st (system s (Rf_wait_offer, b) False 0 0)
      ([N_open 1, N_data [encode_file_header h]] @ map N_receiver [L_wake, L_answer True, L_send_accept])
      (system s (Rf_wait_done, a1) True (length (encode_file_header h)) 0)" by simp
  show thesis
  proof (rule that)
    show "net_run evp job st (system s (receive_start is_dir p True g r0) False 0 0)
      ([N_open 1, N_data [encode_file_header h]] @ map N_receiver [L_wake, L_answer True, L_send_accept])
      (system s (Rf_wait_done, a1) True (length (encode_file_header h)) 0)"
      using run by (simp add: receive_start_def b_def)
    show "body_state [] a1" "qs_file_header a1 = h" "qs_receiving_file a1"
      using a by (simp_all add: a1_def body_state_def)
    show "server_sends a1 = [(msg_accept, False)]"
      using fields by (simp add: a1_def good_env_def)
  qed
qed

section \<open>The body and the acknowledgement\<close>

lemma body_acknowledged:
  assumes "evp_streaming evp" and "body_state [] a" and "receive_spec evp h content" and "qs_file_header a = h"
    and "qs_receiving_file a" and "server_sends a = [(msg_accept, False)]"
    and "payload (client_sends (snd s)) = encode_file_header h @ content" and "ended (client_sends (snd s))"
  obtains ls b where "net_run evp job st (system s (Rf_wait_done, a) True (length (encode_file_header h)) m) ls
      (system s (Rf_returned True, b) True (length (encode_file_header h @ content)) m)"
    and "server_sends b = [(msg_accept, False), (msg_ok, True)]"
proof -
  define ds where "ds = map (\<lambda>c. [c]) content"
  have ds: "concat ds = content" "\<forall>d \<in> set ds. length d < 4294967296"
    by (auto simp: ds_def)
  define r where "r = on_stream_event evp good_env st (Receive ds) a"
  define f where "f = on_stream_event evp good_env st PeerSendShutdown r"
  define t where "t = on_stream_event evp good_env st (SendComplete 0) f"
  have spec: "receive_spec evp h (concat ds)" using assms(3) ds(1) by simp
  note body = accepted_body [OF assms(1,2) spec ds(2) assms(4,5), of t st, unfolded t_def f_def r_def, OF refl]
  have rs: "r = fold (append_file_bytes good_env) ds a" using assms(5) by (simp add: r_def on_stream_event_def)
  have rf: "body_state content r" "same_session r a"
    using body_state_fold [OF assms(2) _ ds(2), of good_env] ds(1) by (simp_all add: rs good_env_def)
  have v: "verdict_of evp r"
    using verdict_spec [OF assms(1) rf(1)] assms(3,4) rf(2) by (simp add: same_session_def)
  have "f = finish_file_receive evp good_env st r"
    using rf assms(5) by (simp add: f_def on_stream_event_def body_state_def same_session_def)
  then have sends: "server_sends f = [(msg_accept, False), (msg_ok, True)]"
    using rf(2) assms(6) v by (simp add: finish_eq ack_send_def good_env_def same_session_def)
  let ?H = "length (encode_file_header h)"
  have "session_step evp (Rf_wait_done, a) (L_stream st (Receive ds)) (Rf_wait_done, r)"
    unfolding r_def by (rule stream_callback)
  then have s1: "net_step evp job st (system s (Rf_wait_done, a) True ?H m) (N_data ds)
      (system s (Rf_wait_done, r) True (?H + length content) m)"
    using data_arrives [of "system s (Rf_wait_done, a) True ?H m" ds evp st "(Rf_wait_done, r)" job] ds assms(7)
    by (simp add: to_receiver_def)
  have "session_step evp (Rf_wait_done, r) (L_stream st PeerSendShutdown) (Rf_wait_done, f)"
    unfolding f_def by (rule stream_callback)
  then have s2: "net_step evp job st (system s (Rf_wait_done, r) True (?H + length content) m) N_end
      (system s (Rf_wait_done, f) True (?H + length content) m)"
    using end_arrives [of "system s (Rf_wait_done, r) True (?H + length content) m" evp st "(Rf_wait_done, f)" job]
      assms(7,8) by (simp add: to_receiver_def)
  have first: "net_run evp job st (system s (Rf_wait_done, a) True ?H m) [N_data ds, N_end]
      (system s (Rf_wait_done, f) True (?H + length content) m)"
    by (rule net_cons [OF s1 net_cons [OF s2 net_nil]])
  have "session_run evp (Rf_wait_done, f) [L_stream st (SendComplete 0), L_wake, L_timeout]
      (Rf_returned True, stop_receiving t)"
    unfolding t_def
    by (intro run_step [OF stream_callback] run_step [OF done_ok] run_step [OF drain_timeout] run_nil)
       (use body in \<open>simp_all add: f_def r_def\<close>)
  from net_run_append [OF first receiver_part [OF this]]
  have run: "net_run evp job st (system s (Rf_wait_done, a) True ?H m)
      ([N_data ds, N_end] @ map N_receiver [L_stream st (SendComplete 0), L_wake, L_timeout])
      (system s (Rf_returned True, stop_receiving t) True (length (encode_file_header h @ content)) m)" by simp
  show thesis
    by (rule that [OF run])
       (use sends in \<open>simp add: stop_receiving_def t_def on_stream_event_def free_block_def notify_file_waiter_def Let_def\<close>)
qed

section \<open>The sender\<close>

text \<open>The header goes out, and ACCEPT is read.\<close>

lemma header_sent_run:
  assumes "ready_client s0" and "fair_job job content" and "client_sends s0 = []" and "replies_inv s0"
  obtains b where "net_run evp job st (system (send_file_internal (good_client st) (sj_header job) s0) r w n m)
      (map N_sender [S_stream st (SendComplete 0), S_wake]) (system (Sd_decision, b) r w n m)"
    and "qc_awaiting_decision b" and "qc_decision_buf b = []" and "qc_stream b = Some st" and "qc_file_ack b = []"
    and "\<not> qc_file_ok b" and "payload (client_sends b) = encode_file_header (sj_header job)"
proof -
  obtain a where start: "send_file_internal (good_client st) (sj_header job) s0 = (Sd_header_wait, a)"
    and a: "qc_awaiting_decision a" "qc_decision_buf a = []" "qc_stream a = Some st" "qc_file_ack a = []" "\<not> qc_file_ok a"
    using send_start_good [OF assms(1)] by blast
  have "send_inv job [] (Sd_header_wait, a)"
    using send_inv_start [OF refl assms(4), of job "good_client st"] assms(3) start by simp
  moreover have "u32_part (encode_file_header (sj_header job)) = encode_file_header (sj_header job)"
    using assms(2) by (intro u32_part_small) (simp add: fair_job_def k_max_header_bytes_def)
  ultimately have sent: "payload (client_sends a) = encode_file_header (sj_header job)"
    by (auto simp: send_inv_def send_progressed_def)
  let ?b = "a\<lparr>qc_io := free_block 0 (qc_io a), qc_send_done := True\<rparr>"
  have "send_run job (Sd_header_wait, a) [S_stream st (SendComplete 0), S_wake] (Sd_decision, ?b)"
    by (rule send_cons [OF client_stream_callback], unfold send_completes, rule send_cons [OF header_sent send_nil]) simp
  from sender_part [OF this, of evp st r w n m] show thesis
    by (intro that [of ?b]) (use a sent start in \<open>simp_all add: free_block_def\<close>)
qed

lemma accept_arrives:
  assumes "qc_awaiting_decision b" and "qc_decision_buf b = []" and "qc_stream b = Some st" and "qc_file_ack b = []"
    and "\<not> qc_file_ok b" and "server_sends a = [(msg_accept, False)]" and "fair_job job content"
  obtains ls u where "net_run evp job st (system (Sd_decision, b) (pc, a) w n 0) ls
      (system (Sd_ack_wait, u) (pc, a) w n (length msg_accept))" and "sending st u"
proof -
  let ?c = "client_on_stream_event st (Receive [msg_accept]) b"
  have c: "sending st ?c" "accepted_client ?c" by (rule accept_received; simp add: assms)+
  have "send_step job (Sd_decision, b) (S_stream st (Receive [msg_accept])) (Sd_decision, ?c)"
    by (rule client_stream_callback)
  then have s1: "net_step evp job st (system (Sd_decision, b) (pc, a) w n 0) (N_reply [msg_accept])
      (system (Sd_decision, ?c) (pc, a) w n (length msg_accept))"
    using reply_arrives [of "[msg_accept]" "system (Sd_decision, b) (pc, a) w n 0" job st "(Sd_decision, ?c)" evp]
      assms(6) by (simp add: to_sender_def)
  have "sj_size job = 0 \<or> (\<exists>ct. sj_file job = Some ct \<and> unat (sj_size job) \<le> length ct)"
    using fair_size [OF assms(7)] assms(7) by (simp add: fair_job_def)
  then obtain ls u where u: "send_run job (send_body (good_client st) job ?c) ls (Sd_ack_wait, u)" "sending st u"
      "set ls \<subseteq> own_labels st"
    using send_body_completes [OF c(1)] by blast
  have "send_run job (Sd_decision, ?c) (S_wake # ls) (Sd_ack_wait, u)"
    by (rule send_cons [OF decision_yes u(1)]) (use c(2) in \<open>simp_all add: accepted_client_def\<close>)
  moreover have "\<forall>l \<in> set (S_wake # ls). sender_alone l" using u(3) by (auto simp: own_labels_def)
  ultimately have "net_run evp job st (system (Sd_decision, ?c) (pc, a) w n (length msg_accept))
      (map N_sender (S_wake # ls)) (system (Sd_ack_wait, u) (pc, a) w n (length msg_accept))"
    by (rule sender_part)
  from net_cons [OF s1 this] u(2) show thesis by (rule that)
qed

lemma ok_arrives:
  assumes "sending st u" and "server_sends b = [(msg_accept, False), (msg_ok, True)]"
  obtains ls v where "net_run evp job st (system (Sd_ack_wait, u) (pc, b) w n (length msg_accept)) ls
      (system (Sd_returned True, v) (pc, b) w n (length msg_accept + length msg_ok))"
proof -
  let ?c = "client_on_stream_event st (Receive [msg_ok]) u"
  let ?v = "client_on_stream_event st PeerSendShutdown ?c"
  have v: "qc_file_done ?v" "qc_file_ok ?v" using ok_received [OF assms(1)] by blast+
  have "send_step job (Sd_ack_wait, u) (S_stream st (Receive [msg_ok])) (Sd_ack_wait, ?c)"
    by (rule client_stream_callback)
  then have s1: "net_step evp job st (system (Sd_ack_wait, u) (pc, b) w n (length msg_accept)) (N_reply [msg_ok])
      (system (Sd_ack_wait, ?c) (pc, b) w n (length msg_accept + length msg_ok))"
    using reply_arrives [of "[msg_ok]" "system (Sd_ack_wait, u) (pc, b) w n (length msg_accept)" job st "(Sd_ack_wait, ?c)" evp]
      assms(2) by (simp add: to_sender_def)
  have "send_step job (Sd_ack_wait, ?c) (S_stream st PeerSendShutdown) (Sd_ack_wait, ?v)"
    by (rule client_stream_callback)
  then have s2: "net_step evp job st (system (Sd_ack_wait, ?c) (pc, b) w n (length msg_accept + length msg_ok)) N_reply_end
      (system (Sd_ack_wait, ?v) (pc, b) w n (length msg_accept + length msg_ok))"
    using reply_end_arrives [of "system (Sd_ack_wait, ?c) (pc, b) w n (length msg_accept + length msg_ok)" job st
        "(Sd_ack_wait, ?v)" evp] assms(2) by (simp add: to_sender_def ended_def)
  have "send_run job (Sd_ack_wait, ?v) [S_wake] (Sd_returned True, ?v)"
    using send_cons [OF ack_arrived [OF v(1), of job] send_nil] v(2) by simp
  from sender_part [OF this, of evp st "(pc, b)" w n "length msg_accept + length msg_ok"]
  show thesis by (intro that [OF net_cons [OF s1 net_cons [OF s2]]]) simp
qed

lemma all_sent:
  assumes "send_inv job [] (Sd_ack_wait, u)" and "fair_job job content"
  shows "payload (client_sends u) = encode_file_header (sj_header job) @ content" and "ended (client_sends u)"
proof -
  have h: "u32_part (encode_file_header (sj_header job)) = encode_file_header (sj_header job)"
    using assms(2) by (intro u32_part_small) (simp add: fair_job_def k_max_header_bytes_def)
  obtain cs where cs: "client_sends u = (u32_part (encode_file_header (sj_header job)), False) # cs" "body_sent job cs"
    using assms(1) by (auto simp: send_inv_def send_progressed_def)
  have f: "sj_file job = Some content" "unat (sj_size job) = length content"
    using assms(2) fair_size [OF assms(2)] by (simp_all add: fair_job_def)
  have body: "payload cs = content \<and> cs \<noteq> [] \<and> snd (last cs)"
  proof (cases "sj_size job = 0")
    case True
    then show ?thesis using cs(2) f(2) by (simp add: body_sent_def)
  next
    case False
    then have "content \<noteq> []" using f(2) by (metis list.size(3) unat_eq_zero)
    then show ?thesis using cs(2) f False by (auto simp: body_sent_def chunks_of_def)
  qed
  then show "payload (client_sends u) = encode_file_header (sj_header job) @ content" using cs(1) h by simp
  show "ended (client_sends u)" using body cs(1) by (simp add: ended_def)
qed

lemma announced_spec:
  assumes "sendable evp fs path content info" and "evp_streaming evp" and "evp_sized evp"
  shows "receive_spec evp (sent_header (file_job evp fs path content g)) content"
proof -
  have f: "file_contents fs path = Some content" using assms(1) by (simp add: sendable_def file_contents_def)
  obtain hash live where hash: "sha256_file evp fs path [] 0 = (True, hash, live)"
    using assms(1) by (cases "sha256_file evp fs path [] 0") (auto simp: sendable_def)
  then have b: "sha256_bytes evp content [] 0 = (True, hash, live)"
    using sha256_file_bytes [OF assms(2) f] by simp
  have "live = 0" using b by (auto simp: sha256_bytes_def Let_def split: option.splits)
  with b hash sha256_bytes_form [OF assms(3) b] fair_header(4) [OF sendable_fair [OF assms]]
  show ?thesis by (simp add: receive_spec_def sent_header_def normalise_header_def file_job_def)
qed

section \<open>The run\<close>

lemma both_start_ready:
  assumes "sendable evp fs path content info" and "pi_exists info" and "\<not> pi_directory info" and "pi_regular info"
    and "ready_client s0"
  shows "both_start evp C info fs path s0 is_dir p ofr g' r0
    = system (send_file_internal C (sj_header (file_job evp fs path content g)) s0)
        (receive_start is_dir p ofr g' r0) False 0 0"
  using assms
  by (auto simp: both_start_def net_start_def send_file_def file_job_def sendable_def ready_client_def case_prod_beta)

lemma completing_run:
  assumes "sendable evp fs path content info" and "evp_streaming evp" and "evp_sized evp"
    and "pi_exists info" and "\<not> pi_directory info" and "pi_regular info"
    and "ready_client s0" and "unused_client s0" and "server_sends r0 = []"
  shows "\<exists>ls x. net_run evp (file_job evp fs path content g) st
       (both_start evp (good_client st) info fs path s0 is_dir p True g' r0) ls x
     \<and> fst (tr_sender x) = Sd_returned True \<and> fst (tr_receiver x) = Rf_returned True"
proof -
  define job where "job = file_job evp fs path content g"
  define h where "h = sent_header job"
  let ?r = "receive_start is_dir p True g' r0" and ?H = "length (encode_file_header h)"
  have fair: "fair_job job content" unfolding job_def by (rule sendable_fair [OF assms(1-3)])
  note hd = fair_header [OF fair, folded h_def]
  have start: "both_start evp (good_client st) info fs path s0 is_dir p True g' r0
      = system (send_file_internal (good_client st) (sj_header job) s0) ?r False 0 0"
    unfolding job_def by (rule both_start_ready [OF assms(1,4-7)])
  have s0: "client_sends s0 = []" "replies_inv s0" using assms(8) by (simp_all add: unused_client_def replies_inv_def)
  obtain b where b: "net_run evp job st (system (send_file_internal (good_client st) (sj_header job) s0) ?r False 0 0)
      (map N_sender [S_stream st (SendComplete 0), S_wake]) (system (Sd_decision, b) ?r False 0 0)"
    "qc_awaiting_decision b" "qc_decision_buf b = []" "qc_stream b = Some st" "qc_file_ack b = []" "\<not> qc_file_ok b"
    "payload (client_sends b) = encode_file_header (sj_header job)"
    by (rule header_sent_run [OF assms(7) fair s0])
  have short: "?H < 4294967296" using hd(3) by (simp add: k_max_header_bytes_def)
  obtain ls1 a where a: "net_run evp job st (system (Sd_decision, b) ?r False 0 0) ls1
      (system (Sd_decision, b) (Rf_wait_done, a) True ?H 0)"
    "body_state [] a" "qs_file_header a = h" "qs_receiving_file a" "server_sends a = [(msg_accept, False)]"
    by (rule header_accepted [OF hd(1) short _ assms(9), of "(Sd_decision, b)"]) (use b(7) hd(2) in auto)
  obtain ls2 u where u: "net_run evp job st (system (Sd_decision, b) (Rf_wait_done, a) True ?H 0) ls2
      (system (Sd_ack_wait, u) (Rf_wait_done, a) True ?H (length msg_accept))" "sending st u"
    by (rule accept_arrives [OF b(2-6) a(5) fair])
  note so_far = net_run_append [OF b(1) net_run_append [OF a(1) u(1)]]
  have "send_inv job [] (Sd_ack_wait, u)"
    using both_run_inv [OF so_far [folded start, unfolded job_def] assms(1-3,8,9)]
    by (simp add: transfer_inv_def job_def)
  note sent = all_sent [OF this fair]
  obtain ls3 c where c: "net_run evp job st (system (Sd_ack_wait, u) (Rf_wait_done, a) True ?H (length msg_accept)) ls3
      (system (Sd_ack_wait, u) (Rf_returned True, c) True (length (encode_file_header h @ content)) (length msg_accept))"
    "server_sends c = [(msg_accept, False), (msg_ok, True)]"
    by (rule body_acknowledged [OF assms(2) a(2) announced_spec [OF assms(1-3), of g, folded job_def, folded h_def]
          a(3-5), of "(Sd_ack_wait, u)"]) (use sent hd(2) in auto)
  obtain ls4 v where v: "net_run evp job st
      (system (Sd_ack_wait, u) (Rf_returned True, c) True (length (encode_file_header h @ content)) (length msg_accept)) ls4
      (system (Sd_returned True, v) (Rf_returned True, c) True (length (encode_file_header h @ content))
         (length msg_accept + length msg_ok))"
    by (rule ok_arrives [OF u(2) c(2)])
  note run = net_run_append [OF so_far net_run_append [OF c(1) v]]
  show ?thesis unfolding start job_def [symmetric] by (rule exI, rule exI, rule conjI, rule run) simp
qed

section \<open>An example\<close>

abbreviation demo_fs :: files where
  "demo_fs \<equiv> [''d/a.txt'' \<mapsto> ''abc'']"

abbreviation demo_info :: path_info where
  "demo_info \<equiv> \<lparr>pi_exists = True, pi_directory = False, pi_regular = True, pi_size = Some 3\<rparr>"

lemma demo_sendable: "sendable toy_evp demo_fs ''d/a.txt'' ''abc'' demo_info"
proof -
  have name: "path_filename ''d/a.txt'' = ''a.txt''" by code_simp
  have hex: "digest_to_hex 32 (replicate 32 (char_of (294::nat))) = concat (replicate 32 ''26'')"
    using abc_spec abc_hash sha256_file_bytes [OF toy_evp_streaming, of demo_fs "''d/a.txt''" "''abc''" "[]" 0]
    by (simp add: receive_spec_def abc_header_def file_contents_def)
  note hash = abc_hash [unfolded hex]
  have "sj_header (file_job toy_evp demo_fs ''d/a.txt'' ''abc'' False) = abc_header"
    unfolding file_job_def name hash abc_header_def by simp
  then show ?thesis using abc_short by (simp add: sendable_def hash k_max_header_bytes_def)
qed

abbreviation demo_send :: send_job where
  "demo_send \<equiv> file_job toy_evp demo_fs ''d/a.txt'' ''abc'' False"

abbreviation demo_start :: "bool \<Rightarrow> transfer" where
  "demo_start has_offer \<equiv> both_start toy_evp (good_client 2) demo_info demo_fs ''d/a.txt'' demo_client
     (\<lambda>_. False) ''in/'' has_offer False (new_server 53317 Map.empty)"

lemma demo_unused: "unused_client demo_client" "server_sends (new_server 53317 Map.empty) = []"
  by (simp_all add: unused_client_def demo_client_def new_client_def new_server_def io_init_def)

end
