(* ===== verification/Transfer_Properties.thy ===== *)
theory Transfer_Properties
  imports Transfer_Completes End_To_End
begin

text \<open>
  The properties of a whole transfer: what either side may conclude when its call returns true,
  what leaves the sending machine before the receiver's user has agreed, and that a transfer can
  go through.
\<close>

section \<open>Properties\<close>

text \<open>
  C2: When one side says that the transfer succeeded, the file has arrived. Let \<open>send_file\<close> and
  \<open>receive_file\<close> run against each other over one stream, interleaved in any way, with the stream
  cut into any buffers, and with any losses, failing calls, failing writes and timeouts. If
  \<open>send_file\<close> has returned true, or \<open>receive_file\<close> has, then the receiver's file holds exactly the
  contents of the sender's, under the sender's file name, sanitised, in the folder given, or at
  the path given. No assumption on the strength of the hash is made.
\<close>

theorem success_means_arrived:
  assumes "net_run evp (file_job evp fs path content g) st (both_start evp C info fs path s0 is_dir p ofr g' r0) ls x"
    and "sendable evp fs path content info" and "evp_streaming evp" and "evp_sized evp"
    and "unused_client s0" and "server_sends r0 = []"
    and "fst (tr_sender x) = Sd_returned True \<or> fst (tr_receiver x) = Rf_returned True"
  shows "qs_files (snd (tr_receiver x)) (received_path is_dir p path) = Some content"
  by (rule success_arrived [OF assms])

theorem success_means_arrived_witness:
  "\<exists>ls x. net_run toy_evp demo_send 2 (demo_start True) ls x \<and> fst (tr_sender x) = Sd_returned True
     \<and> qs_files (snd (tr_receiver x)) ''in/a.txt'' = Some ''abc''"
proof -
  obtain ls x where x: "net_run toy_evp demo_send 2 (demo_start True) ls x" "fst (tr_sender x) = Sd_returned True"
    using completing_run [OF demo_sendable toy_evp_streaming toy_sized _ _ _ demo_ready(1) demo_unused,
        of False 2 "\<lambda>_. False" "''in/''" False] by auto
  have "received_path (\<lambda>_. False) ''in/'' ''d/a.txt'' = ''in/a.txt''" by code_simp
  then have "qs_files (snd (tr_receiver x)) ''in/a.txt'' = Some ''abc''"
    using success_means_arrived [OF x(1) demo_sendable toy_evp_streaming toy_sized demo_unused] x(2) by simp
  with x show ?thesis by blast
qed

text \<open>
  C4: Nothing happens on either machine before the user has agreed. In a run in which the receiver
  asks its user and the user has not said yes, no byte of the file has been sent: what the sender
  has put on the stream is nothing, or the header. And no file of the receiver has changed.
\<close>

theorem no_byte_before_consent:
  assumes "net_run evp (file_job evp fs path content g) st (both_start evp C info fs path s0 is_dir p True g' r0) ls x"
    and "sendable evp fs path content info" and "evp_streaming evp" and "evp_sized evp"
    and "unused_client s0" and "server_sends r0 = []"
    and "N_receiver (L_answer True) \<notin> set ls"
  shows "to_receiver x \<in> {[], encode_file_header (sj_header (file_job evp fs path content g))}
    \<and> qs_files (snd (tr_receiver x)) = qs_files r0"
proof -
  let ?job = "file_job evp fs path content g"
  note i = both_run_inv [OF assms(1-6)]
  have "unasked (qs_files r0) (tr_receiver x)"
    by (rule unasked_run [OF assms(1,7)]) (simp add: both_start_def net_start_def unasked_start)
  then have u: "\<not> qs_file_accepted (snd (tr_receiver x))" "qs_files (snd (tr_receiver x)) = qs_files r0"
    by (simp_all add: unasked_def)
  then have no: "\<not> accepted_client (snd (tr_sender x))" using accepted_everywhere [OF i] by blast
  have "send_inv ?job [] (tr_sender x)" using i by (simp add: transfer_inv_def)
  from sent_shape [OF this sendable_fair [OF assms(2-4)]] no
  have "to_receiver x \<in> {[], encode_file_header (sj_header ?job)}"
    unfolding to_receiver_def by (metis append_Nil2 concat.simps(1) insertCI list.map(1))
  with u show ?thesis by simp
qed

theorem no_byte_before_consent_witness:
  "\<exists>ls x. net_run toy_evp demo_send 2 (demo_start True) ls x \<and> fst (tr_sender x) = Sd_decision
     \<and> to_receiver x = encode_file_header (sj_header demo_send)"
proof -
  have start: "demo_start True = system (send_file_internal (good_client 2) (sj_header demo_send) demo_client)
      (receive_start (\<lambda>_. False) ''in/'' True False (new_server 53317 Map.empty)) False 0 0"
    by (rule both_start_ready [OF demo_sendable]) (simp_all add: demo_ready)
  have none: "client_sends demo_client = []" using demo_unused(1) by (simp add: unused_client_def)
  obtain b where run: "net_run toy_evp demo_send 2 (demo_start True)
      (map N_sender [S_stream 2 (SendComplete 0), S_wake])
      (system (Sd_decision, b) (receive_start (\<lambda>_. False) ''in/'' True False (new_server 53317 Map.empty)) False 0 0)"
    and b: "payload (client_sends b) = encode_file_header (sj_header demo_send)"
    unfolding start
    by (rule header_sent_run [OF demo_ready(1) sendable_fair [OF demo_sendable toy_evp_streaming toy_sized] none demo_ready(2)])
  have "N_receiver (L_answer True) \<notin> set (map N_sender [S_stream 2 (SendComplete 0), S_wake])" by simp
  note consent = no_byte_before_consent [OF run demo_sendable toy_evp_streaming toy_sized demo_unused this]
  have "to_receiver (system (Sd_decision, b) r False 0 0) = encode_file_header (sj_header demo_send)" for r
    using b by (simp add: to_receiver_def)
  with run consent show ?thesis by (intro exI conjI) (assumption, simp_all)
qed

text \<open>
  C3: A transfer can go through. For a connected client, a regular file of any size, and a receiver
  that asks its user, there is a run of both machines in which the user is asked and says yes, and
  \<open>send_file\<close> and \<open>receive_file\<close> both return true.
\<close>

theorem transfer_can_complete:
  assumes "sendable evp fs path content info" and "evp_streaming evp" and "evp_sized evp"
    and "pi_exists info" and "\<not> pi_directory info" and "pi_regular info"
    and "ready_client s0" and "unused_client s0" and "server_sends r0 = []"
  shows "\<exists>ls x. net_run evp (file_job evp fs path content g) st
       (both_start evp (good_client st) info fs path s0 is_dir p True g' r0) ls x
     \<and> fst (tr_sender x) = Sd_returned True \<and> fst (tr_receiver x) = Rf_returned True"
  using assms by (rule completing_run)

theorem transfer_can_complete_witness:
  "\<exists>ls x. net_run toy_evp demo_send 2 (demo_start True) ls x
     \<and> fst (tr_sender x) = Sd_returned True \<and> fst (tr_receiver x) = Rf_returned True"
  using transfer_can_complete [OF demo_sendable toy_evp_streaming toy_sized _ _ _ demo_ready(1) demo_unused,
      of False 2 "\<lambda>_. False" "''in/''" False] by simp

end
