(* ===== verification/Command_Transfer.thy ===== *)
theory Command_Transfer
  imports Transfer_Completes End_To_End Command_Sessions Client_Lifecycle Mdns
begin

text \<open>
  The program as its users run it: \<open>lft recv\<close> on one machine and \<open>lft send\<close> on another. What the two
  commands are answered by their engines comes from one run of both machines over one stream, and
  what \<open>lft send\<close> is answered by discovery comes from the registration of \<open>lft recv\<close>. The theorems say
  what the exit codes of the two commands mean together, and which address a name leads to.
\<close>

section \<open>Two commands, one transfer\<close>

text \<open>Both calls have returned, and their commands are told what they returned.\<close>

definition one_transfer :: "transfer \<Rightarrow> cli_env \<Rightarrow> path \<Rightarrow> cli_env \<Rightarrow> path \<Rightarrow> bool" where
  "one_transfer x Es file_path Er out_dir \<longleftrightarrow>
     fst (tr_sender x) = Sd_returned (cv_send Es file_path)
     \<and> fst (tr_receiver x) = Rf_returned (fst (cv_receive Er out_dir))
     \<and> snd (cv_receive Er out_dir) = qs_file_result (snd (tr_receiver x))"

text \<open>How far a command got says what its exit code depends on.\<close>

lemma send_reached:
  assumes "run_send E args = (code, actions)" and "Act_send_file p \<in> set actions"
  shows "code = (if cv_send E p then 0 else 1)"
  using assms by (auto simp: run_send_def Let_def split: option.splits if_splits sum.splits)

lemma recv_reached:
  assumes "run_recv E args = (code, actions)" and "Act_receive d \<in> set actions"
  shows "cv_is_directory E d"
    and "code = (if fst (cv_receive E d) \<or> frr_rejected (snd (cv_receive E d)) then 0 else 1)"
  using assms by (auto simp: run_recv_def Let_def split: option.splits if_splits prod.splits)

text \<open>After \<open>connect\<close> on a new client, whatever came of it, nothing was sent or answered.\<close>

lemma unused_connection_event: "unused_client s \<Longrightarrow> unused_client (client_on_connection_event c cev s)"
  by (simp add: unused_client_def)

lemma unused_disconnect_finish: "unused_client (disconnect_finish s) = unused_client s"
  by (simp add: disconnect_finish_def unused_client_def client_call_def io_call_def Let_def split: option.split)

lemma unused_disconnect: "unused_client (snd (disconnect b s)) = unused_client s"
  by (simp add: disconnect_def unused_disconnect_finish split: option.split)
    (simp add: unused_client_def client_call_def io_call_def)

lemma unused_connect: "unused_client s \<Longrightarrow> unused_client (snd (client_connect E host port s))"
  by (simp add: client_connect_def client_open_configuration_def unused_disconnect Let_def split: option.split)
    (simp add: unused_client_def client_call_def io_call_def)

lemma unused_connect_step: "connect_step x l y \<Longrightarrow> unused_client (snd x) \<Longrightarrow> unused_client (snd y)"
  by (induction rule: connect_step.induct)
    (simp_all add: unused_connection_event unused_disconnect unused_disconnect_finish)

lemma connected_unused: "connect_run (client_connect E host port new_client) ls (pc, s) \<Longrightarrow> unused_client s"
proof -
  have "connect_run x ls y \<Longrightarrow> unused_client (snd x) \<Longrightarrow> unused_client (snd y)" for x y
    by (induction rule: connect_run.induct) (auto dest: unused_connect_step)
  moreover have "unused_client (snd (client_connect E host port new_client))"
    by (rule unused_connect) (simp add: unused_client_def new_client_def io_init_def)
  ultimately show "connect_run (client_connect E host port new_client) ls (pc, s) \<Longrightarrow> unused_client s" by fastforce
qed

text \<open>A declined transfer, seen from both machines.\<close>

lemma receiver_moves_only:
  "net_step evp job st x l y \<Longrightarrow> tr_receiver y = tr_receiver x \<or> (\<exists>k. session_step evp (tr_receiver x) k (tr_receiver y))"
  by (induction rule: net_step.induct) auto

lemma untouched_net: "net_run evp job st x ls y \<Longrightarrow> untouched F (tr_receiver x) \<Longrightarrow> untouched F (tr_receiver y)"
proof (erule net_invariant)
  show "untouched F (tr_receiver z)" if "net_step evp job st w l z" "untouched F (tr_receiver w)" for w l z
    using receiver_moves_only [OF that(1)] that(2) by (metis untouched_step)
qed

lemma declined_everywhere:
  assumes "net_run evp (file_job evp fs path content g) st (both_start evp C info fs path s0 is_dir p True g' r0) ls x"
    and "sendable evp fs path content info" and "evp_streaming evp" and "evp_sized evp"
    and "unused_client s0" and "server_sends r0 = []" and "frr_rejected (qs_file_result (snd (tr_receiver x)))"
  shows "qs_files (snd (tr_receiver x)) = qs_files r0 \<and> fst (tr_sender x) \<noteq> Sd_returned True"
proof -
  have "untouched (qs_files r0) (tr_receiver x)"
    by (rule untouched_net [OF assms(1)]) (simp add: both_start_def net_start_def untouched_start)
  then have u: "\<not> qs_file_accepted (snd (tr_receiver x))" "qs_files (snd (tr_receiver x)) = qs_files r0"
    using assms(7) by (simp_all add: untouched_def unanswered_def)
  note i = both_run_inv [OF assms(1-6)]
  have "fst (tr_sender x) = Sd_returned True \<Longrightarrow> accepted_client (snd (tr_sender x))"
    using i by (auto simp: transfer_inv_def send_inv_def send_inv_pc)
  with accepted_everywhere [OF i] u show ?thesis by blast
qed

section \<open>A name that is announced\<close>

text \<open>
  What the DNS-SD library does for a registered name, as documented: the name is announced to the
  browser in time, and a resolve of a service with this name gives the registered port, in network
  order, and a host whose first address is \<open>ip\<close>.
\<close>

definition announces ::
  "advertiser \<Rightarrow> bytes \<Rightarrow> bytes \<Rightarrow> browse_reply pump_result list \<Rightarrow> (found_service \<Rightarrow> resolve_env)
   \<Rightarrow> (bytes \<Rightarrow> address list option) \<Rightarrow> bool" where
  "announces a name ip pumps resolver addrs \<longleftrightarrow>
     (\<forall>p \<in> set pumps. pu_time_left p \<and> pu_ok p) \<and> None \<notin> set (added_names (pumped pumps))
     \<and> Some name \<in> set (added_names (pumped pumps))
     \<and> (\<forall>service. fs_name service = name \<longrightarrow> (\<exists>target net ref others.
          Register (Some name) net ref \<in> set (av_calls a) \<and> target \<noteq> []
          \<and> resolver service = \<lparr>rv_started = True, rv_pumps = [\<lparr>pu_time_left = True,
               pu_replies = [\<lparr>re_no_error = True, re_host_target = Some target, re_port_net = net\<rparr>], pu_ok = True\<rparr>]\<rparr>
          \<and> addrs target = Some (\<lparr>ad_inet = True, ad_text = Some ip\<rparr> # others)))"

lemma announced_found:
  assumes "advertiser_start (Some ref) name port new_advertiser = (True, a)"
    and "announces a name ip pumps resolver addrs"
  shows "find_by_name resolver addrs True pumps name = Some (Some \<lparr>pe_name = name, pe_host = ip, pe_port = port\<rparr>)"
proof -
  obtain service where s: "fs_name service = name" "find_loop name pumps [] = Some (Some service)"
    using find_loop_complete [of pumps name "[]"] assms(2) by (auto simp: announces_def names_of_def)
  from s(1) assms(2) obtain target net ref' others where r: "Register (Some name) net ref' \<in> set (av_calls a)"
      "target \<noteq> []" "resolver service = \<lparr>rv_started = True, rv_pumps = [\<lparr>pu_time_left = True,
         pu_replies = [\<lparr>re_no_error = True, re_host_target = Some target, re_port_net = net\<rparr>], pu_ok = True\<rparr>]\<rparr>"
      "addrs target = Some (\<lparr>ad_inet = True, ad_text = Some ip\<rparr> # others)"
    unfolding announces_def by blast
  have "net = htons port" using assms(1) r(1) by (auto simp: advertiser_start_def new_advertiser_def)
  with r s show ?thesis
    by (simp add: find_by_name_def resolve_service_def on_resolve_def resolve_hostname_ipv4_def or_empty_def ntohs_htons)
qed

lemma send_to_reached:
  assumes "run_send E args = (code, actions)" and "parse_flags args = Some flags" and "map_of flags ''to'' = Some name"
    and "actions \<noteq> []" and "cv_find E name = Some peer" and "name \<noteq> []"
  shows "\<exists>rest. actions = Act_find name # Act_connect (pe_host peer) (pe_port peer) # rest"
  using assms by (auto simp: run_send_def flag_set_def flag_or_def Let_def split: if_splits option.splits sum.splits)

section \<open>An example\<close>

abbreviation demo_send_args :: "bytes list" where
  "demo_send_args \<equiv> [''--host'', ''h'', ''--file'', ''d/a.txt'', ''--port'', ''7'']"

abbreviation demo_recv_args :: "bytes list" where
  "demo_recv_args \<equiv> [''--out'', ''d'', ''--port'', ''7'', ''--name'', ''pc'']"

lemma demo_send_command:
  "run_send (demo_cli\<lparr>cv_send := f\<rparr>) demo_send_args
     = (if f ''d/a.txt'' then 0 else 1, [Act_connect ''h'' 7, Act_send_file ''d/a.txt'', Act_disconnect])"
proof -
  let ?flags = "[(''host'', ''h''), (''file'', ''d/a.txt''), (''port'', ''7'')]"
  have p: "parse_flags demo_send_args = Some ?flags" "reject_unknown_flags ?flags [''host'', ''to'', ''port'', ''file'']"
    "flag_set ?flags ''host''" "\<not> flag_set ?flags ''to''" "flag_set ?flags ''file''"
    "flag_or ?flags ''file'' [] = ''d/a.txt''" "flag_or ?flags ''host'' [] = ''h''"
    "flag_or ?flags ''port'' x = ''7''" "parse_port ''7'' = Some 7" for x
    by (code_simp | simp add: flag_or_def)+
  show ?thesis by (simp add: run_send_def p demo_cli_def Let_def)
qed

lemma demo_recv_command:
  "run_recv (demo_cli\<lparr>cv_is_directory := (\<lambda>_. True), cv_receive := (\<lambda>_. (True, r))\<rparr>) demo_recv_args
     = (0, [Act_start_server 7, Act_advertise ''pc'' 7, Act_receive ''d'', Act_stop_server])"
proof -
  let ?flags = "[(''out'', ''d''), (''port'', ''7''), (''name'', ''pc'')]"
  have p: "parse_flags demo_recv_args = Some ?flags" "reject_unknown_flags ?flags [''port'', ''out'', ''name'']"
    "flag_set ?flags ''out''" "flag_or ?flags ''out'' [] = ''d''" "flag_or ?flags ''name'' [] = ''pc''"
    "flag_or ?flags ''port'' x = ''7''" "parse_port ''7'' = Some 7" for x
    by (code_simp | simp add: flag_or_def)+
  show ?thesis by (simp add: run_recv_def p demo_cli_def Let_def)
qed

section \<open>Properties\<close>

text \<open>
  C1: The exit codes of \<open>lft send\<close> and \<open>lft recv\<close> tell the truth about the transfer between them.
  Let both commands get as far as their transfer, and let their engines run against each other over
  one stream in any interleaving, with any losses, failures and timeouts, the client from its
  \<open>connect\<close> on. If \<open>lft send\<close> exits with 0, the folder given with \<open>--out\<close> holds the contents of the
  file given with \<open>--file\<close>, under its sanitised name. If \<open>lft recv\<close> exits with 0, so it does, or the
  transfer was declined: then no file has changed on the receiving machine, and \<open>lft send\<close> exits
  with 1. No other code is possible.
\<close>

theorem commands_transfer:
  assumes "run_send Es sargs = (cs, sacts)" and "{Act_connect host port, Act_send_file path} \<subseteq> set sacts"
    and "run_recv Er rargs = (cr, racts)" and "Act_receive d \<in> set racts"
    and "connect_run (client_connect K host port new_client) ks (Cn_returned True, s0)"
    and "net_run evp (file_job evp fs path content g) st
      (both_start evp C info fs path s0 (cv_is_directory Er) d True g' r0) ls x"
    and "one_transfer x Es path Er d"
    and "sendable evp fs path content info" and "evp_streaming evp" and "evp_sized evp"
    and "server_sends r0 = []"
  shows "cs \<in> {0, 1} \<and> cr \<in> {0, 1}
    \<and> (cs = 0 \<longrightarrow> qs_files (snd (tr_receiver x)) (path_append d (sanitize_file_name (path_filename path))) = Some content)
    \<and> (cr = 0 \<longrightarrow> qs_files (snd (tr_receiver x)) (path_append d (sanitize_file_name (path_filename path))) = Some content
         \<or> qs_files (snd (tr_receiver x)) = qs_files r0 \<and> cs = 1)"
proof -
  have "Act_send_file path \<in> set sacts" using assms(2) by simp
  note s = send_reached [OF assms(1) this] and r = recv_reached [OF assms(3,4)]
  note unused = connected_unused [OF assms(5)]
  have path: "received_path (cv_is_directory Er) d path = path_append d (sanitize_file_name (path_filename path))"
    using r(1) by (simp add: received_path_def looks_like_dir_def)
  note stored = success_arrived [OF assms(6,8-10) unused assms(11), unfolded path]
  note no = declined_everywhere [OF assms(6,8-10) unused assms(11)]
  from assms(7) have t: "fst (tr_sender x) = Sd_returned (cv_send Es path)"
    "fst (tr_receiver x) = Rf_returned (fst (cv_receive Er d))"
    "snd (cv_receive Er d) = qs_file_result (snd (tr_receiver x))" by (simp_all add: one_transfer_def)
  show ?thesis using s r(2) stored no t by auto
qed

lemma demo_connected:
  obtains s where "connect_run (client_connect demo_connect ''h'' 7 new_client) [K_connection 3 C_connected, K_wake]
      (Cn_returned True, s)" and "ready_client s"
proof -
  obtain w where w: "client_connect demo_connect ''h'' 7 new_client = (Cn_wait, w)" "qc_api w" "qc_connection w = Some 3"
    by (simp add: client_connect_def demo_connect_def new_client_def client_open_configuration_def client_call_def Let_def)
  let ?s = "client_on_connection_event 3 C_connected w"
  have "qc_connect_done ?s" "qc_connect_ok ?s" "ready_client ?s"
    using w by (simp_all add: client_on_connection_event_def notify_connect_waiter_def ready_client_def)
  with w(1) show thesis
    by (intro that [of ?s]) (auto intro!: connect_cons [OF connect_callback] connect_cons [OF connect_ok] connect_nil)
qed

theorem commands_transfer_witness:
  "\<exists>Es Er x. run_send Es demo_send_args = (0, [Act_connect ''h'' 7, Act_send_file ''d/a.txt'', Act_disconnect])
     \<and> run_recv Er demo_recv_args = (0, [Act_start_server 7, Act_advertise ''pc'' 7, Act_receive ''d'', Act_stop_server])
     \<and> one_transfer x Es ''d/a.txt'' Er ''d'' \<and> qs_files (snd (tr_receiver x)) ''d/a.txt'' = Some ''abc''"
proof -
  obtain s0 where c: "connect_run (client_connect demo_connect ''h'' 7 new_client) [K_connection 3 C_connected, K_wake]
      (Cn_returned True, s0)" "ready_client s0" by (rule demo_connected)
  obtain ls x where x: "net_run toy_evp demo_send 2 (both_start toy_evp (good_client 2) demo_info demo_fs ''d/a.txt''
      s0 (\<lambda>_. True) ''d'' True False (new_server 53317 Map.empty)) ls x"
    "fst (tr_sender x) = Sd_returned True" "fst (tr_receiver x) = Rf_returned True"
    using completing_run [OF demo_sendable toy_evp_streaming toy_sized _ _ _ c(2) connected_unused [OF c(1)] demo_unused(2),
        of False 2 "\<lambda>_. True" "''d''" False] by auto
  define Es where "Es = demo_cli\<lparr>cv_send := (\<lambda>p. True)\<rparr>"
  define Er where "Er = demo_cli\<lparr>cv_is_directory := (\<lambda>_. True), cv_receive := (\<lambda>_. (True, qs_file_result (snd (tr_receiver x))))\<rparr>"
  have s: "run_send Es demo_send_args = (0, [Act_connect ''h'' 7, Act_send_file ''d/a.txt'', Act_disconnect])"
    by (simp add: Es_def demo_send_command)
  have r: "run_recv Er demo_recv_args = (0, [Act_start_server 7, Act_advertise ''pc'' 7, Act_receive ''d'', Act_stop_server])"
    by (simp add: Er_def demo_recv_command)
  have o: "one_transfer x Es ''d/a.txt'' Er ''d''" using x(2,3) by (simp add: one_transfer_def Es_def Er_def)
  have "cv_is_directory Er = (\<lambda>_. True)" by (simp add: Er_def)
  note run = x(1) [folded this]
  have name: "path_append ''d'' (sanitize_file_name (path_filename ''d/a.txt'')) = ''d/a.txt''" by code_simp
  from commands_transfer [OF s _ r _ c(1) run o demo_sendable toy_evp_streaming toy_sized demo_unused(2)]
  have "qs_files (snd (tr_receiver x)) ''d/a.txt'' = Some ''abc''" unfolding name by simp
  with s r o show ?thesis by blast
qed

text \<open>
  C39: A name leads to the receiver that announced it. When \<open>lft recv --name\<close> registers a name and the
  DNS-SD service hands the registration out as documented, then \<open>lft send --to\<close> with this name finds
  it and connects to the address of that machine and to the port the receiver listens on, in spite
  of the two conversions of byte order.
\<close>

theorem named_receiver_reached:
  assumes "run_recv Er rargs = (cr, racts)" and "Act_advertise name port \<in> set racts" and "name \<noteq> []"
    and "advertiser_start (Some ref) name port new_advertiser = (True, a)"
    and "announces a name ip pumps resolver addrs"
    and "run_send Es sargs = (cs, sacts)" and "parse_flags sargs = Some flags" and "map_of flags ''to'' = Some name"
    and "sacts \<noteq> []" and "find_by_name resolver addrs True pumps name = Some (cv_find Es name)"
  shows "(\<exists>rest. sacts = Act_find name # Act_connect ip port # rest) \<and> Act_start_server port \<in> set racts"
proof -
  have "cv_find Es name = Some \<lparr>pe_name = name, pe_host = ip, pe_port = port\<rparr>"
    using announced_found [OF assms(4,5)] assms(10) by simp
  from send_to_reached [OF assms(6-9) this assms(3)] have "\<exists>rest. sacts = Act_find name # Act_connect ip port # rest" by simp
  moreover have "Act_start_server port \<in> set racts"
    using assms(1,2) by (auto simp: run_recv_def Let_def split: option.splits if_splits prod.splits)
  ultimately show ?thesis ..
qed

theorem named_receiver_reached_witness:
  "\<exists>Es Er rest. run_recv Er demo_recv_args = (0, [Act_start_server 7, Act_advertise ''pc'' 7, Act_receive ''d'', Act_stop_server])
     \<and> snd (run_send Es [''--to'', ''pc'', ''--file'', ''f'']) = Act_find ''pc'' # Act_connect ''10.0.0.2'' 7 # rest"
proof -
  define a where "a = snd (advertiser_start (Some 1) ''pc'' 7 new_advertiser)"
  define resolver where "resolver = (\<lambda>_ :: found_service. \<lparr>rv_started = True, rv_pumps = [\<lparr>pu_time_left = True,
     pu_replies = [\<lparr>re_no_error = True, re_host_target = Some ''pc.local.'', re_port_net = htons 7\<rparr>], pu_ok = True\<rparr>]\<rparr>)"
  define addrs where "addrs = (\<lambda>_ :: bytes. Some [\<lparr>ad_inet = True, ad_text = Some ''10.0.0.2''\<rparr>])"
  define Es where "Es = demo_cli\<lparr>cv_find := (\<lambda>n. the (find_by_name resolver addrs True demo_pumps n))\<rparr>"
  have start: "advertiser_start (Some 1) ''pc'' 7 new_advertiser = (True, a)"
    by (simp add: a_def advertiser_start_def new_advertiser_def)
  have n: "added_names (pumped demo_pumps) = [Some ''mac'', Some ''mac'', Some ''pc'']" by code_simp
  have "\<forall>p \<in> set demo_pumps. pu_time_left p \<and> pu_ok p" by (simp add: demo_pumps_def)
  then have an: "announces a ''pc'' ''10.0.0.2'' demo_pumps resolver addrs"
    by (simp add: announces_def n resolver_def addrs_def a_def advertiser_start_def new_advertiser_def)
  have found: "find_by_name resolver addrs True demo_pumps ''pc'' = Some (cv_find Es ''pc'')"
    using announced_found [OF start an] by (simp add: Es_def)
  have flags: "parse_flags [''--to'', ''pc'', ''--file'', ''f''] = Some [(''to'', ''pc''), (''file'', ''f'')]" by code_simp
  obtain cs sacts where s: "run_send Es [''--to'', ''pc'', ''--file'', ''f''] = (cs, sacts)" by fastforce
  have "sacts \<noteq> []"
  proof -
    have p: "reject_unknown_flags [(''to'', ''pc''), (''file'', ''f'')] [''host'', ''to'', ''port'', ''file'']"
      "\<not> flag_set [(''to'', ''pc''), (''file'', ''f'')] ''host''" "flag_set [(''to'', ''pc''), (''file'', ''f'')] ''to''"
      "flag_set [(''to'', ''pc''), (''file'', ''f'')] ''file''" "flag_or [(''to'', ''pc''), (''file'', ''f'')] ''file'' [] = ''f''"
      by code_simp+
    show ?thesis using s by (auto simp: run_send_def flags p Es_def demo_cli_def Let_def split: option.splits)
  qed
  from named_receiver_reached [OF demo_recv_command _ _ start an s flags _ this found] obtain rest where
    "sacts = Act_find ''pc'' # Act_connect ''10.0.0.2'' 7 # rest" by auto
  then have "snd (run_send Es [''--to'', ''pc'', ''--file'', ''f'']) = Act_find ''pc'' # Act_connect ''10.0.0.2'' 7 # rest"
    using s by simp
  with demo_recv_command show ?thesis by blast
qed

end
