(* ===== verification/Spec2Isabelle.thy ===== *)
theory Spec2Isabelle
  imports Protocol_Properties Server_Properties Server_Races Client_Properties End_To_End
    Server_Lifecycle Client_Lifecycle Mdns Format_Bytes Cli Waits_End Client_Raw Gui_Properties Prompted_Session Window_Send
    Lock_Properties Client_Lock_Properties Closed_Streams Call_Phases Command_Sessions Cli_Console Transfer_Properties Command_Transfer
begin

text \<open>
  LFT sends a file from one machine to another on the same network, over QUIC. This library
  models its C++ code under \<open>src/src/\<close> and \<open>src/include/\<close> and proves what makes it correct.

  \<^bold>\<open>The program.\<close> The sender (\<open>QuicClient\<close>) opens a stream and writes a text header: magic
  line, file name, size, SHA-256. The receiver (\<open>QuicServer\<close>)
  collects the stream until the header is complete, asks its user or accepts by itself,
  answers \<open>ACCEPT\<close> or \<open>REJECT\<close>, writes the body to disk, compares length and hash when the
  stream ends, and answers \<open>OK\<close> or \<open>FAIL\<close>. msquic calls both classes back on threads of its
  own; an application thread blocks in \<open>send_file\<close>, \<open>receive_file\<close> or \<open>connect\<close> on condition
  variables these callbacks signal. Discovery (\<open>net/mdns.cpp\<close>) finds the receiver's address
  and port by name. The command line (\<open>main.cpp\<close>) and a Qt front end (\<open>gui/\<close>) put the parts
  together; the front end runs the engine in worker threads that talk to its pages through
  queued calls.

  \<^bold>\<open>Theories, and the code they model.\<close>
  \<^item> \<open>LFT_Prelude\<close>: bytes, machine integers, the shared collections of rules, list lemmas.
  \<^item> \<open>Cxx_Text\<close>: what the code uses of \<open>std::string\<close>, \<open>cctype\<close>, \<open>std::from_chars\<close> and
    \<open>std::filesystem::path\<close>.
  \<^item> \<open>Transfer_Protocol\<close> (\<open>transfer/quic_transfer.cpp\<close> and its header): the record
    \<open>file_transfer_header\<close>, \<open>encode_file_header\<close>, \<open>decode_file_header\<close> with the index loop of
    the code (\<open>decode_loop\<close>), \<open>sanitize_file_name\<close>, \<open>is_sha256_hex\<close>, \<open>parse_full_u64\<close>.
    \<open>Protocol_Facts\<close> holds the lemmas about them and \<open>Protocol_Properties\<close> the properties,
    with a specification of the decoder over the lines of its input (\<open>header_spec\<close>).
  \<^item> \<open>Header_Framing\<close>: the locale \<open>framing\<close>, all that a receiver relies on of a wire format,
    and its interpretation \<open>wire\<close> on the encoder and decoder.
  \<^item> \<open>File_Store\<close>: files and \<open>std::ofstream\<close>; the locale \<open>output_store\<close>, interpreted as \<open>store\<close>.
  \<^item> \<open>Sha256\<close> (\<open>transfer/sha256.cpp\<close>): \<open>sha256_bytes\<close>, \<open>sha256_file\<close> and the hexadecimal form.
    OpenSSL is the parameter \<open>evp\<close>, a record of functions; two hypotheses name its documented
    behaviour, \<open>evp_streaming\<close> (updates in pieces are one update of their concatenation) and
    \<open>evp_sized\<close> (a digest has 32 bytes). The witnesses instantiate it with a toy digest.
  \<^item> \<open>Waiter\<close>: the locale of a flag guarded by a mutex and a condition variable, as the code
    uses it five times; it is interpreted for the file waiter of the server and the
    connect, send, file and decision waiters of the client.
  \<^item> \<open>Cut_Callbacks\<close>: the locale of a callback that is cut into operations and can be worked off one at
    a time; \<open>Server_Locks\<close> and \<open>Client_Locks\<close> interpret it.
  \<^item> \<open>Quic_Api\<close>: the log of msquic calls and \<open>transfer/quic_send_buffer.h\<close> with the ownership
    of its blocks.
  \<^item> \<open>Quic_Server\<close> (\<open>transfer/quic_server.cpp\<close>): the record \<open>quic_server\<close>, a field per member
    of the class, and one function per callback and per function the callbacks use.
    \<open>Server_Session\<close> adds the thread in \<open>receive_file\<close>: the relation \<open>session_step\<close> interleaves
    it with the callbacks. \<open>Server_Facts\<close>, \<open>Server_Stream\<close>, \<open>Server_Guarantees\<close> and
    \<open>Server_Checked\<close> hold frames, the behaviour of one well-behaved stream, the invariants of
    all interleavings, and what a checked transfer is; \<open>Server_Properties\<close> and
    \<open>Server_Races\<close> the properties.
  \<^item> \<open>Server_Locks\<close>: the same callbacks cut where they take \<open>file_mutex_\<close> and between the buffers of
    a RECEIVE event, as lists of operations that the relation \<open>lock_step\<close> interleaves with the
    caller, and who holds the mutex across a wait. \<open>Lock_Refinement\<close> shows how a step of the
    caller commutes with what is left of a callback, \<open>Lock_Guarantees\<close> the simulation invariant,
    \<open>Lock_Properties\<close> that every such run has a run with atomic callbacks of the same outcome, and
    the wait that holds the mutex. \<open>Call_Phases\<close> orders the phases of a call: the thread only
    moves forward, and the user is asked at most once.
  \<^item> \<open>Quic_Client\<close> and \<open>Client_Session\<close> (\<open>transfer/quic_client.cpp\<close>): the record
    \<open>quic_client\<close>, its callbacks, and \<open>send_file\<close> as a program counter at its waits
    (\<open>send_step\<close>). \<open>Client_Facts\<close> holds the sender's invariant, \<open>Client_Liveness\<close> a run to
    success, \<open>Client_Properties\<close> the properties, \<open>Client_Outcome\<close> what a result of \<open>send_file\<close> says
    about the file it was called with.
  \<^item> \<open>Client_Locks\<close>: the same callbacks cut where they take one of the five mutexes of the class, between
    the buffers of a RECEIVE event, and where they reset \<open>stream_\<close> and \<open>connection_\<close>, which no mutex
    guards; the relation \<open>client_lock_step\<close> interleaves the pieces with the thread.
    \<open>Client_Lock_Refinement\<close> shows that the thread cannot tell such a run from one with atomic
    callbacks, \<open>Client_Lock_Properties\<close> has the refinement and what a returned success means in such a
    run. \<open>Client_Thread_Cuts\<close> cuts the thread instead, where it reads \<open>stream_\<close> without a lock
    (\<open>cut_step\<close>), and shows that an uninterrupted thread is the one of \<open>Client_Session\<close>.
    \<open>Closed_Streams\<close> has what both cuts change: a closed stream may be used.
  \<^item> \<open>Waits_End\<close>: the locale \<open>blocking_call\<close>, a thread among callbacks whose own steps lower a
    rank, interpreted for \<open>send_file\<close> and \<open>receive_file\<close>; both end. \<open>Client_Raw\<close> interprets
    it for \<open>send_raw_stream\<close>, the sender the integration tests use.
  \<^item> \<open>End_To_End\<close>: a finished sender and an automatic receiver over a stream that delivers bytes
    in order. \<open>Transfer_System\<close>: both machines as one system, the relation \<open>net_step\<close>, in which the
    threads and callbacks of \<open>send_file\<close> and \<open>receive_file\<close> are interleaved and the stream hands
    over what was sent, in order, in any pieces, or not at all. \<open>Receiver_Follows\<close> relates the
    receiver to the bytes it was given, \<open>Transfer_Invariant\<close> and \<open>Transfer_Guarantees\<close> hold the
    invariant of all runs (ACCEPT was sent only by a receiver that accepted, OK only by one that
    checked, bytes of the file only to one that accepted), \<open>Transfer_Calls\<close> starts it with the two
    calls, \<open>Transfer_Completes\<close> builds a run to success, \<open>Transfer_Properties\<close> has the properties.
    \<open>Command_Transfer\<close> puts \<open>lft send\<close> and \<open>lft recv\<close> on top of this system and of discovery.
  \<^item> \<open>Teardown\<close>: the locale of releasing objects in an order that respects their nesting;
    \<open>Server_Lifecycle\<close> (\<open>start\<close>, \<open>stop\<close>) and \<open>Client_Lifecycle\<close> (\<open>connect\<close>, \<open>disconnect\<close>)
    interpret it and prove that a failing step leaves nothing behind; the client answers for the
    connection it opens, and the one way to leave it open is a shutdown that does not complete in time.
    \<open>reported_by\<close> names what msquic documents of the events of a connection.
  \<^item> \<open>Mdns\<close> (\<open>net/mdns.cpp\<close>), \<open>Format_Bytes\<close> (\<open>common/format.cpp\<close>), \<open>Cli\<close> (\<open>main.cpp\<close>):
    flags, ports, commands and exit codes. \<open>Cli_Console\<close> adds the usage, the banner of \<open>recv\<close> with
    the addresses it lists, and the reports; \<open>Command_Sessions\<close> puts the commands together with
    the sessions of the engine they wait for.
  \<^item> \<open>Gui_Workers\<close> (\<open>gui/recv_worker.cpp\<close>, \<open>send_worker.cpp\<close>), \<open>Gui_Pages\<close> (\<open>recv_page.cpp\<close>,
    \<open>send_page.cpp\<close>) and \<open>Gui_Session\<close> (\<open>main_window.cpp\<close> and the threads): workers cut at
    their blocking calls, a record for each page with a function for each slot, and the
    window as a partial step function \<open>gui_step\<close> over labels that carry the choices of the
    user, the engine and the scheduler. \<open>Gui_Facts\<close> and \<open>Gui_Invariants\<close> hold the invariant
    of all runs, \<open>Gui_Properties\<close> the properties.
  \<^item> \<open>Prompted_Session\<close>: the session of a receive whose user accepts, and the receive worker of
    the window put together with the sessions of the \<open>receive_file\<close> it waits for.
    \<open>Window_Send\<close> does the same for the send worker and the runs of \<open>send_file\<close>.

  \<^bold>\<open>How state and steps correspond.\<close> A callback is one step of the model. In the code
  a stream callback of the server runs without a lock and takes \<open>file_mutex_\<close> only to publish a
  flag; msquic does not overlap the callbacks of one connection, and \<open>Server_Locks\<close> cuts them at
  their critical sections: \<open>lock_granularity_refines\<close> shows that the cut does not change what a
  call returns or leaves on disk. \<open>sender_granularity_refines\<close> shows the same of the sender, whose
  callbacks are cut at every access to state that the thread can see. A blocking function is cut at its waits; what it does
  from one wait to the next is one step, and a wait ends because its flag is set or because
  its timeout passes, which may happen at any time. Calls of msquic are logged in the record
  \<open>quic_io\<close> in their order (the lifecycle theories log only those that succeed); the
  environment of a step (\<open>server_env\<close>, \<open>client_env\<close>, \<open>start_env\<close>, \<open>connect_env\<close>) says which
  calls, opens and writes succeed and which handles are given, so every error path of the
  code is a branch, and a theorem over all runs is one over all such choices. Errors are
  values: a \<open>bool\<close> with the error text of the object, or an option. Machine integers keep
  their width; where the code checks for overflow (\<open>body_overflows\<close>, \<open>parse_full_u64\<close>,
  \<open>parse_port\<close>) the check is the code's.

  \<^bold>\<open>Loops.\<close> All definitions are total, and none has fuel. The decoder's loop ends because its
  index grows, the read loop because the rest of the file shrinks, \<open>scale_loop\<close> because the
  unit grows. The threads of the two
  blocking calls take boundedly many steps (\<open>Waits_End\<close>): four and one for each chunk of
  64 KiB for a send, five for a receive. The discovery loops run over the list of pumps up to the deadline: how many
  there are is the clock's choice, and the theorems hold for every list.

  \<^bold>\<open>What the properties show.\<close> The wire format: encode and decode are inverse up to
  sanitising, the decoder equals its specification, an accepted header is safe to use, and
  the cut of the stream into buffers does not matter. The receiver: its refinement of a
  one-line specification, that a returned success was checked on disk, that it writes only
  where it was told to and only after consent, its bounds, its ownership of send blocks.
  The sender: the order of what it sends, what its result means. Both together: when either
  side says that it succeeded the file has arrived as it was sent, no byte of it leaves before
  the receiver's user agrees, a transfer can go through, and the calls return. The whole program:
  the exit codes of \<open>lft send\<close> and \<open>lft recv\<close> tell the truth about the transfer between them, and a
  name leads to the machine and the port that announced it. Around them: hashing, starting and
  stopping, discovery, the formatting of sizes, and the command line, whose exit code 0 means
  a transfer that was checked. The front end: its threads,
  queued calls and pages agree, one transfer runs at a time, it sends where the user chose
  and receives into the chosen folder, and what it says of a transfer is true. What the command line
  and the front end say of a received file is proved for sessions in which no second stream starts
  (\<open>one_stream\<close>). Some theorems
  show where the code falls short of its intent: an offer replaced while the user decides, a malformed header and a failed
  open that are never answered, a stale rejection, events of a foreign stream, a lost
  connection that is not noticed, a reconnect that leaks, a wait that
  keeps the mutex a callback needs, a stream used after its close, a connection left open by a shutdown that
  is not reported in time, 1024.0 of a unit, a window that
  hangs when it is closed, a progress bar that stands still while a file is sent, and a file
  whose name makes its transfer look declined.

  \<^bold>\<open>Simplifications.\<close> What a callback of the receiver does between two operations on \<open>file_mutex_\<close> is
  atomic, and what a thread does between two of its waits is, except in \<open>Client_Thread_Cuts\<close>; the system of both machines is
  built from atomic callbacks. Two threads that write one string at the same time, which C++ leaves
  undefined, are not modelled. What is written to an \<open>ofstream\<close> is in the file at once, so a failure
  that shows only on close is not modelled. Directories are never created, and paths are
  POSIX paths. Log output of the engine and the texts of command line errors are left out.
  The timers of QUIC and its retransmissions are part of the environment.

  In the front end Qt's threads and queues are the documented ones: calls queued for a thread
  run in order from its event loop, and a message box runs a nested loop. What \<open>arg\<close>,
  \<open>trimmed\<close> and \<open>contains\<close> do to a text is a parameter, with two named hypotheses
  (\<open>inserts_path\<close>, \<open>finds_parts\<close>) where a theorem needs them. A file dialog is one step, and
  the result of the engine in a worker is the choice of its label.

  \<^bold>\<open>Not modelled.\<close> The layout of the front end and its window titles; the creation of
  directories; the tests; the build. What is left of the C++ code is
  declarations, constructors, the widgets' layout and the includes.
\<close>

end
